(* ===== verification/Prelude.thy ===== *)
theory Prelude
  imports Main "HOL-Library.Word" "HOL-Library.Multiset" "HOL-Library.Sublist"
begin

text \<open>
  Shared vocabulary of the go-lanai development: the simp collections of the components, the sort of
  Go's library (\<^verbatim>\<open>sort.SliceStable\<close>), and the list lemmas the component proofs share.

  Conventions. A \<^verbatim>\<open>time.Time\<close> and a \<^verbatim>\<open>time.Duration\<close> are integers counting
  nanoseconds; every call of \<^verbatim>\<open>time.Now()\<close> is an explicit argument. A Go
  \<^verbatim>\<open>(value, error)\<close> pair whose value is meaningless on error is a sum, \<open>Inl\<close> the error.
  A Go map is a partial function, or a list of distinct keys where the code enumerates or counts it.
  Log statements have no counterpart.
\<close>

unbundle bit_operations_syntax

section \<open>Types and collections\<close>

type_synonym time = int
type_synonym duration = int
type_synonym byte = "8 word"

named_theorems order_simps \<open>definitions of the ordering comparators\<close>
named_theorems error_simps \<open>code constants and predicates of the coded errors\<close>
named_theorems matcher_simps \<open>evaluation of matchers\<close>
named_theorems tenancy_simps \<open>tenant relation encoding\<close>
named_theorems passwd_simps \<open>account and authentication operations\<close>

section \<open>Calls\<close>

text \<open>What becomes of a call that may panic or never return.\<close>

datatype 'a call = Returns 'a | Panics | Runs_forever

fun and_then :: "'a call \<Rightarrow> ('a \<Rightarrow> 'b call) \<Rightarrow> 'b call" where
  "and_then (Returns a) f = f a"
| "and_then Panics f = Panics"
| "and_then Runs_forever f = Runs_forever"

section \<open>List lemmas\<close>

lemma find_SomeD: "find P xs = Some x \<Longrightarrow> x \<in> set xs \<and> P x"
  by (metis find_Some_iff nth_mem)

section \<open>sort.SliceStable\<close>

text \<open>
  \<^verbatim>\<open>sort.SliceStable\<close> is an insertion sort (of blocks that are then merged): the next element is
  swapped backwards while it is less than its left neighbour. \<open>shift_back\<close> does the backward
  swaps, on the sorted prefix in reverse.
\<close>

fun shift_back :: "('a \<Rightarrow> 'a \<Rightarrow> bool) \<Rightarrow> 'a \<Rightarrow> 'a list \<Rightarrow> 'a list" where
  "shift_back lt x [] = [x]"
| "shift_back lt x (y # ys) = (if lt x y then y # shift_back lt x ys else x # y # ys)"

fun insertion_loop :: "('a \<Rightarrow> 'a \<Rightarrow> bool) \<Rightarrow> 'a list \<Rightarrow> 'a list \<Rightarrow> 'a list" where
  "insertion_loop lt acc [] = acc"
| "insertion_loop lt acc (x # xs) = insertion_loop lt (shift_back lt x acc) xs"

definition SliceStable :: "('a \<Rightarrow> 'a \<Rightarrow> bool) \<Rightarrow> 'a list \<Rightarrow> 'a list" where
  "SliceStable lt xs = rev (insertion_loop lt [] xs)"

lemma mset_shift_back [simp]: "mset (shift_back lt x ys) = add_mset x (mset ys)"
  by (induction ys) auto

lemma set_shift_back [simp]: "set (shift_back lt x ys) = insert x (set ys)"
  by (induction ys) auto

lemma mset_insertion_loop [simp]: "mset (insertion_loop lt acc xs) = mset acc + mset xs"
  by (induction xs arbitrary: acc) auto

lemma mset_SliceStable [simp]: "mset (SliceStable lt xs) = mset xs"
  by (simp add: SliceStable_def)

lemma set_SliceStable [simp]: "set (SliceStable lt xs) = set xs"
  using mset_SliceStable [of lt xs] by (metis set_mset_mset)

lemma length_SliceStable [simp]: "length (SliceStable lt xs) = length xs"
  using mset_SliceStable [of lt xs] by (metis size_mset)

text \<open>
  A \<^verbatim>\<open>less\<close> function is usable with the sort when it is a strict weak order: irreflexive,
  transitive, and with a transitive incomparability, stated here as negative transitivity.
\<close>

locale strict_weak_order =
  fixes lt :: "'a \<Rightarrow> 'a \<Rightarrow> bool"
  assumes irrefl: "\<not> lt a a"
    and trans: "lt a b \<Longrightarrow> lt b c \<Longrightarrow> lt a c"
    and negtrans: "lt a c \<Longrightarrow> lt a b \<or> lt b c"
begin

lemma asym: "lt a b \<Longrightarrow> \<not> lt b a"
  using irrefl trans by blast

lemma le_less_trans: "\<not> lt b a \<Longrightarrow> lt b c \<Longrightarrow> lt a c"
  using negtrans by blast

lemma shift_back_sorted:
  "sorted_wrt (\<lambda>a b. \<not> lt a b) ys \<Longrightarrow> sorted_wrt (\<lambda>a b. \<not> lt a b) (shift_back lt x ys)"
proof (induction ys)
  case Nil
  then show ?case by simp
next
  case (Cons y ys)
  show ?case
  proof (cases "lt x y")
    case True
    with Cons show ?thesis by (auto dest: asym)
  next
    case False
    with Cons.prems have "\<not> lt x z" if "z \<in> set ys" for z
      using that negtrans [of x z y] by auto
    with False Cons.prems show ?thesis by auto
  qed
qed

lemma insertion_loop_sorted:
  "sorted_wrt (\<lambda>a b. \<not> lt a b) acc \<Longrightarrow>
   sorted_wrt (\<lambda>a b. \<not> lt a b) (insertion_loop lt acc xs)"
  by (induction xs arbitrary: acc) (auto intro: shift_back_sorted)

lemma SliceStable_sorted: "sorted_wrt (\<lambda>a b. \<not> lt b a) (SliceStable lt xs)"
  using insertion_loop_sorted [of "[]" xs] by (simp add: SliceStable_def sorted_wrt_rev)

definition equiv :: "'a \<Rightarrow> 'a \<Rightarrow> bool" where
  "equiv a b \<longleftrightarrow> \<not> lt a b \<and> \<not> lt b a"

lemma equiv_less: "equiv a x \<Longrightarrow> lt x y \<Longrightarrow> \<not> equiv a y"
  using negtrans by (auto simp: equiv_def)

lemma filter_shift_back:
  "filter (equiv a) (shift_back lt x ys) =
     (if equiv a x then x # filter (equiv a) ys else filter (equiv a) ys)"
  by (induction ys) (auto dest: equiv_less)

lemma filter_insertion_loop:
  "filter (equiv a) (insertion_loop lt acc xs) =
     rev (filter (equiv a) xs) @ filter (equiv a) acc"
  by (induction xs arbitrary: acc) (auto simp: filter_shift_back)

lemma SliceStable_stable: "filter (equiv a) (SliceStable lt xs) = filter (equiv a) xs"
  by (simp add: SliceStable_def filter_insertion_loop flip: rev_filter)

end

end
