(* ===== verification/Matchers.thy ===== *)
theory Matchers
  imports Go_Strings
begin

text \<open>
  Matchers: \<^verbatim>\<open>pkg/utils/matcher\<close> (\<^verbatim>\<open>matcher.go\<close>, \<^verbatim>\<open>strings.go\<close>) and the request
  matchers of \<^verbatim>\<open>pkg/web/matcher/request_matchers.go\<close>. A match returns a Boolean and an error, and
  both are meaningful at once: a negation flips the Boolean of a failed match and keeps its error.

  The dynamic type of the value to match is the datatype \<open>iface\<close>. What a context holds for a matcher
  is the context path. The glob matcher (\<^verbatim>\<open>doublestar.Match\<close>, a third party package) and the
  regular expression matcher are parameters of the definitions that call them.
\<close>

section \<open>Values, contexts and matchers\<close>

record request =
  Host :: string
  Method :: string
  URLPath :: string
  HeaderGet :: "string \<Rightarrow> string"
  ParseForm :: "string option"
  FormGet :: "string \<Rightarrow> string"
  FormValue :: "string \<Rightarrow> string"
  PostFormValue :: "string \<Rightarrow> string"

record go_context =
  ContextPath :: string

definition context_TODO :: go_context where
  "context_TODO = \<lparr>ContextPath = ''''\<rparr>"

text \<open>The values of a permission map; only their presence, and a string stored as one, matter.\<close>

datatype perm_value = PermTrue | PermString string | PermOther nat

datatype iface =
    IString string
  | IRequest request
  | IPermissions "string \<rightharpoonup> perm_value"
  | IOther nat

type_synonym match_result = "bool \<times> string option"

text \<open>
  A \<open>FuncMatcher\<close> is any matcher backed by a function of the context and the value, with its
  description: \<^verbatim>\<open>GenericMatcher\<close>, \<^verbatim>\<open>stringMatcher\<close>, \<^verbatim>\<open>requestMatcher\<close> with a
  matchable function, and the permission matcher of the access control package.
\<close>

datatype matcher =
    NoopMatcher bool
  | OrMatcher "matcher list"
  | AndMatcher "matcher list"
  | NegateMatcher matcher
  | FuncMatcher string "go_context \<Rightarrow> iface \<Rightarrow> match_result"
  | RequestMatcher string matcher

definition Any_m :: matcher where "Any_m = NoopMatcher True"
definition None_m :: matcher where "None_m = NoopMatcher False"

definition Or_m :: "matcher \<Rightarrow> matcher list \<Rightarrow> matcher" where
  "Or_m left right = OrMatcher (left # right)"

definition And_m :: "matcher \<Rightarrow> matcher list \<Rightarrow> matcher" where
  "And_m left right = AndMatcher (left # right)"

definition Not_m :: "matcher \<Rightarrow> matcher" where
  "Not_m m = NegateMatcher m"

definition interfaceToRequest :: "iface \<Rightarrow> string + request" where
  "interfaceToRequest i =
     (case i of IRequest r \<Rightarrow> Inr r | _ \<Rightarrow> Inl ''web.RequestMatcher doesn't support the value'')"

text \<open>
  The loops of \<^verbatim>\<open>OrMatcher\<close> and \<^verbatim>\<open>AndMatcher\<close> leave at the first match (first mismatch) or error
  and return the last result; the named results start as \<^verbatim>\<open>false, nil\<close>.
\<close>

fun or_loop :: "('m \<Rightarrow> match_result) \<Rightarrow> 'm list \<Rightarrow> match_result \<Rightarrow> match_result" where
  "or_loop f [] res = res"
| "or_loop f (m # ms) res = (let r = f m in if fst r \<or> snd r \<noteq> None then r else or_loop f ms r)"

fun and_loop :: "('m \<Rightarrow> match_result) \<Rightarrow> 'm list \<Rightarrow> match_result \<Rightarrow> match_result" where
  "and_loop f [] res = res"
| "and_loop f (m # ms) res = (let r = f m in if \<not> fst r \<or> snd r \<noteq> None then r else and_loop f ms r)"

lemma or_loop_cong [fundef_cong]:
  assumes "ms = ms'" and "res = res'" and "\<And>m. m \<in> set ms' \<Longrightarrow> f m = g m"
  shows "or_loop f ms res = or_loop g ms' res'"
  using assms(3) unfolding assms(1,2) by (induction ms' arbitrary: res') (auto simp: Let_def)

lemma and_loop_cong [fundef_cong]:
  assumes "ms = ms'" and "res = res'" and "\<And>m. m \<in> set ms' \<Longrightarrow> f m = g m"
  shows "and_loop f ms res = and_loop g ms' res'"
  using assms(3) unfolding assms(1,2) by (induction ms' arbitrary: res') (auto simp: Let_def)

fun MatchesWithContext :: "go_context \<Rightarrow> matcher \<Rightarrow> iface \<Rightarrow> match_result" where
  "MatchesWithContext c (NoopMatcher b) i = (b, None)"
| "MatchesWithContext c (OrMatcher ms) i = or_loop (\<lambda>m. MatchesWithContext c m i) ms (False, None)"
| "MatchesWithContext c (AndMatcher ms) i = and_loop (\<lambda>m. MatchesWithContext c m i) ms (False, None)"
| "MatchesWithContext c (NegateMatcher m) i =
     (case MatchesWithContext c m i of (ret, err) \<Rightarrow> (\<not> ret, err))"
| "MatchesWithContext c (FuncMatcher d f) i = f c i"
| "MatchesWithContext c (RequestMatcher d m) i =
     (case interfaceToRequest i of Inl e \<Rightarrow> (False, Some e)
      | Inr r \<Rightarrow> MatchesWithContext c m (IRequest r))"

definition Matches :: "matcher \<Rightarrow> iface \<Rightarrow> match_result" where
  "Matches m i = MatchesWithContext context_TODO m i"

fun matcher_String :: "matcher \<Rightarrow> string" where
  "matcher_String (NoopMatcher b) = (if b then ''matches any'' else ''matches none'')"
| "matcher_String (OrMatcher ms) = strings_Join (map matcher_String ms) '' OR ''"
| "matcher_String (AndMatcher ms) = strings_Join (map matcher_String ms) '' AND ''"
| "matcher_String (NegateMatcher m) = ''Not('' @ matcher_String m @ '')''"
| "matcher_String (FuncMatcher d f) = d"
| "matcher_String (RequestMatcher d m) = (if d \<noteq> '''' then d else matcher_String m)"

section \<open>String matchers\<close>

definition MatchString :: "string \<Rightarrow> string \<Rightarrow> bool \<Rightarrow> bool" where
  "MatchString expected actual caseInsensitive =
     (if caseInsensitive then strings_ToLower expected = strings_ToLower actual else expected = actual)"

definition MatchSubString :: "string \<Rightarrow> string \<Rightarrow> bool \<Rightarrow> bool" where
  "MatchSubString substr actual caseInsensitive =
     (if caseInsensitive then strings_Contains (strings_ToLower actual) (strings_ToLower substr)
      else strings_Contains actual substr)"

definition MatchPathPattern :: "(string \<Rightarrow> string \<Rightarrow> match_result) \<Rightarrow> string \<Rightarrow> string \<Rightarrow> match_result" where
  "MatchPathPattern doublestar_Match pattern path =
     (if pattern = '''' then (True, None) else doublestar_Match pattern path)"

definition MatchPrefix :: "string \<Rightarrow> string \<Rightarrow> bool \<Rightarrow> match_result" where
  "MatchPrefix p val caseInsensitive =
     (if caseInsensitive then (strings_HasPrefix (strings_ToLower val) (strings_ToLower p), None)
      else (strings_HasPrefix val p, None))"

definition MatchSuffix :: "string \<Rightarrow> string \<Rightarrow> bool \<Rightarrow> match_result" where
  "MatchSuffix s val caseInsensitive =
     (if caseInsensitive then (strings_HasSuffix (strings_ToLower val) (strings_ToLower s), None)
      else (strings_HasSuffix val s, None))"

definition descSuffixCaseInsensitive :: string where
  "descSuffixCaseInsensitive = '', case insensitive''"

definition case_desc :: "string \<Rightarrow> string \<Rightarrow> bool \<Rightarrow> string" where
  "case_desc verb s caseInsensitive =
     verb @ '' ['' @ s @ '']'' @ (if caseInsensitive then descSuffixCaseInsensitive else '''')"

definition stringMatcher :: "string \<Rightarrow> (go_context \<Rightarrow> string \<Rightarrow> match_result) \<Rightarrow> matcher" where
  "stringMatcher description matchFunc =
     FuncMatcher description
       (\<lambda>c i. case i of IString v \<Rightarrow> matchFunc c v
              | _ \<Rightarrow> (False, Some ''StringMatcher doesn't support the value''))"

definition WithString :: "string \<Rightarrow> bool \<Rightarrow> matcher" where
  "WithString expected ci =
     stringMatcher (case_desc ''matches'' expected ci) (\<lambda>_ v. (MatchString expected v ci, None))"

definition WithSubString :: "string \<Rightarrow> bool \<Rightarrow> matcher" where
  "WithSubString substr ci =
     stringMatcher (case_desc ''contains'' substr ci) (\<lambda>_ v. (MatchSubString substr v ci, None))"

definition AnyNonEmptyString :: matcher where
  "AnyNonEmptyString = stringMatcher ''matches any non-empty string'' (\<lambda>_ v. (v \<noteq> '''', None))"

definition WithPathPattern :: "(string \<Rightarrow> string \<Rightarrow> match_result) \<Rightarrow> string \<Rightarrow> matcher" where
  "WithPathPattern doublestar_Match pattern =
     stringMatcher (''matches pattern ['' @ pattern @ '']'') (\<lambda>_ v. MatchPathPattern doublestar_Match pattern v)"

definition WithPrefix :: "string \<Rightarrow> bool \<Rightarrow> matcher" where
  "WithPrefix p ci = stringMatcher (case_desc ''start with'' p ci) (\<lambda>_ v. MatchPrefix p v ci)"

definition WithSuffix :: "string \<Rightarrow> bool \<Rightarrow> matcher" where
  "WithSuffix s ci = stringMatcher (case_desc ''ends with'' s ci) (\<lambda>_ v. MatchSuffix s v ci)"

definition WithRegex :: "(string \<Rightarrow> string \<Rightarrow> match_result) \<Rightarrow> string \<Rightarrow> matcher" where
  "WithRegex regexp_MatchString regex =
     stringMatcher (''matches regex ['' @ regex @ '']'') (\<lambda>_ v. regexp_MatchString regex v)"

section \<open>Request matchers\<close>

definition requestMatcher ::
    "string \<Rightarrow> (go_context \<Rightarrow> request \<Rightarrow> string + string) \<Rightarrow> matcher \<Rightarrow> matcher" where
  "requestMatcher description matchable delegate =
     FuncMatcher description
       (\<lambda>c i. case interfaceToRequest i of Inl e \<Rightarrow> (False, Some e)
              | Inr r \<Rightarrow> (case matchable c r of Inl e \<Rightarrow> (False, Some e)
                         | Inr v \<Rightarrow> MatchesWithContext c delegate (IString v)))"

definition wrapAsRequestMatcher :: "matcher \<Rightarrow> matcher" where
  "wrapAsRequestMatcher m = RequestMatcher (matcher_String m) m"

definition host_of :: "go_context \<Rightarrow> request \<Rightarrow> string + string" where
  "host_of c r = Inr (Host r)"

definition method_of :: "go_context \<Rightarrow> request \<Rightarrow> string + string" where
  "method_of c r = Inr (Method r)"

definition path_of :: "go_context \<Rightarrow> request \<Rightarrow> string + string" where
  "path_of c r = Inr (strings_TrimPrefix (URLPath r) (ContextPath c))"

definition query_of :: "string \<Rightarrow> go_context \<Rightarrow> request \<Rightarrow> string + string" where
  "query_of name c r = (case ParseForm r of Some e \<Rightarrow> Inl e | None \<Rightarrow> Inr (FormGet r name))"

definition form_of :: "string \<Rightarrow> go_context \<Rightarrow> request \<Rightarrow> string + string" where
  "form_of name c r =
     (case ParseForm r of Some e \<Rightarrow> Inl (''can't find post form data from request: '' @ e)
      | None \<Rightarrow> Inr (FormValue r name))"

definition postForm_of :: "string \<Rightarrow> go_context \<Rightarrow> request \<Rightarrow> string + string" where
  "postForm_of name c r =
     (case ParseForm r of Some e \<Rightarrow> Inl (''can't find post form data from request: '' @ e)
      | None \<Rightarrow> Inr (PostFormValue r name))"

definition AnyRequest :: matcher where "AnyRequest = wrapAsRequestMatcher Any_m"
definition NoneRequest :: matcher where "NoneRequest = wrapAsRequestMatcher None_m"

definition NotRequest :: "matcher \<Rightarrow> matcher" where
  "NotRequest m = wrapAsRequestMatcher (Not_m m)"

definition RequestWithHost :: "string \<Rightarrow> matcher" where
  "RequestWithHost expected =
     (let delegate = WithString expected True
      in requestMatcher (''host '' @ matcher_String delegate) host_of delegate)"

text \<open>The methods are or-ed one by one: \<^verbatim>\<open>delegate = delegate.Or(...)\<close>.\<close>

definition RequestWithMethods :: "string list \<Rightarrow> matcher" where
  "RequestWithMethods methods =
     (let delegate = (case methods of [] \<Rightarrow> Any_m
        | m # ms \<Rightarrow> foldl (\<lambda>d m. Or_m d [WithString m True]) (WithString m True) ms)
      in requestMatcher (''method '' @ matcher_String delegate) method_of delegate)"

definition path_and_methods :: "matcher \<Rightarrow> string list \<Rightarrow> matcher" where
  "path_and_methods pDelegate methods =
     (let pMatcher = requestMatcher (''path '' @ matcher_String pDelegate) path_of pDelegate;
          mMatcher = RequestWithMethods methods
      in wrapAsRequestMatcher (And_m pMatcher [mMatcher]))"

definition RequestWithPattern :: "(string \<Rightarrow> string \<Rightarrow> match_result) \<Rightarrow> string \<Rightarrow> string list \<Rightarrow> matcher" where
  "RequestWithPattern doublestar_Match pattern methods =
     path_and_methods (WithPathPattern doublestar_Match pattern) methods"

definition RequestWithPrefix :: "string \<Rightarrow> string list \<Rightarrow> matcher" where
  "RequestWithPrefix p methods = path_and_methods (WithPrefix p True) methods"

definition RequestWithRegex :: "(string \<Rightarrow> string \<Rightarrow> match_result) \<Rightarrow> string \<Rightarrow> string list \<Rightarrow> matcher" where
  "RequestWithRegex regexp_MatchString regex methods = path_and_methods (WithRegex regexp_MatchString regex) methods"

definition RequestWithHeader :: "string \<Rightarrow> string \<Rightarrow> bool \<Rightarrow> matcher" where
  "RequestWithHeader name val pre =
     requestMatcher (''matches header '' @ name @ '':'' @ val) (\<lambda>_ r. Inr (HeaderGet r name))
       (if pre then WithPrefix val True else WithString val True)"

definition RequestHasHeader :: "string \<Rightarrow> matcher" where
  "RequestHasHeader name =
     requestMatcher (''matches have header '' @ name) (\<lambda>_ r. Inr (HeaderGet r name)) AnyNonEmptyString"

definition RequestHasPostForm :: "string \<Rightarrow> matcher" where
  "RequestHasPostForm param =
     requestMatcher (''matches have form parameter ['' @ param @ ''] in body'') (postForm_of param) AnyNonEmptyString"

definition RequestHasForm :: "string \<Rightarrow> matcher" where
  "RequestHasForm param =
     requestMatcher (''matches have form parameter ['' @ param @ '']'') (form_of param) AnyNonEmptyString"

definition RequestWithForm :: "string \<Rightarrow> string \<Rightarrow> matcher" where
  "RequestWithForm param val =
     requestMatcher (''matches have form data '' @ param @ ''='' @ val) (query_of param) (WithString val True)"

section \<open>Evaluation lemmas\<close>

lemma or_loop_step:
  "or_loop f (m # ms) res = (if f m = (False, None) then or_loop f ms (False, None) else f m)"
  by (cases "f m") (auto simp: Let_def)

lemma and_loop_step:
  "and_loop f (m # ms) res = (if f m = (True, None) then and_loop f ms (True, None) else f m)"
  by (cases "f m") (auto simp: Let_def)

lemma or_loop_find:
  "or_loop f ms (False, None) =
     (case find (\<lambda>m. f m \<noteq> (False, None)) ms of None \<Rightarrow> (False, None) | Some m \<Rightarrow> f m)"
  by (induction ms) (simp_all add: or_loop_step del: or_loop.simps(2))

lemma and_loop_True:
  "and_loop f ms (True, None) =
     (case find (\<lambda>m. f m \<noteq> (True, None)) ms of None \<Rightarrow> (True, None) | Some m \<Rightarrow> f m)"
  by (induction ms) (simp_all add: and_loop_step del: and_loop.simps(2))

lemma and_loop_find:
  "and_loop f (m # ms) res =
     (case find (\<lambda>m. f m \<noteq> (True, None)) (m # ms) of None \<Rightarrow> (True, None) | Some m \<Rightarrow> f m)"
  by (simp add: and_loop_step and_loop_True del: and_loop.simps(2))

abbreviation negate :: "match_result \<Rightarrow> match_result" where
  "negate r \<equiv> (\<not> fst r, snd r)"

lemma negate_or_loop:
  "negate (or_loop f ms res) = and_loop (\<lambda>m. negate (f m)) ms (negate res)"
  by (induction ms arbitrary: res) (auto simp: Let_def)

lemma negate_and_loop:
  "negate (and_loop f ms res) = or_loop (\<lambda>m. negate (f m)) ms (negate res)"
  by (induction ms arbitrary: res) (auto simp: Let_def)

lemma or_loop_map: "or_loop f (map g ms) res = or_loop (f \<circ> g) ms res"
  by (induction ms arbitrary: res) (auto simp: Let_def)

lemma and_loop_map: "and_loop f (map g ms) res = and_loop (f \<circ> g) ms res"
  by (induction ms arbitrary: res) (auto simp: Let_def)

lemma eval_Not [matcher_simps]:
  "MatchesWithContext c (Not_m m) i = negate (MatchesWithContext c m i)"
  by (simp add: Not_m_def split: prod.split)

lemma eval_Or [matcher_simps]:
  "MatchesWithContext c (Or_m l rs) i =
     (case find (\<lambda>m. MatchesWithContext c m i \<noteq> (False, None)) (l # rs) of
        None \<Rightarrow> (False, None) | Some m \<Rightarrow> MatchesWithContext c m i)"
  by (simp only: Or_m_def MatchesWithContext.simps or_loop_find)

lemma eval_And [matcher_simps]:
  "MatchesWithContext c (And_m l rs) i =
     (case find (\<lambda>m. MatchesWithContext c m i \<noteq> (True, None)) (l # rs) of
        None \<Rightarrow> (True, None) | Some m \<Rightarrow> MatchesWithContext c m i)"
  by (simp only: And_m_def MatchesWithContext.simps and_loop_find)

lemma eval_total_Or:
  assumes "\<And>m. m \<in> set (l # rs) \<Longrightarrow> MatchesWithContext c m i = (v m, None)"
  shows "MatchesWithContext c (Or_m l rs) i = ((\<exists>m \<in> set (l # rs). v m), None)"
proof (cases "find (\<lambda>m. MatchesWithContext c m i \<noteq> (False, None)) (l # rs)")
  case None
  then have "\<forall>m \<in> set (l # rs). MatchesWithContext c m i = (False, None)"
    by (auto simp: find_None_iff simp del: find.simps)
  with assms show ?thesis unfolding eval_Or None by fastforce
next
  case (Some m)
  then have "m \<in> set (l # rs)" "MatchesWithContext c m i \<noteq> (False, None)"
    by (auto dest!: find_SomeD simp del: find.simps)
  with Some assms show ?thesis unfolding eval_Or Some by auto
qed

lemma eval_total_And:
  assumes "\<And>m. m \<in> set (l # rs) \<Longrightarrow> MatchesWithContext c m i = (v m, None)"
  shows "MatchesWithContext c (And_m l rs) i = ((\<forall>m \<in> set (l # rs). v m), None)"
proof (cases "find (\<lambda>m. MatchesWithContext c m i \<noteq> (True, None)) (l # rs)")
  case None
  then have "\<forall>m \<in> set (l # rs). MatchesWithContext c m i = (True, None)"
    by (auto simp: find_None_iff simp del: find.simps)
  with assms show ?thesis unfolding eval_And None by fastforce
next
  case (Some m)
  then have "m \<in> set (l # rs)" "MatchesWithContext c m i \<noteq> (True, None)"
    by (auto dest!: find_SomeD simp del: find.simps)
  with Some assms show ?thesis unfolding eval_And Some by auto
qed

lemma eval_WithString:
  "MatchesWithContext c (WithString s ci) (IString v) = (MatchString s v ci, None)"
  by (simp add: WithString_def stringMatcher_def)

lemma eval_methods_fold:
  assumes "MatchesWithContext c d (IString v) = (b, None)"
  shows "MatchesWithContext c (foldl (\<lambda>d m. Or_m d [WithString m True]) d ms) (IString v) =
    (b \<or> (\<exists>m \<in> set ms. MatchString m v True), None)"
  using assms
proof (induction ms arbitrary: d b)
  case (Cons m ms)
  have "MatchesWithContext c (Or_m d [WithString m True]) (IString v) = (b \<or> MatchString m v True, None)"
    using Cons.prems by (auto simp: eval_Or eval_WithString)
  from Cons.IH [OF this] show ?case by auto
qed simp

lemma eval_RequestWithMethods:
  "MatchesWithContext c (RequestWithMethods ms) (IRequest r) =
     (ms = [] \<or> (\<exists>m \<in> set ms. MatchString m (Method r) True), None)"
  by (cases ms)
    (simp_all add: RequestWithMethods_def Let_def requestMatcher_def interfaceToRequest_def method_of_def
      Any_m_def eval_methods_fold [OF eval_WithString])

lemma eval_path_and_methods:
  "MatchesWithContext c (path_and_methods d ms) (IRequest r) =
     (case MatchesWithContext c d (IString (strings_TrimPrefix (URLPath r) (ContextPath c))) of
        (True, None) \<Rightarrow> (ms = [] \<or> (\<exists>m \<in> set ms. MatchString m (Method r) True), None)
      | res \<Rightarrow> res)"
  by (auto simp: path_and_methods_def Let_def wrapAsRequestMatcher_def interfaceToRequest_def eval_And
      eval_RequestWithMethods requestMatcher_def path_of_def split: prod.split option.split bool.split)

section \<open>Properties\<close>

text \<open>A disjunction returns the result of its first member that matches or fails, a conjunction
  that of its first member that mismatches or fails, and otherwise \<^verbatim>\<open>false\<close> and \<^verbatim>\<open>true\<close> without an
  error; De Morgan's laws hold for every matcher and every value, errors included.\<close>

lemma matcher_combinators:
  "MatchesWithContext c (Or_m l rs) i =
     (case find (\<lambda>m. MatchesWithContext c m i \<noteq> (False, None)) (l # rs) of
        None \<Rightarrow> (False, None) | Some m \<Rightarrow> MatchesWithContext c m i)
   \<and> MatchesWithContext c (And_m l rs) i =
     (case find (\<lambda>m. MatchesWithContext c m i \<noteq> (True, None)) (l # rs) of
        None \<Rightarrow> (True, None) | Some m \<Rightarrow> MatchesWithContext c m i)
   \<and> MatchesWithContext c (Not_m (Or_m l rs)) i = MatchesWithContext c (And_m (Not_m l) (map Not_m rs)) i
   \<and> MatchesWithContext c (Not_m (And_m l rs)) i = MatchesWithContext c (Or_m (Not_m l) (map Not_m rs)) i"
proof -
  have "MatchesWithContext c (Not_m (Or_m l rs)) i = MatchesWithContext c (And_m (Not_m l) (map Not_m rs)) i"
    using negate_or_loop [of "\<lambda>m. MatchesWithContext c m i" "l # rs" "(False, None)"]
      and_loop_map [of "\<lambda>m. MatchesWithContext c m i" Not_m "l # rs"]
    by (simp add: eval_Not Or_m_def And_m_def comp_def Let_def)
  moreover have "MatchesWithContext c (Not_m (And_m l rs)) i = MatchesWithContext c (Or_m (Not_m l) (map Not_m rs)) i"
    using negate_and_loop [of "\<lambda>m. MatchesWithContext c m i" "l # rs" "(False, None)"]
      or_loop_map [of "\<lambda>m. MatchesWithContext c m i" Not_m "l # rs"]
    by (simp add: eval_Not Or_m_def And_m_def comp_def Let_def)
  ultimately show ?thesis by (simp only: eval_Or eval_And)
qed

text \<open>\<^verbatim>\<open>RequestWithPattern\<close> accepts a request iff its path without the context path matches the
  pattern and its method is one of the given ones up to case (any method when none is given); an error
  of the pattern matcher, or a mismatch, is returned without looking at the method.\<close>

lemma request_with_pattern:
  "MatchesWithContext c (RequestWithPattern doublestar_Match pattern ms) (IRequest r) =
     (case MatchPathPattern doublestar_Match pattern (strings_TrimPrefix (URLPath r) (ContextPath c)) of
        (True, None) \<Rightarrow> (ms = [] \<or> list_ex (\<lambda>m. strings_ToLower m = strings_ToLower (Method r)) ms, None)
      | res \<Rightarrow> res)"
  by (simp add: RequestWithPattern_def eval_path_and_methods WithPathPattern_def stringMatcher_def
      MatchString_def list_ex_iff split: prod.split bool.split option.split)

end
