(* ===== verification/Errors.thy ===== *)
theory Errors
  imports Prelude
begin

text \<open>
  Coded errors: \<^verbatim>\<open>pkg/utils/error\<close> (\<^verbatim>\<open>error_coded.go\<close>, \<^verbatim>\<open>error_wrapped.go\<close>,
  \<^verbatim>\<open>context.go\<close>, \<^verbatim>\<open>constants.go\<close>) and the code table and constructors of
  \<^verbatim>\<open>pkg/security/errors.go\<close>. A code is a 64-bit word whose upper 32 bits are the category, the
  next 8 the type, the next 12 the sub type; a category, type or sub type error carries the mask
  that selects its part, and \<^verbatim>\<open>errors.Is\<close> classifies a concrete error by masking its code.

  Error values that Go holds through a pointer carry an address, so that the pointer comparison of
  \<^verbatim>\<open>errors.Is\<close> is the equality of the datatype.
\<close>

section \<open>Constants\<close>

definition ReservedOffset :: nat where "ReservedOffset = 32"
definition ErrorTypeOffset :: nat where "ErrorTypeOffset = 24"
definition ErrorSubTypeOffset :: nat where "ErrorSubTypeOffset = 12"

definition ReservedMask :: "64 word" where "ReservedMask = push_bit ReservedOffset (NOT 0)"
definition ErrorTypeMask :: "64 word" where "ErrorTypeMask = push_bit ErrorTypeOffset (NOT 0)"
definition ErrorSubTypeMask :: "64 word" where "ErrorSubTypeMask = push_bit ErrorSubTypeOffset (NOT 0)"
definition DefaultErrorCodeMask :: "64 word" where "DefaultErrorCodeMask = NOT 0"

lemmas mask_defs = ReservedMask_def ErrorTypeMask_def ErrorSubTypeMask_def DefaultErrorCodeMask_def
  ReservedOffset_def ErrorTypeOffset_def ErrorSubTypeOffset_def

section \<open>Error values\<close>

datatype goerr =
    PlainError (address: nat) (text_of: string)
  | CodedError (address: nat) (ErrMsg: string) (ErrCode: "64 word") (ErrMask: "64 word")
      (NestedCause: "goerr option")
  | NestedError (address: nat) (error_of: goerr) (nested_of: "goerr option")
  | WrappedError (ErrIs: "goerr option") (WrappedType: goerr) (WrappedMsg: string)

fun Error :: "goerr \<Rightarrow> string" where
  "Error (PlainError a m) = m"
| "Error (CodedError a m c k n) = m"
| "Error (NestedError a e n) = Error e"
| "Error (WrappedError i t m) = m"

text \<open>The type assertions \<^verbatim>\<open>ErrorCoder\<close> and \<^verbatim>\<open>ComparableErrorCoder\<close>.\<close>

fun Code :: "goerr \<Rightarrow> 64 word option" where
  "Code (CodedError a m c k n) = Some c"
| "Code _ = None"

fun CodeMask :: "goerr \<Rightarrow> 64 word option" where
  "CodeMask (CodedError a m c k n) = Some k"
| "CodeMask _ = None"

text \<open>\<open>Cause\<close>: the outer option is the type assertion \<^verbatim>\<open>NestedError\<close>, the inner one a nil cause.\<close>

fun Cause :: "goerr \<Rightarrow> goerr option option" where
  "Cause (CodedError a m c k n) = Some n"
| "Cause (NestedError a e n) = Some n"
| "Cause _ = None"

fun nested_root :: "goerr \<Rightarrow> goerr option \<Rightarrow> goerr" where
  "nested_root dflt None = dflt"
| "nested_root dflt (Some (CodedError a m c k n)) = nested_root dflt n"
| "nested_root dflt (Some (NestedError a e n)) = nested_root dflt n"
| "nested_root dflt (Some r) = r"

fun RootCause :: "goerr \<Rightarrow> goerr option" where
  "RootCause (CodedError a m c k None) = None"
| "RootCause (CodedError a m c k (Some (CodedError a' m' c' k' n'))) =
     RootCause (CodedError a' m' c' k' n')"
| "RootCause (CodedError a m c k (Some (NestedError a' e n'))) = Some (nested_root e n')"
| "RootCause (CodedError a m c k (Some r)) = Some r"
| "RootCause (NestedError a e n) = Some (nested_root e n)"
| "RootCause _ = None"

section \<open>errors.Is\<close>

definition CodedError_Is :: "64 word \<Rightarrow> goerr \<Rightarrow> bool" where
  "CodedError_Is code target =
     (let compare = (case CodeMask target of Some cmask \<Rightarrow> code AND cmask | None \<Rightarrow> code)
      in case Code target of Some c \<Rightarrow> compare = c | None \<Rightarrow> False)"

fun errors_Is :: "goerr \<Rightarrow> goerr \<Rightarrow> bool" where
  "errors_Is (PlainError a m) target = (PlainError a m = target)"
| "errors_Is (CodedError a m c k n) target =
     (CodedError a m c k n = target \<or> CodedError_Is c target)"
| "errors_Is (NestedError a e n) target =
     (NestedError a e n = target \<or> errors_Is e target
      \<or> (case n of None \<Rightarrow> False | Some n' \<Rightarrow> errors_Is n' target))"
| "errors_Is (WrappedError i t m) target =
     (WrappedError i t m = target
      \<or> (case target of
           WrappedError i' t' m' \<Rightarrow>
             (case (i, i') of (Some x, Some y) \<Rightarrow> errors_Is x y | (x, y) \<Rightarrow> x = y)
             \<and> errors_Is t t'
         | _ \<Rightarrow> False)
      \<or> errors_Is t target)"

definition WithMessage_wrapped :: "goerr \<Rightarrow> string \<Rightarrow> goerr" where
  "WithMessage_wrapped e msg = WrappedError (ErrIs e) (WrappedType e) msg"

section \<open>Constructors\<close>

definition newCodedError :: "nat \<Rightarrow> 64 word \<Rightarrow> string \<Rightarrow> 64 word \<Rightarrow> goerr option \<Rightarrow> goerr" where
  "newCodedError p code msg cmask cause = CodedError p msg code cmask cause"

definition NewErrorCategory :: "nat \<Rightarrow> 64 word \<Rightarrow> string \<Rightarrow> goerr" where
  "NewErrorCategory p code msg = newCodedError p (code AND ReservedMask) msg ReservedMask None"

definition NewErrorType :: "nat \<Rightarrow> 64 word \<Rightarrow> string \<Rightarrow> goerr" where
  "NewErrorType p code msg = newCodedError p (code AND ErrorTypeMask) msg ErrorTypeMask None"

definition NewErrorSubType :: "nat \<Rightarrow> 64 word \<Rightarrow> string \<Rightarrow> goerr" where
  "NewErrorSubType p code msg = newCodedError p (code AND ErrorSubTypeMask) msg ErrorSubTypeMask None"

text \<open>
  The items an error is made from: an error, or anything that is turned into a message (a string, a
  \<^verbatim>\<open>fmt.Stringer\<close>, any other value by its \<^verbatim>\<open>%v\<close> format). New pointers are
  allocated from the address \<open>p\<close> on.
\<close>

datatype item = ErrItem goerr | TextItem string

fun item_text :: "item \<Rightarrow> string" where
  "item_text (ErrItem e) = Error e"
| "item_text (TextItem s) = s"

fun construct :: "nat \<Rightarrow> item \<Rightarrow> goerr" where
  "construct p (ErrItem e) = e"
| "construct p (TextItem s) = PlainError p s"

text \<open>The loop that chains the causes runs from the last item to the first.\<close>

fun chain_causes :: "nat \<Rightarrow> item list \<Rightarrow> goerr option" where
  "chain_causes p [] = None"
| "chain_causes p (x # xs) =
     (case chain_causes (p + 2) xs of
        None \<Rightarrow> Some (construct p x)
      | Some cause \<Rightarrow> Some (NestedError (p + 1) (construct p x) (Some cause)))"

definition NewCodedError :: "nat \<Rightarrow> 64 word \<Rightarrow> item \<Rightarrow> item list \<Rightarrow> goerr" where
  "NewCodedError p code e causes =
     newCodedError p code (item_text e) DefaultErrorCodeMask (chain_causes (p + 1) (e # causes))"

definition WithMessage :: "nat \<Rightarrow> goerr \<Rightarrow> string \<Rightarrow> goerr" where
  "WithMessage p e msg = NewCodedError p (ErrCode e) (TextItem msg) []"

definition WithCause :: "nat \<Rightarrow> goerr \<Rightarrow> goerr \<Rightarrow> string \<Rightarrow> goerr" where
  "WithCause p e cause msg = NewCodedError p (ErrCode e) (TextItem msg) [ErrItem cause]"

section \<open>Registration of categories\<close>

datatype reserve_error = NotComparable | WrongMask "64 word" | NotCategoryCode "64 word" | AlreadyReserved "64 word"

text \<open>\<open>Reserve\<close> panics on a bad or duplicate category; the panics are the \<open>Inl\<close> results.\<close>

definition Reserve :: "goerr \<Rightarrow> (64 word \<rightharpoonup> string) \<Rightarrow> string \<Rightarrow> reserve_error + (64 word \<rightharpoonup> string)" where
  "Reserve err reserved pkg =
     (case (CodeMask err, Code err) of
        (Some cmask, Some code) \<Rightarrow>
          if cmask \<noteq> ReservedMask then Inl (WrongMask cmask)
          else if code AND NOT ReservedMask \<noteq> 0 then Inl (NotCategoryCode code)
          else if reserved code \<noteq> None then Inl (AlreadyReserved code)
          else Inr (reserved(code \<mapsto> pkg))
      | _ \<Rightarrow> Inl NotComparable)"

section \<open>Binary form\<close>

definition be64 :: "64 word \<Rightarrow> byte list" where
  "be64 w = map (\<lambda>i. ucast (drop_bit (8 * i) w)) [7, 6, 5, 4, 3, 2, 1, 0]"

definition read_be64 :: "byte list \<Rightarrow> (64 word \<times> byte list) option" where
  "read_be64 bs =
     (if length bs < 8 then None
      else Some (foldl (\<lambda>acc b. push_bit 8 acc OR ucast b) 0 (take 8 bs), drop 8 bs))"

definition string_bytes :: "string \<Rightarrow> byte list" where
  "string_bytes s = map (\<lambda>c. word_of_nat (of_char c)) s"

definition bytes_string :: "byte list \<Rightarrow> string" where
  "bytes_string bs = map (\<lambda>b. char_of (unat b)) bs"

text \<open>\<^verbatim>\<open>buffer.ReadBytes(0)\<close> reads up to the first zero byte and fails when there is none.\<close>

definition read_until_zero :: "byte list \<Rightarrow> byte list option" where
  "read_until_zero bs = (if 0 \<in> set bs then Some (takeWhile (\<lambda>b. b \<noteq> 0) bs @ [0]) else None)"

definition MarshalBinary :: "goerr \<Rightarrow> byte list" where
  "MarshalBinary e = be64 (ErrCode e) @ be64 (ErrMask e) @ string_bytes (Error e) @ [0]"

definition UnmarshalBinary :: "goerr \<Rightarrow> byte list \<Rightarrow> goerr option" where
  "UnmarshalBinary e data =
     (case read_be64 data of None \<Rightarrow> None
      | Some (code, rest) \<Rightarrow>
        (case read_be64 rest of None \<Rightarrow> None
         | Some (cmask, rest') \<Rightarrow>
           (case read_until_zero rest' of None \<Rightarrow> None
            | Some errBytes \<Rightarrow>
                Some (CodedError (address e) (bytes_string (butlast errBytes)) code cmask (NestedCause e)))))"

section \<open>Classification by masks\<close>

lemma mask_values:
  "ReservedMask = 0xFFFFFFFF00000000" "ErrorTypeMask = 0xFFFFFFFFFF000000"
  "ErrorSubTypeMask = 0xFFFFFFFFFFFFF000" "DefaultErrorCodeMask = 0xFFFFFFFFFFFFFFFF"
  by (code_simp)+

lemma masks_nest:
  "ErrorSubTypeMask AND ErrorTypeMask = ErrorTypeMask"
  "ErrorTypeMask AND ReservedMask = ReservedMask"
  by (simp_all add: mask_values)

lemma masks_proper:
  "DefaultErrorCodeMask \<noteq> ErrorSubTypeMask" "DefaultErrorCodeMask \<noteq> ErrorTypeMask"
  "DefaultErrorCodeMask \<noteq> ReservedMask"
  by (simp_all add: mask_values)

lemma and_mask_coarser:
  fixes a b m n :: "64 word"
  assumes "a AND m = b AND m" and "m AND n = n"
  shows "a AND n = b AND n"
  using assms by (metis and.assoc)

lemma NewCodedError_eq:
  "NewCodedError p code e causes =
     CodedError p (item_text e) code DefaultErrorCodeMask (chain_causes (p + 1) (e # causes))"
  by (simp add: NewCodedError_def newCodedError_def)

lemma target_eqs:
  "NewErrorCategory p code m = CodedError p m (code AND ReservedMask) ReservedMask None"
  "NewErrorType p code m = CodedError p m (code AND ErrorTypeMask) ErrorTypeMask None"
  "NewErrorSubType p code m = CodedError p m (code AND ErrorSubTypeMask) ErrorSubTypeMask None"
  by (simp_all add: NewErrorCategory_def NewErrorType_def NewErrorSubType_def newCodedError_def)

lemma Is_category [error_simps]:
  "errors_Is (NewCodedError p code e cs) (NewErrorCategory q t m) \<longleftrightarrow> code AND ReservedMask = t AND ReservedMask"
  using masks_proper by (auto simp: NewCodedError_eq target_eqs CodedError_Is_def Let_def)

lemma Is_type [error_simps]:
  "errors_Is (NewCodedError p code e cs) (NewErrorType q t m) \<longleftrightarrow> code AND ErrorTypeMask = t AND ErrorTypeMask"
  using masks_proper by (auto simp: NewCodedError_eq target_eqs CodedError_Is_def Let_def)

lemma Is_sub_type [error_simps]:
  "errors_Is (NewCodedError p code e cs) (NewErrorSubType q t m) \<longleftrightarrow>
   code AND ErrorSubTypeMask = t AND ErrorSubTypeMask"
  using masks_proper by (auto simp: NewCodedError_eq target_eqs CodedError_Is_def Let_def)

lemma Is_concrete [error_simps]:
  "errors_Is (NewCodedError p code e cs) (NewCodedError q t e' cs') \<longleftrightarrow> code = t"
  by (auto simp: NewCodedError_eq CodedError_Is_def Let_def DefaultErrorCodeMask_def)

section \<open>Root causes\<close>

lemma chain_causes_Some: "chain_causes p (x # xs) \<noteq> None"
  by (simp split: option.split)

lemma nested_root_construct:
  "Cause (construct p x) = None \<Longrightarrow> nested_root dflt (Some (construct p x)) = construct p x"
  by (cases "construct p x") auto

lemma nested_root_chain:
  assumes "Cause (construct (p + 2 * length xs) (last (x # xs))) = None"
  shows "nested_root dflt (chain_causes p (x # xs)) = construct (p + 2 * length xs) (last (x # xs))"
  using assms
proof (induction xs arbitrary: p x)
  case Nil
  then show ?case by (simp add: nested_root_construct)
next
  case (Cons y ys)
  obtain c where c: "chain_causes (p + 2) (y # ys) = Some c"
    using chain_causes_Some by (metis not_Some_eq)
  have idx: "p + 2 * length (y # ys) = (p + 2) + 2 * length ys" by simp
  have "nested_root dflt (Some c) = construct (p + 2 + 2 * length ys) (last (y # ys))"
    using Cons.IH [of "p + 2" y] Cons.prems unfolding idx c by simp
  then show ?case unfolding idx using c by (simp del: chain_causes.simps add: chain_causes.simps(2) [of p])
qed

lemma RootCause_coded:
  "Cause r = None \<Longrightarrow> RootCause (CodedError a m c k (Some r)) = Some r"
  "RootCause (CodedError a m c k (Some (NestedError a' e n))) = Some (nested_root e n)"
  by (cases r) auto

section \<open>Binary form: round trip\<close>

lemma bytes_string_string_bytes [simp]: "bytes_string (string_bytes s) = s"
proof -
  have "char_of (unat (word_of_nat (of_char c) :: byte)) = c" for c :: char
    by (simp add: unat_of_nat)
  then show ?thesis by (simp add: bytes_string_def string_bytes_def comp_def map_idI)
qed

lemma be_step: "push_bit 8 (drop_bit (i + 8) w) OR ucast (ucast (drop_bit i w) :: byte) = drop_bit i (w :: 64 word)"
  by (rule bit_word_eqI) (auto simp: bit_simps)

lemma read_be64_be64: "read_be64 (be64 w @ r) = Some (w, r)"
proof -
  have "drop_bit 64 w = 0" by (rule bit_word_eqI) (auto simp: bit_simps)
  then show ?thesis
  using be_step [of 56 w] be_step [of 48 w] be_step [of 40 w] be_step [of 32 w]
    be_step [of 24 w] be_step [of 16 w] be_step [of 8 w] be_step [of 0 w]
  by (simp add: read_be64_def be64_def)
qed

lemma string_bytes_no_zero: "0 \<notin> set (string_bytes s) \<longleftrightarrow> CHR 0x00 \<notin> set s"
proof -
  have "(word_of_nat (of_char c) :: byte) = 0 \<longleftrightarrow> c = CHR 0x00" for c :: char
  proof -
    have "256 dvd (of_char c :: nat) \<longleftrightarrow> of_char c mod (256 :: nat) = 0"
      by (simp only: dvd_eq_mod_eq_0)
    then have "(word_of_nat (of_char c) :: byte) = 0 \<longleftrightarrow> of_char c = (0 :: nat)"
      by (simp add: word_of_nat_eq_0_iff)
    also have "\<dots> \<longleftrightarrow> of_char c = (of_char (CHR 0x00) :: nat)" by simp
    finally show ?thesis by (simp only: of_char_eq_iff)
  qed
  then show ?thesis by (force simp: string_bytes_def)
qed


lemma read_until_zero_message:
  "read_until_zero (string_bytes m @ [0]) = Some (string_bytes (takeWhile (\<lambda>x. x \<noteq> CHR 0x00) m) @ [0])"
proof (induction m)
  case Nil
  show ?case by (simp add: read_until_zero_def string_bytes_def)
next
  case (Cons x m)
  have "(word_of_nat (of_char x) :: byte) = 0 \<longleftrightarrow> x = CHR 0x00"
    using string_bytes_no_zero [of "[x]"] by (auto simp: string_bytes_def)
  with Cons show ?case
    by (auto simp: read_until_zero_def string_bytes_def)
qed

section \<open>Properties\<close>

text \<open>C25: \<^verbatim>\<open>errors.Is\<close> classifies an error made by \<^verbatim>\<open>NewCodedError\<close> by its code alone: it is in a
  category, type or sub type iff its code and the target's code agree on the bits the target's mask
  selects, and it is another concrete error iff the codes are equal. The masks nest, so being in a
  sub type implies being in its type, which implies being in its category.\<close>

theorem error_classification:
  "(errors_Is (NewCodedError p code e cs) (NewErrorCategory q t m)
      \<longleftrightarrow> code AND ReservedMask = t AND ReservedMask)
   \<and> (errors_Is (NewCodedError p code e cs) (NewErrorType q t m)
      \<longleftrightarrow> code AND ErrorTypeMask = t AND ErrorTypeMask)
   \<and> (errors_Is (NewCodedError p code e cs) (NewErrorSubType q t m)
      \<longleftrightarrow> code AND ErrorSubTypeMask = t AND ErrorSubTypeMask)
   \<and> (errors_Is (NewCodedError p code e cs) (NewCodedError q t e' cs') \<longleftrightarrow> code = t)
   \<and> (errors_Is (NewCodedError p code e cs) (NewErrorSubType q t m)
      \<longrightarrow> errors_Is (NewCodedError p code e cs) (NewErrorType q t m))
   \<and> (errors_Is (NewCodedError p code e cs) (NewErrorType q t m)
      \<longrightarrow> errors_Is (NewCodedError p code e cs) (NewErrorCategory q t m))"
  by (auto simp: error_simps dest: and_mask_coarser [OF _ masks_nest(1)] and_mask_coarser [OF _ masks_nest(2)])

theorem error_classification_witness:
  "errors_Is (NewCodedError 0 0xB01002002 (TextItem ''x'') []) (NewErrorSubType 9 0xB01002000 ''s'')
   \<and> errors_Is (NewCodedError 0 0xB01002002 (TextItem ''x'') []) (NewErrorType 9 0xB01002000 ''s'')
   \<and> errors_Is (NewCodedError 0 0xB01002002 (TextItem ''x'') []) (NewErrorCategory 9 0xB01002000 ''s'')"
  using error_classification [of 0 "0xB01002002" "TextItem ''x''" "[]" 9 "0xB01002000" "''s''" "TextItem ''y''" "[]"]
  by (simp add: mask_values)

text \<open>\<^verbatim>\<open>UnmarshalBinary\<close> after \<^verbatim>\<open>MarshalBinary\<close> restores the code and the mask exactly and the
  message up to its first zero byte, for every coded error; the receiver's own cause is kept, since
  the cause is not part of the binary form.\<close>

lemma marshal_round_trip:
  "UnmarshalBinary (CodedError a' m' c' k' n') (MarshalBinary (CodedError a m c k n)) =
     Some (CodedError a' (takeWhile (\<lambda>x. x \<noteq> CHR 0x00) m) c k n')"
  by (simp add: UnmarshalBinary_def MarshalBinary_def read_be64_be64 read_until_zero_message)

text \<open>\<^verbatim>\<open>RootCause\<close> of an error made by \<^verbatim>\<open>NewCodedError\<close> is the last of its items, as a
  constructed error, whatever the number of causes, when that item has no cause of its own.\<close>

lemma root_cause_is_last_item:
  assumes "Cause (construct (p + 1 + 2 * length causes) (last (e # causes))) = None"
  shows "RootCause (NewCodedError p code e causes) =
    Some (construct (p + 1 + 2 * length causes) (last (e # causes)))"
proof (cases causes)
  case Nil
  with assms show ?thesis by (simp add: NewCodedError_eq RootCause_coded)
next
  case (Cons x xs)
  obtain c where c: "chain_causes (p + 3) (x # xs) = Some c"
    using chain_causes_Some by (metis not_Some_eq)
  have idx: "p + 1 + 2 * length causes = p + 3 + 2 * length xs" "last (e # causes) = last (x # xs)"
    using Cons by simp_all
  have "nested_root d (Some c) = construct (p + 3 + 2 * length xs) (last (x # xs))" for d
    using nested_root_chain [of "p + 3" xs x d] assms unfolding idx c by blast
  moreover have "chain_causes (p + 1) (e # causes) = Some (NestedError (p + 2) (construct (p + 1) e) (Some c))"
    using c Cons by (simp add: numeral_eq_Suc)
  ultimately show ?thesis unfolding idx by (simp add: NewCodedError_eq RootCause_coded)
qed

end
