(* ===== verification/Security_Errors.thy ===== *)
theory Security_Errors
  imports Errors
begin

text \<open>
  The error table of \<^verbatim>\<open>pkg/security/errors.go\<close>: the code constants, the category, type and sub
  type errors used as targets of \<^verbatim>\<open>errors.Is\<close>, and the constructors of concrete errors. The
  package-level errors get fixed low addresses.
\<close>

section \<open>Codes\<close>

definition Reserved :: "64 word" where "Reserved = push_bit ReservedOffset 11"

definition ErrorTypeCodeAuthentication :: "64 word" where "ErrorTypeCodeAuthentication = Reserved + push_bit ErrorTypeOffset 1"
definition ErrorTypeCodeAccessControl :: "64 word" where "ErrorTypeCodeAccessControl = Reserved + push_bit ErrorTypeOffset 2"
definition ErrorTypeCodeInternal :: "64 word" where "ErrorTypeCodeInternal = Reserved + push_bit ErrorTypeOffset 3"
definition ErrorTypeCodeOAuth2 :: "64 word" where "ErrorTypeCodeOAuth2 = Reserved + push_bit ErrorTypeOffset 4"
definition ErrorTypeCodeSaml :: "64 word" where "ErrorTypeCodeSaml = Reserved + push_bit ErrorTypeOffset 5"
definition ErrorTypeCodeOidc :: "64 word" where "ErrorTypeCodeOidc = Reserved + push_bit ErrorTypeOffset 6"
definition ErrorTypeCodeTenancy :: "64 word" where "ErrorTypeCodeTenancy = Reserved + push_bit ErrorTypeOffset 7"

definition ErrorSubTypeCodeInternal :: "64 word" where
  "ErrorSubTypeCodeInternal = ErrorTypeCodeAuthentication + push_bit ErrorSubTypeOffset 1"
definition ErrorSubTypeCodeUsernamePasswordAuth :: "64 word" where
  "ErrorSubTypeCodeUsernamePasswordAuth = ErrorTypeCodeAuthentication + push_bit ErrorSubTypeOffset 2"
definition ErrorSubTypeCodeExternalSamlAuth :: "64 word" where
  "ErrorSubTypeCodeExternalSamlAuth = ErrorTypeCodeAuthentication + push_bit ErrorSubTypeOffset 3"
definition ErrorSubTypeCodeAuthWarning :: "64 word" where
  "ErrorSubTypeCodeAuthWarning = ErrorTypeCodeAuthentication + push_bit ErrorSubTypeOffset 4"
definition ErrorSubTypeCodeAccessDenied :: "64 word" where
  "ErrorSubTypeCodeAccessDenied = ErrorTypeCodeAccessControl + push_bit ErrorSubTypeOffset 1"
definition ErrorSubTypeCodeInsufficientAuth :: "64 word" where
  "ErrorSubTypeCodeInsufficientAuth = ErrorTypeCodeAccessControl + push_bit ErrorSubTypeOffset 2"
definition ErrorSubTypeCodeCsrf :: "64 word" where
  "ErrorSubTypeCodeCsrf = ErrorTypeCodeAccessControl + push_bit ErrorSubTypeOffset 3"
definition ErrorSubTypeCodeTenantInvalid :: "64 word" where
  "ErrorSubTypeCodeTenantInvalid = ErrorTypeCodeTenancy + push_bit ErrorSubTypeOffset 1"
definition ErrorSubTypeCodeTenantAccessDenied :: "64 word" where
  "ErrorSubTypeCodeTenantAccessDenied = ErrorTypeCodeTenancy + push_bit ErrorSubTypeOffset 2"

definition ErrorCodeAuthenticatorNotAvailable :: "64 word" where "ErrorCodeAuthenticatorNotAvailable = ErrorSubTypeCodeInternal + 1"
definition ErrorCodeUsernameNotFound :: "64 word" where "ErrorCodeUsernameNotFound = ErrorSubTypeCodeUsernamePasswordAuth + 1"
definition ErrorCodeBadCredentials :: "64 word" where "ErrorCodeBadCredentials = ErrorSubTypeCodeUsernamePasswordAuth + 2"
definition ErrorCodeCredentialsExpired :: "64 word" where "ErrorCodeCredentialsExpired = ErrorSubTypeCodeUsernamePasswordAuth + 3"
definition ErrorCodeMaxAttemptsReached :: "64 word" where "ErrorCodeMaxAttemptsReached = ErrorSubTypeCodeUsernamePasswordAuth + 4"
definition ErrorCodeAccountStatus :: "64 word" where "ErrorCodeAccountStatus = ErrorSubTypeCodeUsernamePasswordAuth + 5"
definition ErrorCodeMissingCsrfToken :: "64 word" where "ErrorCodeMissingCsrfToken = ErrorSubTypeCodeCsrf + 1"
definition ErrorCodeInvalidCsrfToken :: "64 word" where "ErrorCodeInvalidCsrfToken = ErrorSubTypeCodeCsrf + 2"

lemmas code_defs =
  Reserved_def ErrorTypeCodeAuthentication_def ErrorTypeCodeAccessControl_def
  ErrorTypeCodeInternal_def ErrorTypeCodeOAuth2_def ErrorTypeCodeSaml_def
  ErrorTypeCodeOidc_def ErrorTypeCodeTenancy_def ErrorSubTypeCodeInternal_def
  ErrorSubTypeCodeUsernamePasswordAuth_def ErrorSubTypeCodeExternalSamlAuth_def ErrorSubTypeCodeAuthWarning_def
  ErrorSubTypeCodeAccessDenied_def ErrorSubTypeCodeInsufficientAuth_def ErrorSubTypeCodeCsrf_def
  ErrorSubTypeCodeTenantInvalid_def ErrorSubTypeCodeTenantAccessDenied_def ErrorCodeAuthenticatorNotAvailable_def
  ErrorCodeUsernameNotFound_def ErrorCodeBadCredentials_def ErrorCodeCredentialsExpired_def
  ErrorCodeMaxAttemptsReached_def ErrorCodeAccountStatus_def ErrorCodeMissingCsrfToken_def
  ErrorCodeInvalidCsrfToken_def

section \<open>Category, type and sub type errors\<close>

definition ErrorTypeSecurity :: goerr where
  "ErrorTypeSecurity = NewErrorCategory 1 Reserved ''error type: security''"
definition ErrorTypeAuthentication :: goerr where
  "ErrorTypeAuthentication = NewErrorType 2 ErrorTypeCodeAuthentication ''error type: authentication''"
definition ErrorTypeAccessControl :: goerr where
  "ErrorTypeAccessControl = NewErrorType 3 ErrorTypeCodeAccessControl ''error type: access control''"
definition ErrorTypeInternal :: goerr where
  "ErrorTypeInternal = NewErrorType 4 ErrorTypeCodeInternal ''error type: internal''"
definition ErrorTypeSaml :: goerr where
  "ErrorTypeSaml = NewErrorType 5 ErrorTypeCodeSaml ''error type: saml''"
definition ErrorTypeOidc :: goerr where
  "ErrorTypeOidc = NewErrorType 6 ErrorTypeCodeOidc ''error type: oidc''"
definition ErrorSubTypeInternalError :: goerr where
  "ErrorSubTypeInternalError = NewErrorSubType 7 ErrorSubTypeCodeInternal ''error sub-type: internal''"
definition ErrorSubTypeUsernamePasswordAuth :: goerr where
  "ErrorSubTypeUsernamePasswordAuth = NewErrorSubType 8 ErrorSubTypeCodeUsernamePasswordAuth ''error sub-type: internal''"
definition ErrorSubTypeExternalSamlAuth :: goerr where
  "ErrorSubTypeExternalSamlAuth = NewErrorSubType 9 ErrorSubTypeCodeExternalSamlAuth ''error sub-type: external saml''"
definition ErrorSubTypeAuthWarning :: goerr where
  "ErrorSubTypeAuthWarning = NewErrorSubType 10 ErrorSubTypeCodeAuthWarning ''error sub-type: auth warning''"
definition ErrorSubTypeAccessDenied :: goerr where
  "ErrorSubTypeAccessDenied = NewErrorSubType 11 ErrorSubTypeCodeAccessDenied ''error sub-type: access denied''"
definition ErrorSubTypeInsufficientAuth :: goerr where
  "ErrorSubTypeInsufficientAuth = NewErrorSubType 12 ErrorSubTypeCodeInsufficientAuth ''error sub-type: insufficient auth''"
definition ErrorSubTypeCsrf :: goerr where
  "ErrorSubTypeCsrf = NewErrorSubType 13 ErrorSubTypeCodeCsrf ''error sub-type: csrf''"
definition ErrorInvalidTenantId :: goerr where
  "ErrorInvalidTenantId = NewCodedError 14 ErrorSubTypeCodeTenantInvalid (TextItem ''Invalid tenant Id'') []"
definition ErrorTenantAccessDenied :: goerr where
  "ErrorTenantAccessDenied =
     NewCodedError 17 ErrorSubTypeCodeTenantAccessDenied (TextItem ''No Access to the tenant'') []"

lemmas target_defs =
  ErrorTypeSecurity_def ErrorTypeAuthentication_def ErrorTypeAccessControl_def
  ErrorTypeInternal_def ErrorTypeSaml_def ErrorTypeOidc_def
  ErrorSubTypeInternalError_def ErrorSubTypeUsernamePasswordAuth_def ErrorSubTypeExternalSamlAuth_def
  ErrorSubTypeAuthWarning_def ErrorSubTypeAccessDenied_def ErrorSubTypeInsufficientAuth_def
  ErrorSubTypeCsrf_def

section \<open>Constructors of concrete errors\<close>

definition NewInternalError :: "nat \<Rightarrow> string \<Rightarrow> item list \<Rightarrow> goerr" where
  "NewInternalError p txt causes = NewCodedError p ErrorTypeCodeInternal (ErrItem (PlainError (p + 1) txt)) causes"
definition NewAuthenticationError :: "nat \<Rightarrow> item \<Rightarrow> item list \<Rightarrow> goerr" where
  "NewAuthenticationError p value causes = NewCodedError p ErrorTypeCodeAuthentication value causes"
definition NewInternalAuthenticationError :: "nat \<Rightarrow> item \<Rightarrow> item list \<Rightarrow> goerr" where
  "NewInternalAuthenticationError p value causes = NewCodedError p ErrorSubTypeCodeInternal value causes"
definition NewAuthenticationWarningError :: "nat \<Rightarrow> item \<Rightarrow> item list \<Rightarrow> goerr" where
  "NewAuthenticationWarningError p value causes = NewCodedError p ErrorSubTypeCodeAuthWarning value causes"
definition NewAuthenticatorNotAvailableError :: "nat \<Rightarrow> item \<Rightarrow> item list \<Rightarrow> goerr" where
  "NewAuthenticatorNotAvailableError p value causes = NewCodedError p ErrorCodeAuthenticatorNotAvailable value causes"
definition NewExternalSamlAuthenticationError :: "nat \<Rightarrow> item \<Rightarrow> item list \<Rightarrow> goerr" where
  "NewExternalSamlAuthenticationError p value causes = NewCodedError p ErrorSubTypeCodeExternalSamlAuth value causes"
definition NewUsernameNotFoundError :: "nat \<Rightarrow> item \<Rightarrow> item list \<Rightarrow> goerr" where
  "NewUsernameNotFoundError p value causes = NewCodedError p ErrorCodeUsernameNotFound value causes"
definition NewBadCredentialsError :: "nat \<Rightarrow> item \<Rightarrow> item list \<Rightarrow> goerr" where
  "NewBadCredentialsError p value causes = NewCodedError p ErrorCodeBadCredentials value causes"
definition NewCredentialsExpiredError :: "nat \<Rightarrow> item \<Rightarrow> item list \<Rightarrow> goerr" where
  "NewCredentialsExpiredError p value causes = NewCodedError p ErrorCodeCredentialsExpired value causes"
definition NewMaxAttemptsReachedError :: "nat \<Rightarrow> item \<Rightarrow> item list \<Rightarrow> goerr" where
  "NewMaxAttemptsReachedError p value causes = NewCodedError p ErrorCodeMaxAttemptsReached value causes"
definition NewAccountStatusError :: "nat \<Rightarrow> item \<Rightarrow> item list \<Rightarrow> goerr" where
  "NewAccountStatusError p value causes = NewCodedError p ErrorCodeAccountStatus value causes"
definition NewAccessControlError :: "nat \<Rightarrow> item \<Rightarrow> item list \<Rightarrow> goerr" where
  "NewAccessControlError p value causes = NewCodedError p ErrorTypeCodeAccessControl value causes"
definition NewAccessDeniedError :: "nat \<Rightarrow> item \<Rightarrow> item list \<Rightarrow> goerr" where
  "NewAccessDeniedError p value causes = NewCodedError p ErrorSubTypeCodeAccessDenied value causes"
definition NewInsufficientAuthError :: "nat \<Rightarrow> item \<Rightarrow> item list \<Rightarrow> goerr" where
  "NewInsufficientAuthError p value causes = NewCodedError p ErrorSubTypeCodeInsufficientAuth value causes"
definition NewMissingCsrfTokenError :: "nat \<Rightarrow> item \<Rightarrow> item list \<Rightarrow> goerr" where
  "NewMissingCsrfTokenError p value causes = NewCodedError p ErrorCodeMissingCsrfToken value causes"
definition NewInvalidCsrfTokenError :: "nat \<Rightarrow> item \<Rightarrow> item list \<Rightarrow> goerr" where
  "NewInvalidCsrfTokenError p value causes = NewCodedError p ErrorCodeInvalidCsrfToken value causes"

lemmas ctor_defs =
  NewInternalError_def NewAuthenticationError_def NewInternalAuthenticationError_def
  NewAuthenticationWarningError_def NewAuthenticatorNotAvailableError_def NewExternalSamlAuthenticationError_def
  NewUsernameNotFoundError_def NewBadCredentialsError_def NewCredentialsExpiredError_def
  NewMaxAttemptsReachedError_def NewAccountStatusError_def NewAccessControlError_def
  NewAccessDeniedError_def NewInsufficientAuthError_def NewMissingCsrfTokenError_def
  NewInvalidCsrfTokenError_def

text \<open>Every concrete error of the package with the same address, value and causes.\<close>

definition concrete_errors :: "nat \<Rightarrow> item \<Rightarrow> item list \<Rightarrow> goerr list" where
  "concrete_errors p v cs =
    [NewInternalAuthenticationError p v cs, NewAuthenticatorNotAvailableError p v cs,
     NewUsernameNotFoundError p v cs, NewBadCredentialsError p v cs, NewCredentialsExpiredError p v cs,
     NewMaxAttemptsReachedError p v cs, NewAccountStatusError p v cs,
     NewAuthenticationError p v cs, NewAuthenticationWarningError p v cs, NewExternalSamlAuthenticationError p v cs,
     NewAccessControlError p v cs, NewAccessDeniedError p v cs, NewInsufficientAuthError p v cs,
     NewMissingCsrfTokenError p v cs, NewInvalidCsrfTokenError p v cs]"

section \<open>Properties\<close>

lemma code_values:
  "Reserved = 0xB00000000"
  "ErrorTypeCodeAuthentication = 0xB01000000" "ErrorTypeCodeAccessControl = 0xB02000000"
  "ErrorTypeCodeInternal = 0xB03000000" "ErrorTypeCodeOAuth2 = 0xB04000000"
  "ErrorTypeCodeSaml = 0xB05000000" "ErrorTypeCodeOidc = 0xB06000000" "ErrorTypeCodeTenancy = 0xB07000000"
  "ErrorSubTypeCodeInternal = 0xB01001000" "ErrorSubTypeCodeUsernamePasswordAuth = 0xB01002000"
  "ErrorSubTypeCodeExternalSamlAuth = 0xB01003000" "ErrorSubTypeCodeAuthWarning = 0xB01004000"
  "ErrorSubTypeCodeAccessDenied = 0xB02001000" "ErrorSubTypeCodeInsufficientAuth = 0xB02002000"
  "ErrorSubTypeCodeCsrf = 0xB02003000"
  "ErrorSubTypeCodeTenantInvalid = 0xB07001000" "ErrorSubTypeCodeTenantAccessDenied = 0xB07002000"
  "ErrorCodeAuthenticatorNotAvailable = 0xB01001001"
  "ErrorCodeUsernameNotFound = 0xB01002001" "ErrorCodeBadCredentials = 0xB01002002"
  "ErrorCodeCredentialsExpired = 0xB01002003" "ErrorCodeMaxAttemptsReached = 0xB01002004"
  "ErrorCodeAccountStatus = 0xB01002005"
  "ErrorCodeMissingCsrfToken = 0xB02003001" "ErrorCodeInvalidCsrfToken = 0xB02003002"
  by (simp_all add: code_defs mask_defs push_bit_eq_mult)

text \<open>The constructors of \<^verbatim>\<open>security/errors.go\<close> fall into their families: every concrete
  error is a security error; exactly the first ten constructors make authentication errors and
  exactly the last five access control errors; each sub type error matches exactly its own
  constructors. The internal error is a security error and in no other type.\<close>

lemma security_error_families:
  "filter (\<lambda>e. errors_Is e ErrorTypeSecurity) (concrete_errors p v cs) = concrete_errors p v cs
   \<and> filter (\<lambda>e. errors_Is e ErrorTypeAuthentication) (concrete_errors p v cs) = take 10 (concrete_errors p v cs)
   \<and> filter (\<lambda>e. errors_Is e ErrorTypeAccessControl) (concrete_errors p v cs) = drop 10 (concrete_errors p v cs)
   \<and> filter (\<lambda>e. errors_Is e ErrorSubTypeInternalError) (concrete_errors p v cs) = take 2 (concrete_errors p v cs)
   \<and> filter (\<lambda>e. errors_Is e ErrorSubTypeUsernamePasswordAuth) (concrete_errors p v cs) =
        take 5 (drop 2 (concrete_errors p v cs))
   \<and> filter (\<lambda>e. errors_Is e ErrorSubTypeAuthWarning) (concrete_errors p v cs) = [NewAuthenticationWarningError p v cs]
   \<and> filter (\<lambda>e. errors_Is e ErrorSubTypeExternalSamlAuth) (concrete_errors p v cs) =
        [NewExternalSamlAuthenticationError p v cs]
   \<and> filter (\<lambda>e. errors_Is e ErrorSubTypeAccessDenied) (concrete_errors p v cs) = [NewAccessDeniedError p v cs]
   \<and> filter (\<lambda>e. errors_Is e ErrorSubTypeInsufficientAuth) (concrete_errors p v cs) = [NewInsufficientAuthError p v cs]
   \<and> filter (\<lambda>e. errors_Is e ErrorSubTypeCsrf) (concrete_errors p v cs) =
        [NewMissingCsrfTokenError p v cs, NewInvalidCsrfTokenError p v cs]
   \<and> errors_Is (NewInternalError p t cs) ErrorTypeSecurity
   \<and> \<not> errors_Is (NewInternalError p t cs) ErrorTypeAuthentication
   \<and> \<not> errors_Is (NewInternalError p t cs) ErrorTypeAccessControl"
  by (simp add: concrete_errors_def ctor_defs target_defs error_simps code_values mask_values)

end
