(* ===== verification/Security_Context.thy ===== *)
theory Security_Context
  imports Matchers Security_Errors
begin

text \<open>
  The security context of \<^verbatim>\<open>pkg/security/context.go\<close>: authentications, their states and permissions, and
  the predicates the handlers use. An authentication is the record of what its interface methods
  return; the principal and the details are datatypes of the dynamic types the code distinguishes.
\<close>

section \<open>Authentications\<close>

datatype auth_state = StateAnonymous | StatePrincipalKnown | StateAuthenticated

fun state_value :: "auth_state \<Rightarrow> int" where
  "state_value StateAnonymous = 0"
| "state_value StatePrincipalKnown = 1"
| "state_value StateAuthenticated = 2"

instantiation auth_state :: linorder
begin

definition less_eq_auth_state :: "auth_state \<Rightarrow> auth_state \<Rightarrow> bool" where
  "less_eq_auth_state a b \<longleftrightarrow> state_value a \<le> state_value b"

definition less_auth_state :: "auth_state \<Rightarrow> auth_state \<Rightarrow> bool" where
  "less_auth_state a b \<longleftrightarrow> state_value a < state_value b"

instance
proof
  fix x y z :: auth_state
  show "(x < y) = (x \<le> y \<and> \<not> y \<le> x)" by (auto simp: less_eq_auth_state_def less_auth_state_def)
  show "x \<le> x" by (simp add: less_eq_auth_state_def)
  show "x \<le> y \<Longrightarrow> y \<le> z \<Longrightarrow> x \<le> z" by (simp add: less_eq_auth_state_def)
  show "x \<le> y \<Longrightarrow> y \<le> x \<Longrightarrow> x = y" by (cases x; cases y) (simp_all add: less_eq_auth_state_def)
  show "x \<le> y \<or> y \<le> x" by (auto simp: less_eq_auth_state_def)
qed

end

lemmas state_order = less_eq_auth_state_def less_auth_state_def

datatype principal = NilPrincipal | AccountPrincipal string | StringPrincipal string
  | StringerPrincipal string | OtherPrincipal nat

datatype detail_value = DetailTime time | DetailText string | DetailBool bool | DetailList "detail_value list"
  | DetailNilMap

datatype details = NilDetails | DetailsMap "string \<rightharpoonup> detail_value"
  | TenantAccessDetails "string list" | OtherDetails nat

record authentication =
  Principal :: principal
  Permissions :: "string \<rightharpoonup> perm_value"
  State :: auth_state
  Details :: details

definition EmptyAuthentication :: authentication where
  "EmptyAuthentication =
     \<lparr>Principal = NilPrincipal, Permissions = Map.empty, State = StateAnonymous, Details = NilDetails\<rparr>"

definition Permissions_Has :: "(string \<rightharpoonup> perm_value) \<Rightarrow> string \<Rightarrow> bool" where
  "Permissions_Has p permission = (p permission \<noteq> None)"

text \<open>\<^verbatim>\<open>Get\<close>: the authentication of a context, the empty one where the context has none.\<close>

definition security_Get :: "authentication option \<Rightarrow> authentication" where
  "security_Get ctx = (case ctx of Some auth \<Rightarrow> auth | None \<Rightarrow> EmptyAuthentication)"

fun HasPermissions :: "authentication \<Rightarrow> string list \<Rightarrow> bool" where
  "HasPermissions auth [] = True"
| "HasPermissions auth (p # ps) =
     (if \<not> Permissions_Has (Permissions auth) p then False else HasPermissions auth ps)"

definition IsFullyAuthenticated :: "authentication \<Rightarrow> bool" where
  "IsFullyAuthenticated auth = (State auth \<ge> StateAuthenticated)"

definition IsBeingAuthenticated :: "authentication option \<Rightarrow> authentication option \<Rightarrow> bool" where
  "IsBeingAuthenticated frm to =
     ((case frm of None \<Rightarrow> True | Some a \<Rightarrow> State a < StateAuthenticated)
      \<and> (case to of None \<Rightarrow> False | Some a \<Rightarrow> State a > StatePrincipalKnown))"

definition IsBeingUnAuthenticated :: "authentication option \<Rightarrow> authentication option \<Rightarrow> bool" where
  "IsBeingUnAuthenticated frm to =
     ((case frm of None \<Rightarrow> False | Some a \<Rightarrow> State a > StateAnonymous)
      \<and> (case to of None \<Rightarrow> True | Some a \<Rightarrow> State a \<le> StateAnonymous))"

definition GetUsername :: "authentication option \<Rightarrow> string + string" where
  "GetUsername userAuth =
     (case userAuth of
        None \<Rightarrow> Inl ''unsupported authentication is nil''
      | Some auth \<Rightarrow>
         (case Principal auth of
            AccountPrincipal u \<Rightarrow> Inr u
          | StringPrincipal u \<Rightarrow> Inr u
          | StringerPrincipal u \<Rightarrow> Inr u
          | _ \<Rightarrow> Inl ''unsupported principal type''))"

definition DetailsKeyAuthTime :: string where "DetailsKeyAuthTime = ''AuthTime''"
definition DetailsKeyAuthWarning :: string where "DetailsKeyAuthWarning = ''AuthWarning''"
definition DetailsKeyAuthMethod :: string where "DetailsKeyAuthMethod = ''AuthMethod''"
definition DetailsKeyMFAApplied :: string where "DetailsKeyMFAApplied = ''MFAApplied''"
definition AuthMethodPassword :: string where "AuthMethodPassword = ''Password''"
definition SpecialPermissionAPIAdmin :: string where "SpecialPermissionAPIAdmin = ''IS_API_ADMIN''"
definition SpecialTenantIdWildcard :: string where "SpecialTenantIdWildcard = ''*''"

text \<open>\<^verbatim>\<open>utils.ParseTime\<close> of a textual time is the argument \<open>ParseTime\<close>; the zero time is \<open>zero\<close>.\<close>

definition DetermineAuthenticationTime :: "(string \<Rightarrow> time) \<Rightarrow> time \<Rightarrow> authentication option \<Rightarrow> time" where
  "DetermineAuthenticationTime ParseTime zero userAuth =
     (case userAuth of
        None \<Rightarrow> zero
      | Some auth \<Rightarrow>
         (case Details auth of
            DetailsMap d \<Rightarrow>
              (case d DetailsKeyAuthTime of
                 Some (DetailTime t) \<Rightarrow> t
               | Some (DetailText s) \<Rightarrow> ParseTime s
               | _ \<Rightarrow> zero)
          | _ \<Rightarrow> zero))"

lemma HasPermissions_iff: "HasPermissions auth ps \<longleftrightarrow> set ps \<subseteq> dom (Permissions auth)"
  by (induction ps) (auto simp: Permissions_Has_def)

end
