(* ===== verification/Permission_Expr.thy ===== *)
theory Permission_Expr
  imports Security_Context
begin

text \<open>
  The permission expressions of \<^verbatim>\<open>pkg/security/access/permissions.go\<close>: the tokenizer, the
  two-stack parser that reduces operators by precedence, and the permission matcher. Strings are byte
  lists. The loop of \<^verbatim>\<open>nextToken\<close> visits rune starts; the operators are ASCII, so no operator ends at a
  continuation byte and visiting every byte gives the same tokens. The stacks \<open>ops\<close> and \<open>args\<close> are lists
  with the top first; indices into them count from the bottom, as in the source. The \<^verbatim>\<open>nil, nil\<close> of a failed
  \<^verbatim>\<open>processOperand\<close> is \<open>None\<close>.

  The reference is the usual grammar of Boolean expressions with its meaning (\<open>or_expr\<close>): negation binds
  stronger than conjunction, and that stronger than disjunction.
\<close>

section \<open>Tokens\<close>

definition opAnd :: string where "opAnd = ''&&''"
definition opOr :: string where "opOr = ''||''"
definition opNot :: string where "opNot = ''!''"
definition opOpen :: string where "opOpen = ''(''"
definition opClose :: string where "opClose = '')''"

definition opTokens :: "string list" where
  "opTokens = [opAnd, opOr, opNot, opOpen, opClose]"

lemmas op_defs = opAnd_def opOr_def opNot_def opOpen_def opClose_def

definition isEndWithOp :: "string \<Rightarrow> bool \<times> string" where
  "isEndWithOp str =
     (let l = length str in
      if l < 1 then (False, '''')
      else if l < 2 then
        (let t = drop (l - 1) str in if t \<in> {opNot, opOpen, opClose} then (True, t) else (False, ''''))
      else
        (let t = drop (l - 1) str in
         if t \<in> {opNot, opOpen, opClose} then (True, t)
         else (let t = drop (l - 2) str in if t \<in> {opAnd, opOr} then (True, t) else (False, ''''))))"

fun nextToken_loop :: "string \<Rightarrow> nat list \<Rightarrow> string \<times> string" where
  "nextToken_loop str [] = (str, '''')"
| "nextToken_loop str (i # is) =
     (let t = take (i + 1) str in
      case isEndWithOp t of
        (True, opr) \<Rightarrow>
          (let idx = i + 1 - length opr in
           if idx = 0 then (opr, drop (i + 1) str) else (take idx t, drop idx str))
      | (False, _) \<Rightarrow> nextToken_loop str is)"

definition nextToken :: "string \<Rightarrow> string \<times> string" where
  "nextToken str = nextToken_loop str [0..<length str]"

section \<open>Operators and stacks\<close>

record operand =
  op :: string
  order :: nat

definition operandFromString :: "string \<Rightarrow> operand" where
  "operandFromString str =
     (if str = opOr then \<lparr>op = opOr, order = 1\<rparr>
      else if str = opAnd then \<lparr>op = opAnd, order = 2\<rparr>
      else if str = opNot then \<lparr>op = opNot, order = 3\<rparr>
      else \<lparr>op = '''', order = 0\<rparr>)"

definition Precedence :: "operand \<Rightarrow> nat \<Rightarrow> operand" where
  "Precedence x p = \<lparr>op = op x, order = order x + p\<rparr>"

definition NewPermissionMatcher :: "string \<Rightarrow> matcher" where
  "NewPermissionMatcher permission =
     FuncMatcher permission
       (\<lambda>_ i. case i of IPermissions perms \<Rightarrow> (Permissions_Has perms permission, None) | _ \<Rightarrow> (False, None))"

definition combine :: "operand list \<Rightarrow> matcher list \<Rightarrow> nat \<Rightarrow> nat \<Rightarrow> operand list \<times> matcher list" where
  "combine ops args opIdx aIdx =
     (let x = ops ! (length ops - 1 - opIdx);
          tops = rev (take (length args - aIdx) args);
          combined =
            (if op x = opNot then
               (if (length ops - opIdx) mod 2 = 1 then Not_m (hd tops) else hd tops)
             else if op x = opOr then Or_m (hd tops) (tl tops)
             else if op x = opAnd then And_m (hd tops) (tl tops)
             else hd tops)
      in (drop (length ops - opIdx) ops, combined # drop (length args - aIdx) args))"

text \<open>The inner loop of \<^verbatim>\<open>processOperand\<close>: the run of operators with the order of the top one.\<close>

fun count_run :: "operand \<Rightarrow> operand list \<Rightarrow> nat \<Rightarrow> int \<Rightarrow> (nat \<times> int) option" where
  "count_run top_op [] opCount arg = Some (opCount, arg)"
| "count_run top_op (x # xs) opCount arg =
     (if order x \<noteq> order top_op then Some (opCount, arg)
      else
        (let arg' = (if op x \<noteq> opNot then arg - 1 else arg) in
         if op x \<noteq> op top_op \<or> arg' < 0 then None else count_run top_op xs (opCount + 1) arg'))"

lemma count_run_mono: "count_run l xs n a = Some (n', a') \<Longrightarrow> n \<le> n' \<and> n' \<le> n + length xs"
  by (induction l xs n a rule: count_run.induct) (fastforce simp: Let_def split: if_splits)+

lemma count_run_top:
  assumes "count_run x (x # xs) 0 a = Some (n, a')" shows "1 \<le> n \<and> n \<le> Suc (length xs)"
  using assms by (auto simp: Let_def dest!: count_run_mono split: if_splits)

function processOperand_loop ::
    "operand list \<Rightarrow> matcher list \<Rightarrow> operand \<Rightarrow> (operand list \<times> matcher list) option" where
  "processOperand_loop [] args newOp = Some ([newOp], args)"
| "processOperand_loop (top_op # ops) args newOp =
     (if order top_op \<le> order newOp then Some (newOp # top_op # ops, args)
      else
        (case count_run top_op (top_op # ops) 0 (int (length args) - 1) of
           None \<Rightarrow> None
         | Some (opCount, arg) \<Rightarrow>
             (let r = combine (top_op # ops) args (length (top_op # ops) - opCount) (nat arg)
              in processOperand_loop (fst r) (snd r) newOp)))"
  by pat_completeness auto
termination
  by (relation "measure (\<lambda>(ops, args, newOp). length ops)")
    (auto simp: combine_def Let_def simp del: count_run.simps dest!: count_run_top)

definition processOperand ::
    "operand list \<Rightarrow> matcher list \<Rightarrow> operand \<Rightarrow> (operand list \<times> matcher list) option" where
  "processOperand ops args newOp =
     (if ops = [] then Some (newOp # ops, args) else processOperand_loop ops args newOp)"

section \<open>The parser\<close>

datatype parse_error =
    CloseWithoutOpen nat
  | OperandFollowsOperand nat
  | UnexpectedErrorAt nat
  | InvalidPermissionAt nat
  | OpenWithoutClose
  | UnknownErrorAtEOF

lemma isEndWithOp_suffix:
  assumes "isEndWithOp str = (True, opr)" shows "suffix opr str \<and> opr \<noteq> []"
proof -
  from assms have "opr = drop (length str - 1) str \<or> opr = drop (length str - 2) str"
    by (auto simp: isEndWithOp_def Let_def split: if_splits)
  moreover from assms have "opr \<noteq> []" by (auto simp: isEndWithOp_def Let_def op_defs split: if_splits)
  ultimately show ?thesis by (auto simp: suffix_drop)
qed

lemma nextToken_loop_append:
  assumes "nextToken_loop str is = (t, r)" shows "str = t @ r \<and> (str \<noteq> [] \<longrightarrow> t \<noteq> [])"
  using assms
proof (induction str "is" rule: nextToken_loop.induct)
  case (2 str i "is")
  obtain b opr where e: "isEndWithOp (take (i + 1) str) = (b, opr)" by fastforce
  show ?case
  proof (cases b)
    case True
    with e have "suffix opr (take (i + 1) str)" "opr \<noteq> []" by (auto dest: isEndWithOp_suffix)
    then obtain zs where zs: "take (i + 1) str = zs @ opr" by (auto simp: suffix_def)
    define idx where "idx = i + 1 - length opr"
    have le: "length zs + length opr \<le> i + 1"
      using arg_cong [OF zs, of length] by simp
    show ?thesis
    proof (cases "idx = 0")
      case True
      with le have "length zs = 0" unfolding idx_def by linarith
      then have "zs = []" by simp
      with zs have "take (i + 1) str = opr" by simp
      with 2(2) e \<open>b\<close> True have "t = take (i + 1) str" "r = drop (i + 1) str"
        by (auto simp: Let_def idx_def split: if_splits)
      with \<open>take (i + 1) str = opr\<close> \<open>opr \<noteq> []\<close> append_take_drop_id [of "i + 1" str] show ?thesis by simp
    next
      case False
      with 2(2) e \<open>b\<close> have "t = take idx str" "r = drop idx str"
        by (simp_all add: Let_def min_def idx_def split: if_splits)
      with False show ?thesis by simp
    qed
  next
    case False
    with 2 e show ?thesis by (simp add: Let_def)
  qed
qed simp

lemma nextToken_append: "nextToken str = (t, r) \<Longrightarrow> str = t @ r"
  and nextToken_nonempty: "nextToken str = (t, r) \<Longrightarrow> str \<noteq> [] \<Longrightarrow> t \<noteq> []"
  using nextToken_loop_append by (auto simp: nextToken_def)

lemma nextToken_shorter: "str \<noteq> [] \<Longrightarrow> length (snd (nextToken str)) < length str"
  using nextToken_append [of str "fst (nextToken str)" "snd (nextToken str)"]
    nextToken_nonempty [of str "fst (nextToken str)" "snd (nextToken str)"]
  by (metis add_less_cancel_right add_0 length_append length_greater_0_conv prod.collapse)

text \<open>
  One round of the main loop, on the stacks and the precedence. The variable \<^verbatim>\<open>lastToken\<close> is set once and
  never assigned again, so it is an argument that no round changes.
\<close>

type_synonym parse_state = "operand list \<times> matcher list \<times> nat"

definition parse_token :: "string \<Rightarrow> nat \<Rightarrow> parse_state \<Rightarrow> string \<Rightarrow> parse_error + parse_state" where
  "parse_token lastToken idx st t =
     (case st of (ops, args, precedence) \<Rightarrow>
      if t \<in> set opTokens then
        (if t = opOpen then Inr (ops, args, precedence + 10)
         else if t = opClose then
           (if precedence = 0 then Inl (CloseWithoutOpen idx) else Inr (ops, args, precedence - 10))
         else if (t = opOr \<or> t = opAnd) \<and> lastToken \<in> set opTokens then Inl (OperandFollowsOperand idx)
         else
           (let newOp = Precedence (operandFromString t) precedence in
            case processOperand ops args newOp of
              None \<Rightarrow> Inl (UnexpectedErrorAt idx)
            | Some (ops', args') \<Rightarrow>
                if op newOp = '''' then Inl (UnexpectedErrorAt idx) else Inr (ops', args', precedence)))
      else if list_ex (\<lambda>c. c \<in> set ''&|!()'') t then Inl (InvalidPermissionAt idx)
      else Inr (ops, NewPermissionMatcher t # args, precedence))"

function parse_loop :: "string \<Rightarrow> nat \<Rightarrow> parse_state \<Rightarrow> string \<Rightarrow> parse_error + parse_state" where
  "parse_loop lastToken idx st remaining =
     (if remaining = '''' then Inr st
      else (case parse_token lastToken idx st (fst (nextToken remaining)) of
              Inl e \<Rightarrow> Inl e
            | Inr st' \<Rightarrow>
                parse_loop lastToken (idx + length (fst (nextToken remaining))) st' (snd (nextToken remaining))))"
  by pat_completeness auto
termination
  by (relation "measure (\<lambda>(l, i, s, r). length r)") (auto intro: nextToken_shorter)

declare parse_loop.simps [simp del]

definition strip_spaces :: "string \<Rightarrow> string" where
  "strip_spaces s = filter (\<lambda>c. c \<noteq> CHR '' '') s"

definition parsePermissionExpr :: "string \<Rightarrow> parse_error + matcher" where
  "parsePermissionExpr expr =
     (case parse_loop '''' 0 ([], [], 0) (strip_spaces expr) of
        Inl e \<Rightarrow> Inl e
      | Inr (ops, args, precedence) \<Rightarrow>
          if precedence \<noteq> 0 then Inl OpenWithoutClose
          else
            (case processOperand ops args \<lparr>op = '''', order = 0\<rparr> of
               Some ([_], [m]) \<Rightarrow> Inr m
             | _ \<Rightarrow> Inl UnknownErrorAtEOF))"

section \<open>The grammar and its meaning\<close>

type_synonym meaning = "(string \<rightharpoonup> perm_value) \<Rightarrow> bool"

definition permission_name :: "string \<Rightarrow> bool" where
  "permission_name s \<longleftrightarrow> s \<noteq> [] \<and> set s \<inter> set ''&|!()'' = {}"

inductive unary_expr :: "string \<Rightarrow> meaning \<Rightarrow> bool"
  and and_expr :: "string \<Rightarrow> meaning \<Rightarrow> bool"
  and or_expr :: "string \<Rightarrow> meaning \<Rightarrow> bool" where
  perm: "permission_name s \<Longrightarrow> unary_expr s (\<lambda>perms. s \<in> dom perms)"
| negation: "unary_expr s v \<Longrightarrow> unary_expr (opNot @ s) (\<lambda>perms. \<not> v perms)"
| paren: "or_expr s v \<Longrightarrow> unary_expr (opOpen @ s @ opClose) v"
| and_one: "unary_expr s v \<Longrightarrow> and_expr s v"
| and_more: "and_expr s v \<Longrightarrow> unary_expr t w \<Longrightarrow> and_expr (s @ opAnd @ t) (\<lambda>perms. v perms \<and> w perms)"
| or_one: "and_expr s v \<Longrightarrow> or_expr s v"
| or_more: "or_expr s v \<Longrightarrow> and_expr t w \<Longrightarrow> or_expr (s @ opOr @ t) (\<lambda>perms. v perms \<or> w perms)"

section \<open>Reduction of the stacks\<close>

text \<open>What \<^verbatim>\<open>processOperand\<close> does before it pushes: reduce every operator of an order above \<open>q\<close>.\<close>

function reduce_above :: "nat \<Rightarrow> operand list \<Rightarrow> matcher list \<Rightarrow> (operand list \<times> matcher list) option" where
  "reduce_above q [] args = Some ([], args)"
| "reduce_above q (x # ops) args =
     (if order x \<le> q then Some (x # ops, args)
      else
        (case count_run x (x # ops) 0 (int (length args) - 1) of
           None \<Rightarrow> None
         | Some (opCount, arg) \<Rightarrow>
             (let r = combine (x # ops) args (length (x # ops) - opCount) (nat arg)
              in reduce_above q (fst r) (snd r))))"
  by pat_completeness auto
termination
  by (relation "measure (\<lambda>(q, ops, args). length ops)")
    (auto simp: combine_def Let_def simp del: count_run.simps dest!: count_run_top)

lemma processOperand_reduce:
  "processOperand ops args x = map_option (\<lambda>(ops', args'). (x # ops', args')) (reduce_above (order x) ops args)"
proof -
  have "processOperand_loop ops args x =
      map_option (\<lambda>(ops', args'). (x # ops', args')) (reduce_above (order x) ops args)"
  proof (induction ops args x rule: processOperand_loop.induct)
    case (2 y ops args x)
    show ?case
    proof (cases "count_run y (y # ops) 0 (int (length args) - 1)")
      case (Some r)
      then show ?thesis using 2 by (cases r) (simp add: Let_def del: count_run.simps)
    qed (simp del: count_run.simps)
  qed simp
  then show ?thesis by (simp add: processOperand_def)
qed

definition below :: "nat \<Rightarrow> operand list \<Rightarrow> bool" where
  "below q ops \<longleftrightarrow> (case ops of [] \<Rightarrow> True | x # _ \<Rightarrow> order x \<le> q)"

lemma below_mono: "below q ops \<Longrightarrow> q \<le> q' \<Longrightarrow> below q' ops"
  by (auto simp: below_def split: list.splits)

lemma reduce_below: "below q ops \<Longrightarrow> reduce_above q ops args = Some (ops, args)"
  by (cases ops) (auto simp: below_def)

lemma count_run_replicate:
  assumes "below q ops" "q < order x"
  shows "count_run x (replicate n x @ ops) k a =
    (if op x = opNot then (if 0 < n \<and> a < 0 then None else Some (k + n, a))
     else (if 0 < n \<and> a - int n < 0 then None else Some (k + n, a - int n)))"
  using assms
proof (induction n arbitrary: k a)
  case 0
  then show ?case by (cases ops) (auto simp: below_def)
qed (auto simp: Let_def)

lemma reduce_above_run:
  assumes "below q0 ops" "q0 < order x" "q < order x" "0 < n" and len: "op x \<noteq> opNot \<Longrightarrow> n < length args"
    "args \<noteq> []"
  shows "reduce_above q (replicate n x @ ops) args =
    (let k = (if op x = opNot then 1 else n + 1); tops = rev (take k args) in
     reduce_above q ops
       ((if op x = opNot then (if odd n then Not_m (hd tops) else hd tops)
         else if op x = opOr then Or_m (hd tops) (tl tops)
         else if op x = opAnd then And_m (hd tops) (tl tops) else hd tops) # drop k args))"
proof -
  obtain n' where n: "n = Suc n'" using \<open>0 < n\<close> by (cases n) auto
  let ?ops = "replicate n x @ ops"
  define arg where "arg = (if op x = opNot then int (length args) - 1 else int (length args) - 1 - int n)"
  have c: "count_run x ?ops 0 (int (length args) - 1) = Some (n, arg)"
    using count_run_replicate [OF assms(1,2), of n 0 "int (length args) - 1"] len
    by (cases "op x = opNot") (auto simp: arg_def)
  have nth: "?ops ! (length ?ops - 1 - (length ?ops - n)) = x"
    unfolding nth_append using n by (simp del: replicate.simps)
  have idx: "length args - nat arg = (if op x = opNot then 1 else n + 1)"
    using len by (cases "op x = opNot"; cases args) (auto simp: arg_def nat_diff_distrib)
  have "reduce_above q ?ops args =
      (let r = combine ?ops args (length ?ops - n) (nat arg) in reduce_above q (fst r) (snd r))"
    using c assms(3) n by simp
  then show ?thesis
    using nth idx by (simp add: combine_def Let_def odd_iff_mod_2_eq_one)
qed

section \<open>Meaning of the matchers\<close>

definition val :: "matcher \<Rightarrow> meaning" where
  "val m = (\<lambda>perms. fst (Matches m (IPermissions perms)))"

definition errfree :: "matcher \<Rightarrow> bool" where
  "errfree m \<longleftrightarrow> (\<forall>perms. snd (Matches m (IPermissions perms)) = None)"

lemma errfree_eval: "errfree m \<Longrightarrow> MatchesWithContext context_TODO m (IPermissions perms) = (val m perms, None)"
  by (simp add: errfree_def val_def Matches_def prod_eq_iff)

lemma eval_errfree:
  "(\<And>perms. MatchesWithContext context_TODO m (IPermissions perms) = (v perms, None)) \<Longrightarrow> errfree m \<and> val m = v"
  by (auto simp: errfree_def val_def Matches_def)

lemma val_permission: "errfree (NewPermissionMatcher s) \<and> val (NewPermissionMatcher s) = (\<lambda>perms. s \<in> dom perms)"
  by (rule eval_errfree) (auto simp: NewPermissionMatcher_def Permissions_Has_def)

lemma val_Not: "errfree m \<Longrightarrow> errfree (Not_m m) \<and> val (Not_m m) = (\<lambda>perms. \<not> val m perms)"
  by (rule eval_errfree) (simp add: eval_Not errfree_eval)

lemma val_Or:
  "\<forall>m \<in> set (l # ms). errfree m \<Longrightarrow>
    errfree (Or_m l ms) \<and> val (Or_m l ms) = (\<lambda>perms. \<exists>m \<in> set (l # ms). val m perms)"
  by (rule eval_errfree, rule eval_total_Or) (auto simp: errfree_eval)

lemma val_And:
  "\<forall>m \<in> set (l # ms). errfree m \<Longrightarrow>
    errfree (And_m l ms) \<and> val (And_m l ms) = (\<lambda>perms. \<forall>m \<in> set (l # ms). val m perms)"
  by (rule eval_errfree, rule eval_total_And) (auto simp: errfree_eval)

abbreviation NotOp :: "nat \<Rightarrow> operand" where "NotOp p \<equiv> Precedence (operandFromString opNot) p"
abbreviation AndOp :: "nat \<Rightarrow> operand" where "AndOp p \<equiv> Precedence (operandFromString opAnd) p"
abbreviation OrOp :: "nat \<Rightarrow> operand" where "OrOp p \<equiv> Precedence (operandFromString opOr) p"

lemma operand_fields [simp]:
  "order (NotOp p) = p + 3" "order (AndOp p) = p + 2" "order (OrOp p) = p + 1"
  "op (NotOp p) = opNot" "op (AndOp p) = opAnd" "op (OrOp p) = opOr"
  by (simp_all add: Precedence_def operandFromString_def op_defs)

lemma op_distinct [simp]:
  "opAnd \<noteq> opNot" "opOr \<noteq> opNot" "opNot \<noteq> opAnd" "opNot \<noteq> opOr" "opAnd \<noteq> opOr" "opOr \<noteq> opAnd"
  by (simp_all add: op_defs)

lemma reduce_nots:
  assumes "below (p + 2) ops" "errfree m"
  shows "\<exists>m'. errfree m' \<and> val m' = (\<lambda>perms. val m perms \<noteq> odd n)
    \<and> (\<forall>q \<le> p + 2. reduce_above q (replicate n (NotOp p) @ ops) (m # args) = reduce_above q ops (m' # args))"
proof (cases "odd n")
  case True
  then have "0 < n" by (cases n) auto
  with True have "\<forall>q \<le> p + 2. reduce_above q (replicate n (NotOp p) @ ops) (m # args) = reduce_above q ops (Not_m m # args)"
    using reduce_above_run [OF assms(1), of "NotOp p" _ n "m # args"] by simp
  with True val_Not [OF assms(2)] show ?thesis by auto
next
  case False
  then have "\<forall>q \<le> p + 2. reduce_above q (replicate n (NotOp p) @ ops) (m # args) = reduce_above q ops (m # args)"
    using reduce_above_run [OF assms(1), of "NotOp p" _ n "m # args"] by (cases "n = 0") simp_all
  with False assms(2) show ?thesis by auto
qed

lemma reduce_ands:
  assumes "below (p + 1) ops" "length ms = n + 1" "\<forall>m \<in> set ms. errfree m"
  shows "\<exists>m'. errfree m' \<and> val m' = (\<lambda>perms. \<forall>m \<in> set ms. val m perms)
    \<and> (\<forall>q \<le> p + 1. reduce_above q (replicate n (AndOp p) @ ops) (ms @ args) = reduce_above q ops (m' # args))"
proof (cases "n = 0")
  case True
  with assms(2) obtain m where "ms = [m]" by (auto simp: length_Suc_conv)
  with True assms show ?thesis by (intro exI [of _ m]) auto
next
  case False
  let ?m = "And_m (hd (rev ms)) (tl (rev ms))"
  have ne: "rev ms \<noteq> []" using assms(2) by auto
  then have s: "set (hd (rev ms) # tl (rev ms)) = set ms" by (simp del: rev_is_Nil_conv)
  have "errfree ?m \<and> val ?m = (\<lambda>perms. \<forall>m \<in> set ms. val m perms)"
    using val_And [of "hd (rev ms)" "tl (rev ms)"] assms(3) unfolding s by blast
  moreover have "\<forall>q \<le> p + 1. reduce_above q (replicate n (AndOp p) @ ops) (ms @ args) = reduce_above q ops (?m # args)"
    using reduce_above_run [OF assms(1), of "AndOp p" _ n "ms @ args"] assms(2) False ne by (auto simp: Let_def)
  ultimately show ?thesis by blast
qed

lemma reduce_ors:
  assumes "below p ops" "length ms = n + 1" "\<forall>m \<in> set ms. errfree m"
  shows "\<exists>m'. errfree m' \<and> val m' = (\<lambda>perms. \<exists>m \<in> set ms. val m perms)
    \<and> (\<forall>q \<le> p. reduce_above q (replicate n (OrOp p) @ ops) (ms @ args) = reduce_above q ops (m' # args))"
proof (cases "n = 0")
  case True
  with assms(2) obtain m where "ms = [m]" by (auto simp: length_Suc_conv)
  with True assms show ?thesis by (intro exI [of _ m]) auto
next
  case False
  let ?m = "Or_m (hd (rev ms)) (tl (rev ms))"
  have ne: "rev ms \<noteq> []" using assms(2) by auto
  then have s: "set (hd (rev ms) # tl (rev ms)) = set ms" by (simp del: rev_is_Nil_conv)
  have "errfree ?m \<and> val ?m = (\<lambda>perms. \<exists>m \<in> set ms. val m perms)"
    using val_Or [of "hd (rev ms)" "tl (rev ms)"] assms(3) unfolding s by blast
  moreover have "\<forall>q \<le> p. reduce_above q (replicate n (OrOp p) @ ops) (ms @ args) = reduce_above q ops (?m # args)"
    using reduce_above_run [OF assms(1), of "OrOp p" _ n "ms @ args"] assms(2) False ne by (auto simp: Let_def)
  ultimately show ?thesis by blast
qed

section \<open>The parser follows the grammar\<close>

definition delim :: "string \<Rightarrow> bool" where
  "delim rest \<longleftrightarrow> rest = [] \<or> prefix opAnd rest \<or> prefix opOr rest \<or> prefix opClose rest"

lemma delim_intros [simp]: "delim []" "delim (opAnd @ r)" "delim (opOr @ r)" "delim (opClose @ r)"
  by (simp_all add: delim_def)

lemma nextToken_op1: "t \<in> {opNot, opOpen, opClose} \<Longrightarrow> nextToken (t @ rest) = (t, rest)"
  by (auto simp: nextToken_def upt_conv_Cons isEndWithOp_def op_defs simp del: upt_Suc)

lemma nextToken_op2: "t \<in> {opAnd, opOr} \<Longrightarrow> nextToken (t @ rest) = (t, rest)"
  by (auto simp: nextToken_def upt_conv_Cons isEndWithOp_def op_defs simp del: upt_Suc)

lemma nextToken_loop_skip:
  assumes "\<forall>i \<in> set is. \<not> fst (isEndWithOp (take (i + 1) str))"
  shows "nextToken_loop str (is @ js) = nextToken_loop str js"
  using assms by (induction "is") (auto simp: Let_def split: prod.split bool.split)

lemma isEndWithOp_name:
  assumes "set s \<inter> set ''&|!()'' = {}" shows "\<not> fst (isEndWithOp s)"
proof
  assume "fst (isEndWithOp s)"
  then obtain opr where e: "isEndWithOp s = (True, opr)" by (cases "isEndWithOp s") auto
  then have "opr \<in> {opNot, opOpen, opClose, opAnd, opOr}"
    by (auto simp: isEndWithOp_def Let_def split: if_splits)
  moreover have "set opr \<subseteq> set s" using isEndWithOp_suffix [OF e] by (simp add: set_mono_suffix)
  ultimately show False using assms by (auto simp: op_defs)
qed

lemma isEndWithOp_snoc:
  "isEndWithOp (s @ opClose) = (True, opClose)"
  "isEndWithOp (s @ opAnd) = (True, opAnd)" "isEndWithOp (s @ opOr) = (True, opOr)"
  "a \<noteq> CHR ''&'' \<Longrightarrow> \<not> fst (isEndWithOp (s @ [a, CHR ''&'']))"
  "a \<noteq> CHR ''|'' \<Longrightarrow> \<not> fst (isEndWithOp (s @ [a, CHR ''|'']))"
  by (simp_all add: isEndWithOp_def op_defs)

lemma nextToken_loop_hit:
  assumes "isEndWithOp (take (i + 1) str) = (True, opr)" "length opr \<le> i"
  shows "nextToken_loop str (i # is) = (take (i + 1 - length opr) str, drop (i + 1 - length opr) str)"
  using assms by (simp add: min_def Let_def)

lemma nextToken_loop_two:
  assumes "isEndWithOp (s @ [c, c]) = (True, [c, c])" "\<not> fst (isEndWithOp (s @ [c]))" "s \<noteq> []"
  shows "nextToken_loop (s @ c # c # r) (length s # Suc (length s) # is) = (s, c # c # r)"
proof -
  have "nextToken_loop (s @ c # c # r) (length s # Suc (length s) # is)
      = nextToken_loop (s @ c # c # r) (Suc (length s) # is)"
    using nextToken_loop_skip [of "[length s]" "s @ c # c # r"] assms(2) by simp
  also have "\<dots> = (s, c # c # r)"
    using nextToken_loop_hit [of "Suc (length s)" "s @ c # c # r" "[c, c]" "is"] assms(1,3) by (cases s) simp_all
  finally show ?thesis .
qed

lemma nextToken_loop_delim:
  assumes "s = s' @ [a]" "a \<notin> set ''&|!()''" "delim rest"
  shows "nextToken_loop (s @ rest) [length s..<length s + length rest] = (s, rest)"
proof -
  have s: "s \<noteq> []" using assms(1) by simp
  consider "rest = []" | r where "rest = opClose @ r" | r where "rest = opAnd @ r" | r where "rest = opOr @ r"
    using assms(3) by (auto simp: delim_def prefix_def)
  then show ?thesis
  proof cases
    case 2
    then show ?thesis using nextToken_loop_hit [of "length s" "s @ rest" opClose] isEndWithOp_snoc(1) [of s] s
      by (cases s) (simp_all add: upt_conv_Cons op_defs del: upt_Suc nextToken_loop.simps)
  next
    case 3
    have "[length s..<length s + length rest] = length s # Suc (length s) # [Suc (Suc (length s))..<length s + length rest]"
      by (simp add: 3 opAnd_def upt_conv_Cons del: upt_Suc)
    moreover have "nextToken_loop (s @ rest) (length s # Suc (length s) # is) = (s, rest)" for "is"
      using nextToken_loop_two [of s "CHR ''&''" r "is"] isEndWithOp_snoc(2) [of s] isEndWithOp_snoc(4) [of a s']
        assms(2) s by (simp add: 3 opAnd_def assms(1) del: nextToken_loop.simps)
    ultimately show ?thesis by (simp only:)
  next
    case 4
    have "[length s..<length s + length rest] = length s # Suc (length s) # [Suc (Suc (length s))..<length s + length rest]"
      by (simp add: 4 opOr_def upt_conv_Cons del: upt_Suc)
    moreover have "nextToken_loop (s @ rest) (length s # Suc (length s) # is) = (s, rest)" for "is"
      using nextToken_loop_two [of s "CHR ''|''" r "is"] isEndWithOp_snoc(3) [of s] isEndWithOp_snoc(5) [of a s']
        assms(2) s by (simp add: 4 opOr_def assms(1) del: nextToken_loop.simps)
    ultimately show ?thesis by (simp only:)
  qed simp
qed

lemma nextToken_name:
  assumes "permission_name s" "delim rest" shows "nextToken (s @ rest) = (s, rest)"
proof -
  have split: "[0..<length (s @ rest)] = [0..<length s] @ [length s..<length s + length rest]"
    using upt_add_eq_append [of 0 "length s" "length rest"] by simp
  have "\<not> fst (isEndWithOp (take (i + 1) (s @ rest)))" if "i < length s" for i
    using that assms(1) set_take_subset [of "i + 1" s]
    by (intro isEndWithOp_name) (auto simp: permission_name_def)
  then have "nextToken (s @ rest) = nextToken_loop (s @ rest) [length s..<length s + length rest]"
    unfolding nextToken_def split by (intro nextToken_loop_skip) auto
  moreover obtain a s' where "s = s' @ [a]" "a \<notin> set ''&|!()''"
    using assms(1) by (cases s rule: rev_cases) (auto simp: permission_name_def)
  ultimately show ?thesis using nextToken_loop_delim assms(2) by simp
qed

lemma parse_step:
  assumes "nextToken (t @ r) = (t, r)" "t \<noteq> []" "parse_token lastToken idx st t = Inr st'"
  shows "parse_loop lastToken idx st (t @ r) = parse_loop lastToken (idx + length t) st' r"
  using assms by (subst parse_loop.simps) simp

lemma parse_token_name:
  assumes "permission_name s"
  shows "parse_token l idx (ops, args, p) s = Inr (ops, NewPermissionMatcher s # args, p)"
proof -
  have "s \<notin> set opTokens"
    using assms by (auto simp: permission_name_def opTokens_def op_defs)
  moreover have "\<not> list_ex (\<lambda>c. c \<in> set ''&|!()'') s"
    using assms by (auto simp: permission_name_def list_ex_iff simp del: set_simps)
  ultimately show ?thesis by (simp only: parse_token_def prod.case if_False)
qed

lemma parse_token_paren:
  "parse_token l idx (ops, args, p) opOpen = Inr (ops, args, p + 10)"
  "parse_token l idx (ops, args, p + 10) opClose = Inr (ops, args, p)"
  by (simp_all add: parse_token_def opTokens_def op_defs)

lemma parse_token_op:
  assumes "t \<in> {opNot, opAnd, opOr}"
    "reduce_above (order (Precedence (operandFromString t) p)) ops args = Some (ops', args')"
  shows "parse_token '''' idx (ops, args, p) t = Inr (Precedence (operandFromString t) p # ops', args', p)"
  using assms
  by (auto simp: parse_token_def Let_def processOperand_reduce opTokens_def op_defs)
    (auto simp: Precedence_def operandFromString_def op_defs)

text \<open>
  What the loop has done after a phrase, whatever follows it: the stacks reduce, at every order the
  phrase leaves open, like the stacks before it with the phrase's operators and arguments pushed.
\<close>

definition unary_ok :: "string \<Rightarrow> meaning \<Rightarrow> bool" where
  "unary_ok s v \<longleftrightarrow> (\<forall>p ops args rest idx. below (p + 3) ops \<longrightarrow> delim rest \<longrightarrow>
     (\<exists>idx' ops' args' n m.
        parse_loop '''' idx (ops, args, p) (s @ rest) = parse_loop '''' idx' (ops', args', p) rest
        \<and> errfree m \<and> v = (\<lambda>perms. val m perms \<noteq> odd n)
        \<and> (\<forall>q \<le> p + 3. reduce_above q ops' args' = reduce_above q (replicate n (NotOp p) @ ops) (m # args))))"

definition and_ok :: "string \<Rightarrow> meaning \<Rightarrow> bool" where
  "and_ok s v \<longleftrightarrow> (\<forall>p ops args rest idx. below (p + 1) ops \<longrightarrow> delim rest \<longrightarrow>
     (\<exists>idx' ops' args' n ms.
        parse_loop '''' idx (ops, args, p) (s @ rest) = parse_loop '''' idx' (ops', args', p) rest
        \<and> length ms = n + 1 \<and> (\<forall>m \<in> set ms. errfree m) \<and> v = (\<lambda>perms. \<forall>m \<in> set ms. val m perms)
        \<and> (\<forall>q \<le> p + 2. reduce_above q ops' args' = reduce_above q (replicate n (AndOp p) @ ops) (ms @ args))))"

definition or_ok :: "string \<Rightarrow> meaning \<Rightarrow> bool" where
  "or_ok s v \<longleftrightarrow> (\<forall>p ops args rest idx. below p ops \<longrightarrow> delim rest \<longrightarrow>
     (\<exists>idx' ops' args' n ms.
        parse_loop '''' idx (ops, args, p) (s @ rest) = parse_loop '''' idx' (ops', args', p) rest
        \<and> length ms = n + 1 \<and> (\<forall>m \<in> set ms. errfree m) \<and> v = (\<lambda>perms. \<exists>m \<in> set ms. val m perms)
        \<and> (\<forall>q \<le> p + 1. reduce_above q ops' args' = reduce_above q (replicate n (OrOp p) @ ops) (ms @ args))))"

lemma op_nonempty [simp]: "opNot \<noteq> []" "opAnd \<noteq> []" "opOr \<noteq> []" "opOpen \<noteq> []" "opClose \<noteq> []"
  by (simp_all add: op_defs)

lemma below_replicate: "0 < n \<Longrightarrow> below q (replicate n x @ ops) \<longleftrightarrow> order x \<le> q"
  by (cases n) (simp_all add: below_def)

lemma unary_ok_perm:
  assumes "permission_name s" shows "unary_ok s (\<lambda>perms. s \<in> dom perms)"
  unfolding unary_ok_def
proof (intro allI impI)
  fix p ops args rest idx
  assume d: "delim rest"
  have "s \<noteq> []" using assms by (simp add: permission_name_def)
  then have "parse_loop '''' idx (ops, args, p) (s @ rest) =
      parse_loop '''' (idx + length s) (ops, NewPermissionMatcher s # args, p) rest"
    using nextToken_name [OF assms d] parse_token_name [OF assms] by (intro parse_step)
  with val_permission [of s] show "\<exists>idx' ops' args' n m.
        parse_loop '''' idx (ops, args, p) (s @ rest) = parse_loop '''' idx' (ops', args', p) rest
        \<and> errfree m \<and> (\<lambda>perms. s \<in> dom perms) = (\<lambda>perms. val m perms \<noteq> odd n)
        \<and> (\<forall>q \<le> p + 3. reduce_above q ops' args' = reduce_above q (replicate n (NotOp p) @ ops) (m # args))"
    by (intro exI [of _ "idx + length s"] exI [of _ ops] exI [of _ "NewPermissionMatcher s # args"]
        exI [of _ 0] exI [of _ "NewPermissionMatcher s"]) simp
qed

lemma unary_ok_negation:
  assumes "unary_ok s v" shows "unary_ok (opNot @ s) (\<lambda>perms. \<not> v perms)"
  unfolding unary_ok_def
proof (intro allI impI)
  fix p ops args rest idx
  assume b: "below (p + 3) ops" and d: "delim rest"
  have "parse_loop '''' idx (ops, args, p) (opNot @ s @ rest) =
      parse_loop '''' (idx + length opNot) (NotOp p # ops, args, p) (s @ rest)"
    using b by (intro parse_step nextToken_op1 parse_token_op) (simp_all add: reduce_below)
  moreover have "below (p + 3) (NotOp p # ops)" by (simp add: below_def)
  with assms d obtain idx' ops' args' n m where
    "parse_loop '''' (idx + length opNot) (NotOp p # ops, args, p) (s @ rest) = parse_loop '''' idx' (ops', args', p) rest"
    "errfree m" "v = (\<lambda>perms. val m perms \<noteq> odd n)"
    "\<forall>q \<le> p + 3. reduce_above q ops' args' = reduce_above q (replicate n (NotOp p) @ NotOp p # ops) (m # args)"
    using assms [unfolded unary_ok_def, rule_format, of p "NotOp p # ops" rest "idx + length opNot" args] d by auto
  ultimately show "\<exists>idx' ops' args' n m.
        parse_loop '''' idx (ops, args, p) ((opNot @ s) @ rest) = parse_loop '''' idx' (ops', args', p) rest
        \<and> errfree m \<and> (\<lambda>perms. \<not> v perms) = (\<lambda>perms. val m perms \<noteq> odd n)
        \<and> (\<forall>q \<le> p + 3. reduce_above q ops' args' = reduce_above q (replicate n (NotOp p) @ ops) (m # args))"
    by (intro exI [of _ idx'] exI [of _ ops'] exI [of _ args'] exI [of _ "Suc n"] exI [of _ m])
      (simp add: replicate_app_Cons_same)
qed

lemma unary_ok_paren:
  assumes "or_ok s v" shows "unary_ok (opOpen @ s @ opClose) v"
  unfolding unary_ok_def
proof (intro allI impI)
  fix p ops args rest idx
  assume b: "below (p + 3) ops" and d: "delim rest"
  have b': "below (p + 10) ops" using b by (rule below_mono) simp
  have "parse_loop '''' idx (ops, args, p) (opOpen @ s @ opClose @ rest) =
      parse_loop '''' (idx + length opOpen) (ops, args, p + 10) (s @ opClose @ rest)"
    by (intro parse_step nextToken_op1 parse_token_paren) simp_all
  moreover obtain idx' ops' args' n ms where s:
    "parse_loop '''' (idx + length opOpen) (ops, args, p + 10) (s @ opClose @ rest)
       = parse_loop '''' idx' (ops', args', p + 10) (opClose @ rest)"
    "length ms = n + 1" "\<forall>m \<in> set ms. errfree m" "v = (\<lambda>perms. \<exists>m \<in> set ms. val m perms)"
    "\<forall>q \<le> p + 11. reduce_above q ops' args' = reduce_above q (replicate n (OrOp (p + 10)) @ ops) (ms @ args)"
    using assms [unfolded or_ok_def, rule_format, OF b' delim_intros(4) [of rest], of "idx + length opOpen" args] by auto
  moreover have "parse_loop '''' idx' (ops', args', p + 10) (opClose @ rest) =
      parse_loop '''' (idx' + length opClose) (ops', args', p) rest"
    by (intro parse_step nextToken_op1 parse_token_paren) simp_all
  moreover obtain m where "errfree m" "val m = v"
    "\<forall>q \<le> p + 10. reduce_above q (replicate n (OrOp (p + 10)) @ ops) (ms @ args) = reduce_above q ops (m # args)"
    using reduce_ors [OF b' s(2,3)] s(4) by auto
  ultimately show "\<exists>idx' ops' args' n m.
        parse_loop '''' idx (ops, args, p) ((opOpen @ s @ opClose) @ rest) = parse_loop '''' idx' (ops', args', p) rest
        \<and> errfree m \<and> v = (\<lambda>perms. val m perms \<noteq> odd n)
        \<and> (\<forall>q \<le> p + 3. reduce_above q ops' args' = reduce_above q (replicate n (NotOp p) @ ops) (m # args))"
    by (intro exI [of _ "idx' + length opClose"] exI [of _ ops'] exI [of _ args'] exI [of _ 0] exI [of _ m]) simp
qed

text \<open>A whole phrase seen from outside: one argument more, at every order up to \<open>b\<close>.\<close>

definition pushes :: "nat \<Rightarrow> string \<Rightarrow> meaning \<Rightarrow> nat \<Rightarrow> nat \<Rightarrow> operand list \<Rightarrow> matcher list \<Rightarrow> string \<Rightarrow> bool" where
  "pushes b s v p idx ops args rest \<longleftrightarrow>
     (\<exists>idx' ops' args' m.
        parse_loop '''' idx (ops, args, p) (s @ rest) = parse_loop '''' idx' (ops', args', p) rest
        \<and> errfree m \<and> val m = v \<and> (\<forall>q \<le> b. reduce_above q ops' args' = reduce_above q ops (m # args)))"

lemma unary_pushes:
  assumes "unary_ok s v" "below (p + 2) ops" "delim rest" shows "pushes (p + 2) s v p idx ops args rest"
proof -
  have "below (p + 3) ops" using assms(2) by (rule below_mono) simp
  with assms(1,3) obtain idx' ops' args' n m where s:
    "parse_loop '''' idx (ops, args, p) (s @ rest) = parse_loop '''' idx' (ops', args', p) rest"
    "errfree m" "v = (\<lambda>perms. val m perms \<noteq> odd n)"
    "\<forall>q \<le> p + 3. reduce_above q ops' args' = reduce_above q (replicate n (NotOp p) @ ops) (m # args)"
    using assms(1) [unfolded unary_ok_def, rule_format, of p ops rest idx args] by auto
  obtain m' where "errfree m'" "val m' = v"
    "\<forall>q \<le> p + 2. reduce_above q (replicate n (NotOp p) @ ops) (m # args) = reduce_above q ops (m' # args)"
    using reduce_nots [OF assms(2) s(2), of n args] s(3) by auto
  with s(1,4) show ?thesis
    unfolding pushes_def by (intro exI [of _ idx'] exI [of _ ops'] exI [of _ args'] exI [of _ m']) simp
qed

lemma and_pushes:
  assumes "and_ok s v" "below (p + 1) ops" "delim rest" shows "pushes (p + 1) s v p idx ops args rest"
proof -
  obtain idx' ops' args' n ms where s:
    "parse_loop '''' idx (ops, args, p) (s @ rest) = parse_loop '''' idx' (ops', args', p) rest"
    "length ms = n + 1" "\<forall>m \<in> set ms. errfree m" "v = (\<lambda>perms. \<forall>m \<in> set ms. val m perms)"
    "\<forall>q \<le> p + 2. reduce_above q ops' args' = reduce_above q (replicate n (AndOp p) @ ops) (ms @ args)"
    using assms(1) [unfolded and_ok_def, rule_format, OF assms(2,3), of idx args] by auto
  obtain m' where "errfree m'" "val m' = v"
    "\<forall>q \<le> p + 1. reduce_above q (replicate n (AndOp p) @ ops) (ms @ args) = reduce_above q ops (m' # args)"
    using reduce_ands [OF assms(2) s(2,3)] s(4) by auto
  with s(1,5) show ?thesis
    unfolding pushes_def by (intro exI [of _ idx'] exI [of _ ops'] exI [of _ args'] exI [of _ m']) simp
qed

lemma or_pushes:
  assumes "or_ok s v" "below p ops" "delim rest" shows "pushes p s v p idx ops args rest"
proof -
  obtain idx' ops' args' n ms where s:
    "parse_loop '''' idx (ops, args, p) (s @ rest) = parse_loop '''' idx' (ops', args', p) rest"
    "length ms = n + 1" "\<forall>m \<in> set ms. errfree m" "v = (\<lambda>perms. \<exists>m \<in> set ms. val m perms)"
    "\<forall>q \<le> p + 1. reduce_above q ops' args' = reduce_above q (replicate n (OrOp p) @ ops) (ms @ args)"
    using assms(1) [unfolded or_ok_def, rule_format, OF assms(2,3), of idx args] by auto
  obtain m' where "errfree m'" "val m' = v"
    "\<forall>q \<le> p. reduce_above q (replicate n (OrOp p) @ ops) (ms @ args) = reduce_above q ops (m' # args)"
    using reduce_ors [OF assms(2) s(2,3)] s(4) by auto
  with s(1,5) show ?thesis
    unfolding pushes_def by (intro exI [of _ idx'] exI [of _ ops'] exI [of _ args'] exI [of _ m']) simp
qed

lemma and_ok_one:
  assumes "unary_ok s v" shows "and_ok s v"
  unfolding and_ok_def
proof (intro allI impI)
  fix p ops args rest idx
  assume b: "below (p + 1) ops" and d: "delim rest"
  have "pushes (p + 2) s v p idx ops args rest"
    using assms below_mono [OF b] d by (intro unary_pushes) simp_all
  then obtain idx' ops' args' m where
    "parse_loop '''' idx (ops, args, p) (s @ rest) = parse_loop '''' idx' (ops', args', p) rest"
    "errfree m" "val m = v" "\<forall>q \<le> p + 2. reduce_above q ops' args' = reduce_above q ops (m # args)"
    unfolding pushes_def by auto
  then show "\<exists>idx' ops' args' n ms.
        parse_loop '''' idx (ops, args, p) (s @ rest) = parse_loop '''' idx' (ops', args', p) rest
        \<and> length ms = n + 1 \<and> (\<forall>m \<in> set ms. errfree m) \<and> v = (\<lambda>perms. \<forall>m \<in> set ms. val m perms)
        \<and> (\<forall>q \<le> p + 2. reduce_above q ops' args' = reduce_above q (replicate n (AndOp p) @ ops) (ms @ args))"
    by (intro exI [of _ idx'] exI [of _ ops'] exI [of _ args'] exI [of _ 0] exI [of _ "[m]"]) auto
qed

lemma and_ok_more:
  assumes "and_ok s v" "unary_ok t w" shows "and_ok (s @ opAnd @ t) (\<lambda>perms. v perms \<and> w perms)"
  unfolding and_ok_def
proof (intro allI impI)
  fix p ops args rest idx
  assume b: "below (p + 1) ops" and d: "delim rest"
  obtain idx1 ops1 args1 n ms where s:
    "parse_loop '''' idx (ops, args, p) (s @ opAnd @ t @ rest) = parse_loop '''' idx1 (ops1, args1, p) (opAnd @ t @ rest)"
    "length ms = n + 1" "\<forall>m \<in> set ms. errfree m" "v = (\<lambda>perms. \<forall>m \<in> set ms. val m perms)"
    "\<forall>q \<le> p + 2. reduce_above q ops1 args1 = reduce_above q (replicate n (AndOp p) @ ops) (ms @ args)"
    using assms(1) [unfolded and_ok_def, rule_format, OF b delim_intros(2) [of "t @ rest"], of idx args] by auto
  let ?ops = "replicate (Suc n) (AndOp p) @ ops"
  have "below (p + 2) (replicate n (AndOp p) @ ops)"
    using below_mono [OF b] by (cases n) (simp_all add: below_def)
  with s(5) have "reduce_above (p + 2) ops1 args1 = Some (replicate n (AndOp p) @ ops, ms @ args)"
    by (simp add: reduce_below)
  then have step: "parse_loop '''' idx1 (ops1, args1, p) (opAnd @ t @ rest)
      = parse_loop '''' (idx1 + length opAnd) (?ops, ms @ args, p) (t @ rest)"
    by (intro parse_step nextToken_op2) (simp_all add: parse_token_op)
  have "pushes (p + 2) t w p (idx1 + length opAnd) ?ops (ms @ args) rest"
    by (intro unary_pushes assms d) (simp add: below_def)
  then obtain idx' ops' args' m where t:
    "parse_loop '''' (idx1 + length opAnd) (?ops, ms @ args, p) (t @ rest) = parse_loop '''' idx' (ops', args', p) rest"
    "errfree m" "val m = w" "\<forall>q \<le> p + 2. reduce_above q ops' args' = reduce_above q ?ops (m # ms @ args)"
    unfolding pushes_def by blast
  show "\<exists>idx' ops' args' n ms.
        parse_loop '''' idx (ops, args, p) ((s @ opAnd @ t) @ rest) = parse_loop '''' idx' (ops', args', p) rest
        \<and> length ms = n + 1 \<and> (\<forall>m \<in> set ms. errfree m) \<and> (\<lambda>perms. v perms \<and> w perms) = (\<lambda>perms. \<forall>m \<in> set ms. val m perms)
        \<and> (\<forall>q \<le> p + 2. reduce_above q ops' args' = reduce_above q (replicate n (AndOp p) @ ops) (ms @ args))"
    using s t step
    by (intro exI [of _ idx'] exI [of _ ops'] exI [of _ args'] exI [of _ "Suc n"] exI [of _ "m # ms"]) auto
qed

lemma or_ok_one:
  assumes "and_ok s v" shows "or_ok s v"
  unfolding or_ok_def
proof (intro allI impI)
  fix p ops args rest idx
  assume b: "below p ops" and d: "delim rest"
  have "pushes (p + 1) s v p idx ops args rest"
    using assms below_mono [OF b] d by (intro and_pushes) simp_all
  then obtain idx' ops' args' m where
    "parse_loop '''' idx (ops, args, p) (s @ rest) = parse_loop '''' idx' (ops', args', p) rest"
    "errfree m" "val m = v" "\<forall>q \<le> p + 1. reduce_above q ops' args' = reduce_above q ops (m # args)"
    unfolding pushes_def by auto
  then show "\<exists>idx' ops' args' n ms.
        parse_loop '''' idx (ops, args, p) (s @ rest) = parse_loop '''' idx' (ops', args', p) rest
        \<and> length ms = n + 1 \<and> (\<forall>m \<in> set ms. errfree m) \<and> v = (\<lambda>perms. \<exists>m \<in> set ms. val m perms)
        \<and> (\<forall>q \<le> p + 1. reduce_above q ops' args' = reduce_above q (replicate n (OrOp p) @ ops) (ms @ args))"
    by (intro exI [of _ idx'] exI [of _ ops'] exI [of _ args'] exI [of _ 0] exI [of _ "[m]"]) auto
qed

lemma or_ok_more:
  assumes "or_ok s v" "and_ok t w" shows "or_ok (s @ opOr @ t) (\<lambda>perms. v perms \<or> w perms)"
  unfolding or_ok_def
proof (intro allI impI)
  fix p ops args rest idx
  assume b: "below p ops" and d: "delim rest"
  obtain idx1 ops1 args1 n ms where s:
    "parse_loop '''' idx (ops, args, p) (s @ opOr @ t @ rest) = parse_loop '''' idx1 (ops1, args1, p) (opOr @ t @ rest)"
    "length ms = n + 1" "\<forall>m \<in> set ms. errfree m" "v = (\<lambda>perms. \<exists>m \<in> set ms. val m perms)"
    "\<forall>q \<le> p + 1. reduce_above q ops1 args1 = reduce_above q (replicate n (OrOp p) @ ops) (ms @ args)"
    using assms(1) [unfolded or_ok_def, rule_format, OF b delim_intros(3) [of "t @ rest"], of idx args] by auto
  let ?ops = "replicate (Suc n) (OrOp p) @ ops"
  have "below (p + 1) (replicate n (OrOp p) @ ops)"
    using below_mono [OF b] by (cases n) (simp_all add: below_def)
  with s(5) have "reduce_above (p + 1) ops1 args1 = Some (replicate n (OrOp p) @ ops, ms @ args)"
    by (simp add: reduce_below)
  then have step: "parse_loop '''' idx1 (ops1, args1, p) (opOr @ t @ rest)
      = parse_loop '''' (idx1 + length opOr) (?ops, ms @ args, p) (t @ rest)"
    by (intro parse_step nextToken_op2) (simp_all add: parse_token_op)
  have "pushes (p + 1) t w p (idx1 + length opOr) ?ops (ms @ args) rest"
    by (intro and_pushes assms d) (simp add: below_def)
  then obtain idx' ops' args' m where t:
    "parse_loop '''' (idx1 + length opOr) (?ops, ms @ args, p) (t @ rest) = parse_loop '''' idx' (ops', args', p) rest"
    "errfree m" "val m = w" "\<forall>q \<le> p + 1. reduce_above q ops' args' = reduce_above q ?ops (m # ms @ args)"
    unfolding pushes_def by blast
  show "\<exists>idx' ops' args' n ms.
        parse_loop '''' idx (ops, args, p) ((s @ opOr @ t) @ rest) = parse_loop '''' idx' (ops', args', p) rest
        \<and> length ms = n + 1 \<and> (\<forall>m \<in> set ms. errfree m) \<and> (\<lambda>perms. v perms \<or> w perms) = (\<lambda>perms. \<exists>m \<in> set ms. val m perms)
        \<and> (\<forall>q \<le> p + 1. reduce_above q ops' args' = reduce_above q (replicate n (OrOp p) @ ops) (ms @ args))"
    using s t step
    by (intro exI [of _ idx'] exI [of _ ops'] exI [of _ args'] exI [of _ "Suc n"] exI [of _ "m # ms"]) auto
qed

lemma expr_ok:
  "(unary_expr s v \<longrightarrow> unary_ok s v) \<and> (and_expr s v \<longrightarrow> and_ok s v) \<and> (or_expr s v \<longrightarrow> or_ok s v)"
  by (rule unary_expr_and_expr_or_expr.induct)
    (auto intro: unary_ok_perm unary_ok_negation unary_ok_paren and_ok_one and_ok_more or_ok_one or_ok_more
      simp del: append_assoc)

lemma parsePermissionExpr_grammar:
  assumes "or_expr (strip_spaces expr) v"
  shows "\<exists>m. parsePermissionExpr expr = Inr m \<and> errfree m \<and> val m = v"
proof -
  have "pushes 0 (strip_spaces expr) v 0 0 [] [] []"
    using expr_ok assms by (intro or_pushes) (auto simp: below_def)
  then obtain idx' ops' args' m where
    "parse_loop '''' 0 ([], [], 0) (strip_spaces expr) = Inr (ops', args', 0)"
    "errfree m" "val m = v" "reduce_above 0 ops' args' = Some ([], [m])"
    unfolding pushes_def by (auto simp: parse_loop.simps [where remaining = "[]"])
  then show ?thesis by (simp add: parsePermissionExpr_def processOperand_reduce)
qed

section \<open>Every accepted expression\<close>

lemma count_run_arg: "count_run l xs n a = Some (n', a') \<Longrightarrow> a' \<le> a \<and> (0 \<le> a \<longrightarrow> 0 \<le> a')"
  by (induction l xs n a rule: count_run.induct) (fastforce simp: Let_def split: if_splits)+

lemma count_run_top_arg:
  assumes "count_run x (x # xs) 0 a = Some (n, a')" shows "0 \<le> a' \<and> a' \<le> a"
  using assms by (auto simp: Let_def dest!: count_run_arg split: if_splits)

lemma combine_errfree:
  assumes "\<forall>m \<in> set args. errfree m" "aIdx < length args"
  shows "\<forall>m \<in> set (snd (combine ops args opIdx aIdx)). errfree m"
proof -
  let ?tops = "rev (take (length args - aIdx) args)"
  have "?tops \<noteq> []" using assms(2) by auto
  then obtain t ts where t: "?tops = t # ts" by (cases ?tops) auto
  have "set ?tops \<subseteq> set args" by (auto dest: in_set_takeD)
  with assms(1) t have "\<forall>m \<in> set (t # ts). errfree m" by auto
  then have "errfree t" "errfree (Not_m t)" "errfree (Or_m t ts)" "errfree (And_m t ts)"
    using val_Not val_Or [of t ts] val_And [of t ts] by simp_all
  moreover have "\<forall>m \<in> set (drop (length args - aIdx) args). errfree m"
    using assms(1) by (auto dest: in_set_dropD)
  ultimately show ?thesis unfolding combine_def Let_def t by simp
qed

lemma reduce_above_errfree:
  assumes "\<forall>m \<in> set args. errfree m" "reduce_above q ops args = Some (ops', args')"
  shows "\<forall>m \<in> set args'. errfree m"
  using assms
proof (induction q ops args rule: reduce_above.induct)
  case (2 q x ops args)
  show ?case
  proof (cases "order x \<le> q")
    case True
    with 2 show ?thesis by simp
  next
    case False
    with 2(3) obtain n arg where c: "count_run x (x # ops) 0 (int (length args) - 1) = Some (n, arg)"
      by (auto simp del: count_run.simps split: option.splits)
    have "nat arg < length args"
      using count_run_top_arg [OF c] by linarith
    with 2 False c show ?thesis
      using combine_errfree [OF 2(2)] by (simp add: Let_def del: count_run.simps)
  qed
qed simp

lemma parse_loop_errfree:
  assumes "\<forall>m \<in> set args. errfree m" "parse_loop l idx (ops, args, p) s = Inr (ops', args', p')"
  shows "\<forall>m \<in> set args'. errfree m"
  using assms
proof (induction l idx "(ops, args, p)" s arbitrary: ops args p rule: parse_loop.induct)
  case (1 l idx s ops args p)
  show ?case
  proof (cases "s = ''''")
    case True
    with 1 show ?thesis by (simp add: parse_loop.simps)
  next
    case False
    with 1(3) obtain ops1 args1 p1 where t: "parse_token l idx (ops, args, p) (fst (nextToken s)) = Inr (ops1, args1, p1)"
      by (subst (asm) parse_loop.simps) (auto split: sum.splits)
    then have "\<forall>m \<in> set args1. errfree m"
      using 1(2) val_permission reduce_above_errfree [OF 1(2)]
      by (auto simp: parse_token_def Let_def processOperand_reduce split: if_splits option.splits)
    with 1(1) [OF False t] 1(3) False t show ?thesis by (subst (asm) parse_loop.simps) simp
  qed
qed

lemma parsePermissionExpr_errfree:
  assumes "parsePermissionExpr expr = Inr m" shows "errfree m"
proof -
  from assms obtain ops args x where
    p: "parse_loop '''' 0 ([], [], 0) (strip_spaces expr) = Inr (ops, args, 0)"
    and r: "reduce_above 0 ops args = Some (x, [m])"
    by (auto simp: parsePermissionExpr_def processOperand_reduce split: sum.splits option.splits list.splits if_splits)
  have "\<forall>m \<in> set args. errfree m" by (rule parse_loop_errfree [OF _ p]) simp
  from reduce_above_errfree [OF this r] show ?thesis by simp
qed

section \<open>Properties\<close>

text \<open>C17: The parser agrees with the grammar: an expression that, without its spaces, is a Boolean
  expression over permission names parses, and the matcher it yields holds of a permission map exactly
  when the expression does, without an error.\<close>

theorem permission_expr_meaning:
  assumes "or_expr (strip_spaces expr) v"
  shows "\<exists>m. parsePermissionExpr expr = Inr m \<and> (\<forall>perms. Matches m (IPermissions perms) = (v perms, None))"
  using parsePermissionExpr_grammar [OF assms] by (auto simp: errfree_eval Matches_def)

lemma example_or: "or_expr ''A||B'' (\<lambda>perms. ''A'' \<in> dom perms \<or> ''B'' \<in> dom perms)"
  using or_more [OF or_one [OF and_one [OF perm [of "''A''"]]] and_one [OF perm [of "''B''"]]]
  by (simp add: op_defs permission_name_def)

lemma example_expr:
  "or_expr ''P&&!(A||B)'' (\<lambda>perms. ''P'' \<in> dom perms \<and> \<not> (''A'' \<in> dom perms \<or> ''B'' \<in> dom perms))"
proof -
  have "or_expr (''P'' @ opAnd @ opNot @ opOpen @ ''A||B'' @ opClose)
      (\<lambda>perms. ''P'' \<in> dom perms \<and> \<not> (''A'' \<in> dom perms \<or> ''B'' \<in> dom perms))"
    by (intro or_one and_more and_one perm negation paren example_or) (simp add: permission_name_def)
  then show ?thesis by (simp only: op_defs append.simps)
qed

theorem permission_expr_meaning_witness:
  "\<exists>m. parsePermissionExpr ''P && !(A || B)'' = Inr m
     \<and> (\<forall>perms. Matches m (IPermissions perms) =
          (''P'' \<in> dom perms \<and> \<not> (''A'' \<in> dom perms \<or> ''B'' \<in> dom perms), None))"
proof -
  have "strip_spaces ''P && !(A || B)'' = ''P&&!(A||B)''" by (simp add: strip_spaces_def)
  then show ?thesis using example_expr by (intro permission_expr_meaning) (simp only:)
qed

text \<open>The check for an operator after an operator never fires, because \<^verbatim>\<open>lastToken\<close> is never
  assigned: expressions outside the grammar are accepted, a trailing negation among them, and are given the
  meaning of another expression.\<close>

lemma malformed_expressions_accepted:
  "parsePermissionExpr ''A!&&B'' = parsePermissionExpr ''!A&&B''
   \<and> parsePermissionExpr ''A(&&B)'' = parsePermissionExpr ''A&&B''
   \<and> parsePermissionExpr ''A!&&B'' =
       Inr (And_m (Not_m (NewPermissionMatcher ''A'')) [NewPermissionMatcher ''B''])"
  by (simp add: parsePermissionExpr_def strip_spaces_def parse_loop.simps nextToken_def parse_token_def
      isEndWithOp_def op_defs opTokens_def Let_def processOperand_def operandFromString_def Precedence_def
      combine_def upt_rec)

end
