(* ===== verification/Order.thy ===== *)
theory Order
  imports Prelude "HOL-Library.Product_Lexorder"
begin

text \<open>
  Ordering of framework objects, \<^verbatim>\<open>pkg/utils/order/ordered.go\<close>. An object is seen through the two
  optional interfaces it may implement, \<^verbatim>\<open>PriorityOrdered\<close> and \<^verbatim>\<open>Ordered\<close>; the field is
  \<open>None\<close> where the type assertion of the code fails. Each comparator is translated branch by
  branch; all but the last one are shown to be strict weak orders, so that sorting with them is
  a stable sort.
\<close>

section \<open>Objects and comparators\<close>

record ordered_obj =
  PriorityOrder :: "int option"
  OrderValue :: "int option"

definition Lowest :: int where
  "Lowest = uint (drop_bit 1 (NOT 0 :: 64 word))"

definition Highest :: int where
  "Highest = - Lowest - 1"

definition OrderedFirstCompare :: "ordered_obj \<Rightarrow> ordered_obj \<Rightarrow> bool" where
  "OrderedFirstCompare left right =
     (case (PriorityOrder left, PriorityOrder right) of
        (Some lp, Some rp) \<Rightarrow> lp < rp
      | (Some lp, None) \<Rightarrow> True
      | (None, Some rp) \<Rightarrow> False
      | (None, None) \<Rightarrow>
         (case (OrderValue left, OrderValue right) of
            (Some lo, Some ro) \<Rightarrow> lo < ro
          | (Some lo, None) \<Rightarrow> True
          | (None, Some ro) \<Rightarrow> False
          | (None, None) \<Rightarrow> False))"

definition OrderedFirstCompareReverse :: "ordered_obj \<Rightarrow> ordered_obj \<Rightarrow> bool" where
  "OrderedFirstCompareReverse left right =
     (case (PriorityOrder left, PriorityOrder right) of
        (Some lp, Some rp) \<Rightarrow> lp > rp
      | (Some lp, None) \<Rightarrow> False
      | (None, Some rp) \<Rightarrow> True
      | (None, None) \<Rightarrow>
         (case (OrderValue left, OrderValue right) of
            (Some lo, Some ro) \<Rightarrow> lo > ro
          | (Some lo, None) \<Rightarrow> False
          | (None, Some ro) \<Rightarrow> True
          | (None, None) \<Rightarrow> False))"

definition regular :: "ordered_obj \<Rightarrow> bool" where
  "regular x \<longleftrightarrow> PriorityOrder x = None \<and> OrderValue x = None"

definition OrderedLastCompare :: "ordered_obj \<Rightarrow> ordered_obj \<Rightarrow> bool" where
  "OrderedLastCompare left right =
     (if regular left \<and> regular right then False
      else if regular left then True
      else if regular right then False
      else (case (PriorityOrder left, PriorityOrder right) of
        (Some lp, Some rp) \<Rightarrow> lp < rp
      | (Some lp, None) \<Rightarrow> True
      | (None, Some rp) \<Rightarrow> False
      | (None, None) \<Rightarrow>
         (case (OrderValue left, OrderValue right) of
            (Some lo, Some ro) \<Rightarrow> lo < ro
          | _ \<Rightarrow> False)))"

definition OrderedLastCompareReverse :: "ordered_obj \<Rightarrow> ordered_obj \<Rightarrow> bool" where
  "OrderedLastCompareReverse left right =
     (if regular left \<and> regular right then False
      else if regular left then False
      else if regular right then True
      else (case (PriorityOrder left, PriorityOrder right) of
        (Some lp, Some rp) \<Rightarrow> lp > rp
      | (Some lp, None) \<Rightarrow> False
      | (None, Some rp) \<Rightarrow> True
      | (None, None) \<Rightarrow>
         (case (OrderValue left, OrderValue right) of
            (Some lo, Some ro) \<Rightarrow> lo > ro
          | _ \<Rightarrow> False)))"

definition UnorderedMiddleCompare :: "ordered_obj \<Rightarrow> ordered_obj \<Rightarrow> bool" where
  "UnorderedMiddleCompare left right =
     (case (PriorityOrder left, PriorityOrder right) of
        (Some lp, Some rp) \<Rightarrow> lp < rp
      | (Some lp, None) \<Rightarrow> True
      | (None, Some rp) \<Rightarrow> False
      | (None, None) \<Rightarrow>
         (case (OrderValue left, OrderValue right) of
            (None, None) \<Rightarrow> False
          | (None, Some ro) \<Rightarrow> True
          | (Some lo, None) \<Rightarrow> False
          | (Some lo, Some ro) \<Rightarrow> lo < ro))"

definition UnorderedMiddleCompareReverse :: "ordered_obj \<Rightarrow> ordered_obj \<Rightarrow> bool" where
  "UnorderedMiddleCompareReverse left right = (\<not> UnorderedMiddleCompare left right)"

definition SortStable :: "('a \<Rightarrow> ordered_obj) \<Rightarrow> (ordered_obj \<Rightarrow> ordered_obj \<Rightarrow> bool) \<Rightarrow> 'a list \<Rightarrow> 'a list" where
  "SortStable view compareFunc items = SliceStable (\<lambda>a b. compareFunc (view a) (view b)) items"

lemmas [order_simps] =
  OrderedFirstCompare_def OrderedFirstCompareReverse_def OrderedLastCompare_def
  OrderedLastCompareReverse_def UnorderedMiddleCompare_def regular_def

lemma Lowest_eq: "Lowest = 9223372036854775807"
  unfolding Lowest_def by code_simp

lemma Highest_eq: "Highest = - 9223372036854775808"
  by (simp add: Highest_def Lowest_eq)

section \<open>Ranks: what the comparators compare\<close>

text \<open>
  Each comparator is the strict order of a rank: the group an object falls into, then its value
  in the group, compared lexicographically.
\<close>

definition rank_ordered_first :: "ordered_obj \<Rightarrow> nat \<times> int" where
  "rank_ordered_first x =
     (case PriorityOrder x of Some p \<Rightarrow> (0, p)
      | None \<Rightarrow> (case OrderValue x of Some v \<Rightarrow> (1, v) | None \<Rightarrow> (2, 0)))"

definition rank_ordered_last :: "ordered_obj \<Rightarrow> nat \<times> int" where
  "rank_ordered_last x =
     (case PriorityOrder x of Some p \<Rightarrow> (1, p)
      | None \<Rightarrow> (case OrderValue x of Some v \<Rightarrow> (2, v) | None \<Rightarrow> (0, 0)))"

definition rank_unordered_middle :: "ordered_obj \<Rightarrow> nat \<times> int" where
  "rank_unordered_middle x =
     (case PriorityOrder x of Some p \<Rightarrow> (0, p)
      | None \<Rightarrow> (case OrderValue x of Some v \<Rightarrow> (2, v) | None \<Rightarrow> (1, 0)))"

lemma OrderedFirstCompare_rank:
  "OrderedFirstCompare l r \<longleftrightarrow> rank_ordered_first l < rank_ordered_first r"
  by (simp add: order_simps rank_ordered_first_def split: option.split)

lemma OrderedFirstCompareReverse_rank:
  "OrderedFirstCompareReverse l r \<longleftrightarrow> rank_ordered_first r < rank_ordered_first l"
  by (simp add: order_simps rank_ordered_first_def split: option.split)

lemma OrderedLastCompare_rank:
  "OrderedLastCompare l r \<longleftrightarrow> rank_ordered_last l < rank_ordered_last r"
  by (simp add: order_simps rank_ordered_last_def split: option.split)

lemma OrderedLastCompareReverse_rank:
  "OrderedLastCompareReverse l r \<longleftrightarrow> rank_ordered_last r < rank_ordered_last l"
  by (simp add: order_simps rank_ordered_last_def split: option.split)

lemma UnorderedMiddleCompare_rank:
  "UnorderedMiddleCompare l r \<longleftrightarrow> rank_unordered_middle l < rank_unordered_middle r"
  by (simp add: order_simps rank_unordered_middle_def split: option.split)

lemmas compare_ranks =
  OrderedFirstCompare_rank OrderedFirstCompareReverse_rank OrderedLastCompare_rank
  OrderedLastCompareReverse_rank UnorderedMiddleCompare_rank

section \<open>Sorting with a strict weak order\<close>

text \<open>What \<^verbatim>\<open>SortStable\<close> promises a caller, proved once for every strict weak order.\<close>

locale stable_compare = strict_weak_order cmp for cmp :: "ordered_obj \<Rightarrow> ordered_obj \<Rightarrow> bool"
begin

lemma keyed: "strict_weak_order (\<lambda>a b. cmp (view a) (view b))"
  by unfold_locales (auto simp: irrefl dest: trans negtrans)

lemma sorts: "sorted_wrt (\<lambda>a b. \<not> cmp (view b) (view a)) (SortStable view cmp xs)"
  using strict_weak_order.SliceStable_sorted [OF keyed] by (simp add: SortStable_def)

lemma keeps_ties: "filter (\<lambda>b. equiv (view a) (view b)) (SortStable view cmp xs) =
    filter (\<lambda>b. equiv (view a) (view b)) xs"
  using strict_weak_order.SliceStable_stable [OF keyed, of view a xs]
  by (simp add: SortStable_def equiv_def [abs_def] strict_weak_order.equiv_def [OF keyed, abs_def])

lemma permutes: "mset (SortStable view cmp xs) = mset xs"
  by (simp add: SortStable_def)

lemma keeps_ties_rank:
  assumes rank: "\<And>l r. equiv l r \<longleftrightarrow> rank l = rank r"
  shows "filter (\<lambda>b. rank (view b) = k) (SortStable view cmp xs) = filter (\<lambda>b. rank (view b) = k) xs"
proof (cases "\<exists>a \<in> set xs. rank (view a) = k")
  case True
  then obtain a where "rank (view a) = k" by blast
  with keeps_ties [of view a xs] show ?thesis by (simp add: rank eq_commute)
next
  case False
  then show ?thesis by (auto simp: SortStable_def filter_empty_conv)
qed

end

interpretation ordered_first: stable_compare OrderedFirstCompare
  by unfold_locales (auto simp: compare_ranks)

interpretation ordered_first_rev: stable_compare OrderedFirstCompareReverse
  by unfold_locales (auto simp: compare_ranks)

interpretation ordered_last: stable_compare OrderedLastCompare
  by unfold_locales (auto simp: compare_ranks)

interpretation ordered_last_rev: stable_compare OrderedLastCompareReverse
  by unfold_locales (auto simp: compare_ranks)

interpretation unordered_middle: stable_compare UnorderedMiddleCompare
  by unfold_locales (auto simp: compare_ranks)


lemma SortStable_constant:
  assumes "\<And>a b. a \<in> set xs \<Longrightarrow> b \<in> set xs \<Longrightarrow> cmp (view a) (view b)"
  shows "SortStable view cmp xs = rev xs"
proof -
  have shift: "shift_back lt x acc = acc @ [x]" if "\<forall>b \<in> set acc. lt x b" for lt and x :: 'a and acc
    using that by (induction acc) auto
  have "insertion_loop (\<lambda>a b. cmp (view a) (view b)) acc ys = acc @ ys"
    if "set acc \<subseteq> set xs" "set ys \<subseteq> set xs" for acc ys
    using that
  proof (induction ys arbitrary: acc)
    case (Cons y ys)
    then have "shift_back (\<lambda>a b. cmp (view a) (view b)) y acc = acc @ [y]"
      by (intro shift) (auto intro: assms)
    with Cons show ?case by simp
  qed simp
  from this [of "[]" xs] show ?thesis by (simp add: SortStable_def SliceStable_def)
qed

section \<open>Properties\<close>

text \<open>C24: Sorting with \<^verbatim>\<open>OrderedFirstCompare\<close> permutes the slice, puts priority ordered objects
  first, then ordered ones, then the rest, each group by ascending value, and keeps the original
  order among objects of equal rank; \<^verbatim>\<open>OrderedFirstCompareReverse\<close> does the same with descending
  rank, again keeping the original order of ties.\<close>

theorem sort_ordered_first:
  "mset (SortStable view OrderedFirstCompare xs) = mset xs
   \<and> sorted (map (rank_ordered_first \<circ> view) (SortStable view OrderedFirstCompare xs))
   \<and> filter (\<lambda>b. rank_ordered_first (view b) = k) (SortStable view OrderedFirstCompare xs) =
        filter (\<lambda>b. rank_ordered_first (view b) = k) xs
   \<and> mset (SortStable view OrderedFirstCompareReverse xs) = mset xs
   \<and> sorted (rev (map (rank_ordered_first \<circ> view) (SortStable view OrderedFirstCompareReverse xs)))
   \<and> filter (\<lambda>b. rank_ordered_first (view b) = k) (SortStable view OrderedFirstCompareReverse xs) =
        filter (\<lambda>b. rank_ordered_first (view b) = k) xs"
proof -
  have tie: "ordered_first.equiv l r \<longleftrightarrow> rank_ordered_first l = rank_ordered_first r"
    "ordered_first_rev.equiv l r \<longleftrightarrow> rank_ordered_first l = rank_ordered_first r" for l r
    by (auto simp: ordered_first.equiv_def ordered_first_rev.equiv_def compare_ranks)
  show ?thesis
    using ordered_first.sorts [of view xs] ordered_first_rev.sorts [of view xs]
      ordered_first.keeps_ties_rank [OF tie(1), of view k xs]
      ordered_first_rev.keeps_ties_rank [OF tie(2), of view k xs]
    by (simp add: ordered_first.permutes ordered_first_rev.permutes compare_ranks sorted_wrt_map
        sorted_wrt_rev not_less rev_map)
qed

text \<open>\<^verbatim>\<open>UnorderedMiddleCompareReverse\<close> is not the reverse of \<^verbatim>\<open>UnorderedMiddleCompare\<close> but its
  complement: it holds of any object and itself, so it is no order a sort can use, and a stable sort of
  objects without an order (of one insertion block, 20 elements) returns them in reversed order.\<close>

lemma unordered_middle_reverse_unstable:
  assumes "\<And>a. a \<in> set xs \<Longrightarrow> regular (view a)" and "length xs \<le> 20"
  shows "UnorderedMiddleCompareReverse x x \<and> SortStable view UnorderedMiddleCompareReverse xs = rev xs"
  using assms
  by (auto simp: UnorderedMiddleCompareReverse_def compare_ranks rank_unordered_middle_def regular_def
      intro!: SortStable_constant)

end
