(* ===== verification/Access.thy ===== *)
theory Access
  imports Permission_Expr Order
begin

text \<open>
  Access control of web requests: the control functions of \<^verbatim>\<open>pkg/security/access\<close> (\<^verbatim>\<open>permissions.go\<close>,
  \<^verbatim>\<open>feature.go\<close>), the decision makers (\<^verbatim>\<open>access.go\<close>), the conditions (\<^verbatim>\<open>condition.go\<close>), the rule list
  and its configuration (\<^verbatim>\<open>feature.go\<close>, \<^verbatim>\<open>configurer.go\<close>) and the middleware (\<^verbatim>\<open>middleware.go\<close>).

  An error made on the way has an address, the argument \<open>a\<close> of the definitions that make one. A rule is
  referred to by its index in the list, where the code holds a pointer to it. A rule whose control
  function was never set has \<open>None\<close> there, and calling it is the outcome \<open>Panic\<close>.
\<close>

section \<open>Control functions\<close>

type_synonym control_func = "authentication \<Rightarrow> bool \<times> goerr option"

definition denial :: "nat \<Rightarrow> authentication \<Rightarrow> bool \<times> goerr option" where
  "denial a auth =
     (if State auth < StatePrincipalKnown then (False, Some (NewInsufficientAuthError a (TextItem ''not authenticated'') []))
      else if State auth < StateAuthenticated then (False, Some (NewInsufficientAuthError a (TextItem ''not fully authenticated'') []))
      else (False, Some (NewAccessDeniedError a (TextItem ''access denied'') [])))"

definition HasPermissions_control :: "nat \<Rightarrow> string list \<Rightarrow> control_func" where
  "HasPermissions_control a permissions =
     (\<lambda>auth. if State auth > StateAnonymous \<and> HasPermissions auth permissions then (True, None)
             else denial a auth)"

text \<open>A bad expression panics; the panic value carries the expression without spaces and the error.\<close>

definition HasPermissionsWithExpr :: "nat \<Rightarrow> string \<Rightarrow> (string \<times> parse_error) + control_func" where
  "HasPermissionsWithExpr a expr =
     (case parsePermissionExpr expr of
        Inl e \<Rightarrow> Inl (strip_spaces expr, e)
      | Inr m \<Rightarrow> Inr (\<lambda>auth.
          if State auth > StateAnonymous \<and> HasPermissions auth [SpecialPermissionAPIAdmin] then (True, None)
          else if State auth > StateAnonymous \<and> Matches m (IPermissions (Permissions auth)) = (True, None)
            then (True, None)
          else denial a auth))"

definition PermitAll :: control_func where
  "PermitAll auth = (True, None)"

definition DenyAll :: control_func where
  "DenyAll auth = (False, None)"

definition Authenticated :: "nat \<Rightarrow> control_func" where
  "Authenticated a auth =
     (if State auth \<ge> StateAuthenticated then (True, None)
      else (False, Some (NewInsufficientAuthError a (TextItem ''not fully authenticated'') [])))"

section \<open>Decision makers\<close>

record sec_context = go_context +
  SecAuth :: "authentication option"

datatype outcome = Decided (handled: bool) (decision: "goerr option") | Panic

type_synonym decision_maker = "sec_context \<Rightarrow> request \<Rightarrow> outcome"

definition acr_match :: "matcher \<Rightarrow> sec_context \<Rightarrow> request \<Rightarrow> match_result" where
  "acr_match m ctx r = MatchesWithContext (go_context.truncate ctx) m (IRequest r)"

definition MakeDecisionMakerFunc :: "nat \<Rightarrow> matcher \<Rightarrow> control_func option \<Rightarrow> decision_maker" where
  "MakeDecisionMakerFunc a m cf = (\<lambda>ctx r.
     case acr_match m ctx r of (matches, err) \<Rightarrow>
       if \<not> matches \<or> err \<noteq> None then Decided False (map_option (PlainError a) err)
       else
         (case cf of
            None \<Rightarrow> Panic
          | Some f \<Rightarrow>
             (case f (security_Get (SecAuth ctx)) of
                (True, _) \<Rightarrow> Decided True None
              | (False, Some reason) \<Rightarrow> Decided True (Some reason)
              | (False, None) \<Rightarrow> Decided True (Some (NewAccessDeniedError a (TextItem ''access denied'') [])))))"

definition WrapDecisionMakerFunc :: "nat \<Rightarrow> matcher \<Rightarrow> decision_maker \<Rightarrow> decision_maker" where
  "WrapDecisionMakerFunc a m dmf = (\<lambda>ctx r.
     case acr_match m ctx r of (matches, err) \<Rightarrow>
       if \<not> matches \<or> err \<noteq> None then Decided False (map_option (PlainError a) err)
       else dmf ctx r)"

text \<open>A condition of a route: \<^verbatim>\<open>ConditionWithControlFunc\<close>, and \<^verbatim>\<open>RequirePermissions\<close>.\<close>

record control_condition =
  Description :: string
  ControlFunc :: control_func

definition condition_MatchesWithContext :: "control_condition \<Rightarrow> sec_context \<Rightarrow> iface \<Rightarrow> bool \<times> goerr option" where
  "condition_MatchesWithContext m c i = ControlFunc m (security_Get (SecAuth c))"

definition condition_Matches :: "control_condition \<Rightarrow> iface \<Rightarrow> bool \<times> goerr option" where
  "condition_Matches m i = condition_MatchesWithContext m \<lparr>ContextPath = '''', SecAuth = None\<rparr> i"

definition condition_String :: "control_condition \<Rightarrow> string" where
  "condition_String m = (if length (Description m) \<noteq> 0 then Description m else ''access.ControlCondition'')"

definition RequirePermissions :: "nat \<Rightarrow> string \<Rightarrow> (string \<times> parse_error) + control_condition" where
  "RequirePermissions a expr =
     map_sum id (\<lambda>cf. \<lparr>Description = ''user's permissions match ['' @ expr @ '']'', ControlFunc = cf\<rparr>)
       (HasPermissionsWithExpr a expr)"

section \<open>The rule list\<close>

record access_control =
  ac_order :: int
  ac_matcher :: matcher
  ac_control :: "control_func option"
  ac_custom :: "decision_maker option"

type_synonym feature = "access_control list"

definition Request :: "matcher \<Rightarrow> feature \<Rightarrow> feature" where
  "Request m acl = acl @ [\<lparr>ac_order = 0, ac_matcher = m, ac_control = None, ac_custom = None\<rparr>]"

definition WithOrder :: "nat \<Rightarrow> int \<Rightarrow> feature \<Rightarrow> feature" where
  "WithOrder i n acl = acl[i := (acl ! i)\<lparr>ac_order := n\<rparr>]"

definition AllowIf :: "nat \<Rightarrow> control_func \<Rightarrow> feature \<Rightarrow> feature" where
  "AllowIf i cf acl = acl[i := (acl ! i)\<lparr>ac_control := Some cf\<rparr>]"

definition CustomDecisionMaker :: "nat \<Rightarrow> decision_maker \<Rightarrow> feature \<Rightarrow> feature" where
  "CustomDecisionMaker i dmf acl = acl[i := (acl ! i)\<lparr>ac_custom := Some dmf\<rparr>]"

definition ac_view :: "access_control \<Rightarrow> ordered_obj" where
  "ac_view ac = \<lparr>PriorityOrder = None, OrderValue = Some (ac_order ac)\<rparr>"

definition validate :: "feature \<Rightarrow> feature" where
  "validate acl =
     (if length acl = 0 then AllowIf (length acl) DenyAll (Request AnyRequest acl) else acl)"

definition decision_maker_of :: "nat \<Rightarrow> access_control \<Rightarrow> decision_maker" where
  "decision_maker_of a ac =
     (case ac_custom ac of
        Some custom \<Rightarrow> WrapDecisionMakerFunc a (ac_matcher ac) custom
      | None \<Rightarrow> MakeDecisionMakerFunc a (ac_matcher ac) (ac_control ac))"

definition Apply_acl :: "nat \<Rightarrow> feature \<Rightarrow> decision_maker list" where
  "Apply_acl a acl = map (decision_maker_of a) (SortStable ac_view OrderedFirstCompare (validate acl))"

section \<open>The middleware\<close>

datatype ac_result = Next | Abort goerr | Panicked

fun decide_loop :: "decision_maker list \<Rightarrow> sec_context \<Rightarrow> request \<Rightarrow> goerr option \<Rightarrow> goerr option option" where
  "decide_loop [] ctx r err = Some err"
| "decide_loop (d # ds) ctx r err =
     (case d ctx r of
        Panic \<Rightarrow> None
      | Decided hdl e \<Rightarrow> if hdl then Some e else decide_loop ds ctx r e)"

definition ACHandlerFunc :: "decision_maker list \<Rightarrow> sec_context \<Rightarrow> request \<Rightarrow> ac_result" where
  "ACHandlerFunc ds ctx r =
     (case decide_loop ds ctx r None of
        None \<Rightarrow> Panicked
      | Some (Some err) \<Rightarrow> Abort err
      | Some None \<Rightarrow> Next)"

section \<open>Lemmas\<close>

lemma sort_acl:
  "SortStable ac_view OrderedFirstCompare (acl :: feature) = sort_key ac_order acl"
proof (rule properties_for_sort_key [symmetric])
  show "mset (SortStable ac_view OrderedFirstCompare acl) = mset acl"
    by (rule ordered_first.permutes)
next
  fix k :: access_control
  have "ordered_first.equiv (ac_view x) (ac_view y) \<longleftrightarrow> ac_order x = ac_order y" for x y
    by (auto simp: ordered_first.equiv_def OrderedFirstCompare_def ac_view_def)
  then show "filter (\<lambda>x. ac_order k = ac_order x) (SortStable ac_view OrderedFirstCompare acl) =
      filter (\<lambda>x. ac_order k = ac_order x) acl"
    using ordered_first.keeps_ties [of ac_view k acl] by simp
next
  show "sorted (map ac_order (SortStable ac_view OrderedFirstCompare acl))"
    using ordered_first.sorts [of ac_view acl]
    by (auto simp: sorted_wrt_map OrderedFirstCompare_def ac_view_def elim!: sorted_wrt_mono_rel [rotated])
qed

lemma decide_loop_append_unhandled:
  assumes "d ctx r = Decided False e" "ds2 \<noteq> []"
  shows "decide_loop (ds1 @ d # ds2) ctx r err = decide_loop (ds1 @ ds2) ctx r err"
proof (induction ds1 arbitrary: err)
  case Nil
  from assms show ?case by (cases ds2) (auto split: outcome.split)
qed (simp split: outcome.split)

lemma decide_loop_rules:
  assumes "\<And>ac. ac \<in> set acl \<Longrightarrow> snd (acr_match (ac_matcher ac) ctx r) = None \<and> ac_custom ac = None"
  shows "decide_loop (map (decision_maker_of a) acl) ctx r None =
    (case find (\<lambda>ac. fst (acr_match (ac_matcher ac) ctx r)) acl of
       None \<Rightarrow> Some None
     | Some ac \<Rightarrow> (case decision_maker_of a ac ctx r of Panic \<Rightarrow> None | Decided h e \<Rightarrow> Some e))"
  using assms
proof (induction acl)
  case (Cons ac acl)
  from Cons.prems [of ac] have m: "acr_match (ac_matcher ac) ctx r = (fst (acr_match (ac_matcher ac) ctx r), None)"
    "ac_custom ac = None" by (auto simp: prod_eq_iff)
  show ?case
  proof (cases "fst (acr_match (ac_matcher ac) ctx r)")
    case True
    with m have m': "acr_match (ac_matcher ac) ctx r = (True, None)" by simp
    show ?thesis
      by (simp add: m' decision_maker_of_def m(2) MakeDecisionMakerFunc_def split: option.split prod.split bool.split)
  next
    case False
    with m have m': "acr_match (ac_matcher ac) ctx r = (False, None)" by simp
    with Cons show ?thesis by (simp add: decision_maker_of_def m(2) MakeDecisionMakerFunc_def)
  qed
qed simp

lemma AnyRequest_matches: "acr_match AnyRequest ctx r = (True, None)"
  by (simp add: acr_match_def AnyRequest_def wrapAsRequestMatcher_def interfaceToRequest_def Any_m_def)

section \<open>Properties\<close>

definition rule :: "int \<Rightarrow> matcher \<Rightarrow> control_func \<Rightarrow> access_control" where
  "rule n m cf = \<lparr>ac_order = n, ac_matcher = m, ac_control = Some cf, ac_custom = None\<rparr>"

definition sample_request :: request where
  "sample_request = \<lparr>Host = '''', Method = ''GET'', URLPath = ''/app/api'', HeaderGet = (\<lambda>_. ''''),
     ParseForm = None, FormGet = (\<lambda>_. ''''), FormValue = (\<lambda>_. ''''), PostFormValue = (\<lambda>_. '''')\<rparr>"

definition sample_context :: sec_context where
  "sample_context = \<lparr>ContextPath = ''/app'', SecAuth = None\<rparr>"

lemma sample_matches:
  "acr_match (RequestWithPrefix ''/api'' []) sample_context sample_request = (True, None)"
  by (simp add: acr_match_def RequestWithPrefix_def eval_path_and_methods WithPrefix_def stringMatcher_def
      MatchPrefix_def strings_TrimPrefix_def strings_HasPrefix_def strings_ToLower_def sample_context_def
      sample_request_def go_context.truncate_def)


text \<open>Access control that was enabled without a rule denies every request of every user.\<close>

lemma no_rules_deny_all:
  "ACHandlerFunc (Apply_acl a []) ctx r = Abort (NewAccessDeniedError a (TextItem ''access denied'') [])"
  by (simp add: ACHandlerFunc_def Apply_acl_def validate_def Request_def AllowIf_def sort_acl
      decision_maker_of_def MakeDecisionMakerFunc_def AnyRequest_matches DenyAll_def)

text \<open>An error of a rule's request matcher has no effect unless the rule is the last one: the loop
  overwrites it, and the request is decided as if the rule were not there. As the last rule, the same
  error aborts the request.\<close>

lemma matcher_error_of_earlier_rule_is_dropped:
  assumes "d ctx r = Decided False (Some e)" and "ds2 \<noteq> []"
  shows "ACHandlerFunc (ds1 @ d # ds2) ctx r = ACHandlerFunc (ds1 @ ds2) ctx r
    \<and> ACHandlerFunc [d] ctx r = Abort e"
  using assms by (simp add: ACHandlerFunc_def decide_loop_append_unhandled)

definition failing_matcher :: matcher where
  "failing_matcher = FuncMatcher ''failing'' (\<lambda>_ _. (False, Some ''no data''))"

text \<open>C18: The control function of a well-formed expression grants access exactly to users who are at
  least known and either are API administrators or satisfy the expression. The reason of a denial
  depends on the authentication state only.\<close>

theorem permission_expr_control:
  assumes "or_expr (strip_spaces expr) v"
  shows "\<exists>cf. HasPermissionsWithExpr a expr = Inr cf
    \<and> (\<forall>auth. cf auth =
        (if State auth \<noteq> StateAnonymous
            \<and> (SpecialPermissionAPIAdmin \<in> dom (Permissions auth) \<or> v (Permissions auth)) then (True, None)
         else (False, Some (case State auth of
            StateAnonymous \<Rightarrow> NewInsufficientAuthError a (TextItem ''not authenticated'') []
          | StatePrincipalKnown \<Rightarrow> NewInsufficientAuthError a (TextItem ''not fully authenticated'') []
          | StateAuthenticated \<Rightarrow> NewAccessDeniedError a (TextItem ''access denied'') []))))"
proof -
  obtain m where m: "parsePermissionExpr expr = Inr m" "errfree m" "val m = v"
    using parsePermissionExpr_grammar [OF assms] by blast
  then have "Matches m (IPermissions perms) = (v perms, None)" for perms
    using errfree_eval [OF m(2)] by (simp add: Matches_def)
  with m(1) show ?thesis
    by (auto simp: HasPermissionsWithExpr_def denial_def Permissions_Has_def state_order split: auth_state.split)
qed

theorem permission_expr_control_witness:
  "\<exists>cf. HasPermissionsWithExpr 3 ''A || B'' = Inr cf
     \<and> cf \<lparr>Principal = StringPrincipal ''u'', Permissions = [''B'' \<mapsto> PermTrue], State = StateAuthenticated,
            Details = NilDetails\<rparr> = (True, None)"
proof -
  have "strip_spaces ''A || B'' = ''A||B''" by (simp add: strip_spaces_def)
  then have "or_expr (strip_spaces ''A || B'') (\<lambda>perms. ''A'' \<in> dom perms \<or> ''B'' \<in> dom perms)"
    using example_or by (simp only:)
  from permission_expr_control [OF this, of 3] show ?thesis by fastforce
qed

end
