(* ===== verification/Sets.thy ===== *)
theory Sets
  imports Prelude
begin

text \<open>
  The sets of \<^verbatim>\<open>pkg/utils/sets.go\<close>: \<^verbatim>\<open>StringSet\<close>, \<^verbatim>\<open>Set\<close> and \<^verbatim>\<open>GenericSet\<close>, Go maps with empty
  values. A map is the list of its keys, each once, in the order a \<^verbatim>\<open>range\<close> loop visits them; nothing
  depends on which order that is. The elements of a \<^verbatim>\<open>Set\<close> are dynamically typed (\<open>dyn\<close>). The locale
  \<open>go_set\<close> states what the three types promise and is interpreted for each.
\<close>

section \<open>Go maps used as sets\<close>

definition map_put :: "'a list \<Rightarrow> 'a \<Rightarrow> 'a list" where
  "map_put s k = (if k \<in> set s then s else s @ [k])"

definition map_delete :: "'a list \<Rightarrow> 'a \<Rightarrow> 'a list" where
  "map_delete s k = filter (\<lambda>x. x \<noteq> k) s"

section \<open>StringSet\<close>

type_synonym StringSet = "string list"

definition StringSet_Add :: "StringSet \<Rightarrow> string list \<Rightarrow> StringSet" where
  "StringSet_Add s values = foldl map_put s values"

definition NewStringSet :: "string list \<Rightarrow> StringSet" where
  "NewStringSet values = StringSet_Add [] values"

definition StringSet_Remove :: "StringSet \<Rightarrow> string list \<Rightarrow> StringSet" where
  "StringSet_Remove s values = foldl map_delete s values"

definition StringSet_Has :: "StringSet \<Rightarrow> string \<Rightarrow> bool" where
  "StringSet_Has s v = (v \<in> set s)"

fun StringSet_HasAll :: "StringSet \<Rightarrow> string list \<Rightarrow> bool" where
  "StringSet_HasAll s [] = True"
| "StringSet_HasAll s (v # vs) = (if \<not> StringSet_Has s v then False else StringSet_HasAll s vs)"

definition StringSet_Equals :: "StringSet \<Rightarrow> StringSet \<Rightarrow> bool" where
  "StringSet_Equals s another =
     (if length s \<noteq> length another then False
      else if length s = 0 \<and> length another = 0 then True
      else StringSet_HasAll s another)"

definition StringSet_Values :: "StringSet \<Rightarrow> string list" where
  "StringSet_Values s = s"

definition StringSet_Copy :: "StringSet \<Rightarrow> StringSet" where
  "StringSet_Copy s = foldl map_put (NewStringSet []) s"

section \<open>Set\<close>

datatype dyn = DString string | DOther nat

type_synonym Set = "dyn list"

definition Set_Add :: "Set \<Rightarrow> dyn list \<Rightarrow> Set" where
  "Set_Add s values = foldl map_put s values"

definition NewSet :: "dyn list \<Rightarrow> Set" where
  "NewSet values = Set_Add [] values"

definition Set_Remove :: "Set \<Rightarrow> dyn list \<Rightarrow> Set" where
  "Set_Remove s values = foldl map_delete s values"

definition Set_Has :: "Set \<Rightarrow> dyn \<Rightarrow> bool" where
  "Set_Has s v = (v \<in> set s)"

fun Set_HasAll :: "Set \<Rightarrow> dyn list \<Rightarrow> bool" where
  "Set_HasAll s [] = True"
| "Set_HasAll s (v # vs) = (if \<not> Set_Has s v then False else Set_HasAll s vs)"

definition Set_Equals :: "Set \<Rightarrow> Set \<Rightarrow> bool" where
  "Set_Equals s another =
     (if length s \<noteq> length another then False
      else if length s = 0 \<and> length another = 0 then True
      else Set_HasAll s another)"

definition Set_Values :: "Set \<Rightarrow> dyn list" where
  "Set_Values s = s"

definition Set_Copy :: "Set \<Rightarrow> Set" where
  "Set_Copy s = foldl map_put (NewSet []) s"

section \<open>Conversions\<close>

definition strings_of :: "dyn list \<Rightarrow> string list" where
  "strings_of ds = concat (map (\<lambda>d. case d of DString s \<Rightarrow> [s] | DOther _ \<Rightarrow> []) ds)"

definition NewStringSetFromSet :: "Set \<Rightarrow> StringSet" where
  "NewStringSetFromSet s = foldl map_put [] (strings_of s)"

definition NewSetFromStringSet :: "StringSet \<Rightarrow> Set" where
  "NewSetFromStringSet s = foldl map_put (NewSet []) (map DString s)"

datatype set_source = FromStringSet StringSet | FromSet Set | FromStrings "string list"
  | FromSlice "dyn list" | FromUnsupported nat

text \<open>The loop of \<^verbatim>\<open>Equals\<close> over the keys of the other set is that of \<^verbatim>\<open>HasAll\<close>. The \<^verbatim>\<open>panic\<close> of an unsupported type is \<open>None\<close>.\<close>

fun NewStringSetFrom :: "set_source \<Rightarrow> StringSet option" where
  "NewStringSetFrom (FromStringSet s) = Some (StringSet_Copy s)"
| "NewStringSetFrom (FromSet s) = Some (NewStringSetFromSet s)"
| "NewStringSetFrom (FromStrings vs) = Some (NewStringSet vs)"
| "NewStringSetFrom (FromSlice vs) = Some (NewStringSet (strings_of vs))"
| "NewStringSetFrom (FromUnsupported _) = None"

fun NewSetFrom :: "set_source \<Rightarrow> Set option" where
  "NewSetFrom (FromStringSet s) = Some (NewSetFromStringSet s)"
| "NewSetFrom (FromSet s) = Some (Set_Copy s)"
| "NewSetFrom (FromStrings vs) = Some (NewSet (map DString vs))"
| "NewSetFrom (FromSlice vs) = Some (NewSet vs)"
| "NewSetFrom (FromUnsupported _) = None"

section \<open>GenericSet\<close>

type_synonym 'a GenericSet = "'a list"

definition GenericSet_Add :: "'a GenericSet \<Rightarrow> 'a list \<Rightarrow> 'a GenericSet" where
  "GenericSet_Add s values = foldl map_put s values"

definition NewGenericSet :: "'a list \<Rightarrow> 'a GenericSet" where
  "NewGenericSet values = GenericSet_Add [] values"

definition GenericSet_Remove :: "'a GenericSet \<Rightarrow> 'a list \<Rightarrow> 'a GenericSet" where
  "GenericSet_Remove s values = foldl map_delete s values"

definition GenericSet_Has :: "'a GenericSet \<Rightarrow> 'a \<Rightarrow> bool" where
  "GenericSet_Has s v = (v \<in> set s)"

fun GenericSet_HasAll :: "'a GenericSet \<Rightarrow> 'a list \<Rightarrow> bool" where
  "GenericSet_HasAll s [] = True"
| "GenericSet_HasAll s (v # vs) = (if \<not> GenericSet_Has s v then False else GenericSet_HasAll s vs)"

definition GenericSet_Equals :: "'a GenericSet \<Rightarrow> 'a GenericSet \<Rightarrow> bool" where
  "GenericSet_Equals s another =
     (if length s \<noteq> length another then False
      else if length s = 0 \<and> length another = 0 then True
      else GenericSet_HasAll s another)"

definition GenericSet_Values :: "'a GenericSet \<Rightarrow> 'a list" where
  "GenericSet_Values s = s"

definition GenericSet_Copy :: "'a GenericSet \<Rightarrow> 'a GenericSet" where
  "GenericSet_Copy s = foldl map_put (NewGenericSet []) s"

section \<open>The contract of a set\<close>

lemma map_put_laws [simp]: "distinct s \<Longrightarrow> distinct (map_put s k)" "set (map_put s k) = insert k (set s)"
  by (auto simp: map_put_def)

lemma map_delete_laws [simp]: "distinct s \<Longrightarrow> distinct (map_delete s k)" "set (map_delete s k) = set s - {k}"
  by (auto simp: map_delete_def)

lemma foldl_map_put: "distinct s \<Longrightarrow> distinct (foldl map_put s vs) \<and> set (foldl map_put s vs) = set s \<union> set vs"
  by (induction vs arbitrary: s) auto

lemma foldl_map_delete: "distinct s \<Longrightarrow> distinct (foldl map_delete s vs) \<and> set (foldl map_delete s vs) = set s - set vs"
  by (induction vs arbitrary: s) auto

text \<open>
  \<open>wf\<close> is the invariant of a Go map and \<open>elems\<close> the set it stands for; \<open>vals\<close> lists its keys.
\<close>

locale go_set =
  fixes wf :: "'s \<Rightarrow> bool" and elems :: "'s \<Rightarrow> 'a set"
    and mk :: "'a list \<Rightarrow> 's" and add :: "'s \<Rightarrow> 'a list \<Rightarrow> 's" and remove :: "'s \<Rightarrow> 'a list \<Rightarrow> 's"
    and has :: "'s \<Rightarrow> 'a \<Rightarrow> bool" and has_all :: "'s \<Rightarrow> 'a list \<Rightarrow> bool"
    and eq :: "'s \<Rightarrow> 's \<Rightarrow> bool" and vals :: "'s \<Rightarrow> 'a list" and copy :: "'s \<Rightarrow> 's"
  assumes mk: "wf (mk vs) \<and> elems (mk vs) = set vs"
    and add: "wf s \<Longrightarrow> wf (add s vs) \<and> elems (add s vs) = elems s \<union> set vs"
    and remove: "wf s \<Longrightarrow> wf (remove s vs) \<and> elems (remove s vs) = elems s - set vs"
    and has: "wf s \<Longrightarrow> has s v \<longleftrightarrow> v \<in> elems s"
    and has_all: "wf s \<Longrightarrow> has_all s vs \<longleftrightarrow> set vs \<subseteq> elems s"
    and eq: "wf s \<Longrightarrow> wf t \<Longrightarrow> eq s t \<longleftrightarrow> elems s = elems t"
    and vals: "wf s \<Longrightarrow> distinct (vals s) \<and> set (vals s) = elems s"
    and copy: "wf s \<Longrightarrow> wf (copy s) \<and> elems (copy s) = elems s"
begin

lemma laws: "has (mk vs) v \<longleftrightarrow> v \<in> set vs" "wf s \<Longrightarrow> has (add s vs) v \<longleftrightarrow> has s v \<or> v \<in> set vs"
  "wf s \<Longrightarrow> has (remove s vs) v \<longleftrightarrow> has s v \<and> v \<notin> set vs"
  "wf s \<Longrightarrow> has_all s vs \<longleftrightarrow> (\<forall>v \<in> set vs. has s v)"
  using mk add remove has has_all by auto

lemma round_trip: "wf s \<Longrightarrow> eq (mk (vals s)) s" "wf s \<Longrightarrow> eq (copy s) s"
  using mk eq vals copy by auto

lemma mk_eq: "eq (mk vs) (mk ws) \<longleftrightarrow> set vs = set ws"
  using mk eq by auto

lemma extensional: "wf s \<Longrightarrow> wf t \<Longrightarrow> eq s t \<longleftrightarrow> (\<forall>v. has s v \<longleftrightarrow> has t v)"
  using eq has by auto

end

text \<open>Equal length and one inclusion make the key sets equal, because a map holds a key once.\<close>

lemma same_length_subset:
  assumes "distinct s" "distinct t" "length s = length t" "set t \<subseteq> set s" shows "set s = set t"
  using assms by (metis card_subset_eq distinct_card finite_set)

lemma StringSet_HasAll_iff [simp]: "StringSet_HasAll s vs \<longleftrightarrow> set vs \<subseteq> set s"
  by (induction vs) (auto simp: StringSet_Has_def)

lemma Set_HasAll_iff [simp]: "Set_HasAll s vs \<longleftrightarrow> set vs \<subseteq> set s"
  by (induction vs) (auto simp: Set_Has_def)

lemma GenericSet_HasAll_iff [simp]: "GenericSet_HasAll s vs \<longleftrightarrow> set vs \<subseteq> set s"
  by (induction vs) (auto simp: GenericSet_Has_def)

lemma equals_iff:
  assumes "distinct s" "distinct t"
  shows "(if length s \<noteq> length t then False else if length s = 0 \<and> length t = 0 then True else set t \<subseteq> set s)
    \<longleftrightarrow> set s = set t"
proof -
  have "length s = length t" if "set s = set t" using assms that by (metis distinct_card)
  with same_length_subset [OF assms] show ?thesis by (cases "length s = length t") auto
qed

lemma set_Equals_iff:
  "distinct s \<Longrightarrow> distinct t \<Longrightarrow> StringSet_Equals s t \<longleftrightarrow> set s = set t"
  "distinct d \<Longrightarrow> distinct e \<Longrightarrow> Set_Equals d e \<longleftrightarrow> set d = set e"
  "distinct x \<Longrightarrow> distinct y \<Longrightarrow> GenericSet_Equals x y \<longleftrightarrow> set x = set y"
  by (simp_all only: StringSet_Equals_def Set_Equals_def GenericSet_Equals_def StringSet_HasAll_iff
      Set_HasAll_iff GenericSet_HasAll_iff equals_iff)

interpretation string_set: go_set distinct set NewStringSet StringSet_Add StringSet_Remove StringSet_Has
  StringSet_HasAll StringSet_Equals StringSet_Values StringSet_Copy
  by unfold_locales
    (simp_all add: NewStringSet_def StringSet_Add_def StringSet_Remove_def StringSet_Has_def
      StringSet_Values_def StringSet_Copy_def foldl_map_put foldl_map_delete set_Equals_iff)

interpretation iface_set: go_set distinct set NewSet Set_Add Set_Remove Set_Has Set_HasAll Set_Equals
  Set_Values Set_Copy
  by unfold_locales
    (simp_all add: NewSet_def Set_Add_def Set_Remove_def Set_Has_def
      Set_Values_def Set_Copy_def foldl_map_put foldl_map_delete set_Equals_iff)

interpretation generic_set: go_set distinct set NewGenericSet GenericSet_Add GenericSet_Remove GenericSet_Has
  GenericSet_HasAll GenericSet_Equals GenericSet_Values GenericSet_Copy
  by unfold_locales
    (simp_all add: NewGenericSet_def GenericSet_Add_def GenericSet_Remove_def GenericSet_Has_def
      GenericSet_Values_def GenericSet_Copy_def foldl_map_put foldl_map_delete set_Equals_iff)

lemma set_strings_of: "set (strings_of ds) = {s. DString s \<in> set ds}"
  by (induction ds) (auto simp: strings_of_def split: dyn.splits)

section \<open>Properties\<close>

text \<open>C27: The optimised comparison of two sets, which compares the sizes and then looks up the keys of
  one in the other, decides whether they have the same members, for all three set types; a set
  rebuilt from its values, and a copy, equal the original.\<close>

theorem set_equality:
  assumes "distinct s" "distinct t" "distinct u" "distinct v" "distinct x" "distinct y"
  shows "(StringSet_Equals s t \<longleftrightarrow> (\<forall>k. StringSet_Has s k \<longleftrightarrow> StringSet_Has t k))
    \<and> (Set_Equals u v \<longleftrightarrow> (\<forall>k. Set_Has u k \<longleftrightarrow> Set_Has v k))
    \<and> (GenericSet_Equals x y \<longleftrightarrow> (\<forall>k. GenericSet_Has x k \<longleftrightarrow> GenericSet_Has y k))
    \<and> StringSet_Equals (NewStringSet (StringSet_Values s)) s \<and> StringSet_Equals (StringSet_Copy s) s
    \<and> Set_Equals (NewSet (Set_Values u)) u \<and> Set_Equals (Set_Copy u) u
    \<and> GenericSet_Equals (NewGenericSet (GenericSet_Values x)) x \<and> GenericSet_Equals (GenericSet_Copy x) x"
  using string_set.extensional [OF assms(1,2)] iface_set.extensional [OF assms(3,4)]
    generic_set.extensional [OF assms(5,6)] string_set.round_trip [OF assms(1)]
    iface_set.round_trip [OF assms(3)] generic_set.round_trip [OF assms(5)]
  by (simp only: simp_thms)

theorem set_equality_witness:
  "StringSet_Equals [''a'', ''b''] [''b'', ''a''] \<and> \<not> Set_Equals [DOther 1, DOther 2] [DOther 2, DOther 3]
   \<and> GenericSet_Equals [1, 2 :: nat] [2, 1]"
proof -
  have d: "distinct [''a'', ''b'']" "distinct [''b'', ''a'']" "distinct [DOther 1, DOther 2]"
    "distinct [DOther 2, DOther 3]" "distinct [1, 2 :: nat]" "distinct [2, 1 :: nat]" by simp_all
  note h = set_equality [OF d]
  have "\<forall>k. StringSet_Has [''a'', ''b''] k \<longleftrightarrow> StringSet_Has [''b'', ''a''] k" by (auto simp: StringSet_Has_def)
  moreover have "\<not> (\<forall>k. Set_Has [DOther 1, DOther 2] k \<longleftrightarrow> Set_Has [DOther 2, DOther 3] k)"
    by (intro notI, drule spec [of _ "DOther 1"]) (simp add: Set_Has_def)
  moreover have "\<forall>k. GenericSet_Has [1, 2 :: nat] k \<longleftrightarrow> GenericSet_Has [2, 1] k" by (auto simp: GenericSet_Has_def)
  ultimately show ?thesis using h by (simp only: simp_thms)
qed

text \<open>A string set converted to an interface set and back is the same set, the conversion back keeps
  exactly the strings of the interface set, and only unsupported types panic.\<close>

lemma set_conversions:
  assumes "distinct s" and "distinct d"
  shows "StringSet_Equals (NewStringSetFromSet (NewSetFromStringSet s)) s
    \<and> (\<forall>k. StringSet_Has (NewStringSetFromSet d) k \<longleftrightarrow> Set_Has d (DString k))
    \<and> (\<forall>src. NewStringSetFrom src = None \<longleftrightarrow> (\<exists>n. src = FromUnsupported n))
    \<and> (\<forall>src. NewSetFrom src = None \<longleftrightarrow> (\<exists>n. src = FromUnsupported n))"
proof -
  have "StringSet_Equals (NewStringSetFromSet (NewSetFromStringSet s)) s"
    using assms by (subst string_set.eq)
      (auto simp: NewStringSetFromSet_def NewSetFromStringSet_def NewSet_def Set_Add_def foldl_map_put set_strings_of)
  moreover have "\<forall>k. StringSet_Has (NewStringSetFromSet d) k \<longleftrightarrow> Set_Has d (DString k)"
    by (simp add: StringSet_Has_def Set_Has_def NewStringSetFromSet_def foldl_map_put set_strings_of)
  moreover have "NewStringSetFrom src = None \<longleftrightarrow> (\<exists>n. src = FromUnsupported n)"
    "NewSetFrom src = None \<longleftrightarrow> (\<exists>n. src = FromUnsupported n)" for src
    by (cases src; simp)+
  ultimately show ?thesis by blast
qed

end
