(* ===== verification/Tenancy.thy ===== *)
theory Tenancy
  imports Sets Matchers "HOL-Library.Char_ord" "HOL-Library.List_Lexorder"
begin

text \<open>
  The tenant hierarchy: relation strings (\<^verbatim>\<open>pkg/tenancy/util.go\<close>), the accessor (\<^verbatim>\<open>accessor.go\<close>,
  \<^verbatim>\<open>context.go\<close>), the modifier (\<^verbatim>\<open>modifier/modifier.go\<close>) and the loader
  (\<^verbatim>\<open>loader/loader.go\<close>).

  The hierarchy lives in one sorted set of Redis, whose members all have score 0. Redis is a service: its
  client is the record \<open>redis\<close> of the commands the code calls, over an unspecified database
  state, and an argument of every operation. What the commands do is the hypothesis \<open>redis_docs\<close>, the
  documentation of the commands over the contents \<open>redis_data\<close> of the database, failures included; \<open>mem_redis\<close>
  is a concrete client that meets it. Strings are compared byte by byte. Loops that follow relations end only
  when the relations have no cycle, so they are partial functions: \<open>None\<close> is a call that never returns.
\<close>

section \<open>The Redis client\<close>

record 'r redis =
  rGet :: "'r \<Rightarrow> string \<Rightarrow> string + string"
  rSet :: "'r \<Rightarrow> string \<Rightarrow> string \<Rightarrow> 'r \<times> string option"
  rDel :: "'r \<Rightarrow> string \<Rightarrow> 'r \<times> string option"
  rZAdd :: "'r \<Rightarrow> string \<Rightarrow> string list \<Rightarrow> 'r \<times> string option"
  rZRem :: "'r \<Rightarrow> string \<Rightarrow> string list \<Rightarrow> 'r \<times> string option"
  rZRangeByLex :: "'r \<Rightarrow> string \<Rightarrow> string \<Rightarrow> string \<Rightarrow> string list \<times> string option"

record redis_data =
  strs :: "string \<rightharpoonup> string"
  zsets :: "string \<Rightarrow> string set"

section \<open>Relation strings\<close>

definition ZsetKey :: string where "ZsetKey = ''tenant-hierarchy''"
definition IsParentOfPredict :: string where "IsParentOfPredict = ''is-parent-of''"
definition IsChildrenOfPredict :: string where "IsChildrenOfPredict = ''is-children-of''"
definition RedisZsetMaxByte :: string where "RedisZsetMaxByte = [CHR 0xEF, CHR 0xBF, CHR 0xBF]"
definition RootTenantKey :: string where "RootTenantKey = ''root-tenant-id''"
definition StatusKey :: string where "StatusKey = ''tenant-hierarchy-status''"
definition STATUS_IN_PROGRESS :: string where "STATUS_IN_PROGRESS = ''IN_PROGRESS''"
definition STATUS_LOADED :: string where "STATUS_LOADED = ''LOADED''"
definition STATUS_FAILED_TO_LOAD_ROOT_TENANT :: string where
  "STATUS_FAILED_TO_LOAD_ROOT_TENANT = ''FAILED_TO_LOAD_ROOT_TENANT''"

definition spoPrefix :: string where "spoPrefix = ''spo''"

fun BuildSpsString :: "string \<Rightarrow> string \<Rightarrow> string list \<Rightarrow> string" where
  "BuildSpsString subject predict [] = spoPrefix @ '':'' @ subject @ '':'' @ predict"
| "BuildSpsString subject predict (object # _) =
     spoPrefix @ '':'' @ subject @ '':'' @ predict @ '':'' @ object"

datatype tenancy_error =
    NotLoaded | MultipleParents nat | NoObjectPart | RedisError string | UuidError string
  | TenantIdEmpty | StillHasChildren | IsRootNoParent
  | IdsEmpty | AlreadyHasParent | IsTheRoot | IntroducesCycle
  | StoreError string

definition GetObjectOfSpo :: "string \<Rightarrow> tenancy_error + string" where
  "GetObjectOfSpo spo =
     (let parts = strings_Split spo (CHR '':'')
      in if length parts = 4 then Inr (parts ! 3) else Inl NoObjectPart)"

definition ZInclusive :: "string \<Rightarrow> string" where
  "ZInclusive m = ''['' @ m"

section \<open>The accessor\<close>

record 'r accessor =
  cachedRootID :: string
  db :: 'r

text \<open>The range query every lookup of relations makes.\<close>

definition relations_query :: "'r redis \<Rightarrow> 'r accessor \<Rightarrow> string \<Rightarrow> string \<Rightarrow> string list \<times> string option" where
  "relations_query rc s tenantId predict =
     (let gteValue = BuildSpsString tenantId predict [];
          lteValue = BuildSpsString tenantId predict [RedisZsetMaxByte]
      in rZRangeByLex rc (db s) ZsetKey (ZInclusive gteValue) (ZInclusive lteValue))"

definition IsLoaded :: "'r redis \<Rightarrow> 'r accessor \<Rightarrow> bool" where
  "IsLoaded rc s =
     (case rGet rc (db s) StatusKey of Inl _ \<Rightarrow> False | Inr v \<Rightarrow> strings_HasPrefix v STATUS_LOADED)"

text \<open>\<^verbatim>\<open>cmd.Val()\<close> is used without looking at \<^verbatim>\<open>cmd.Err()\<close>.\<close>

definition GetParent :: "'r redis \<Rightarrow> 'r accessor \<Rightarrow> string \<Rightarrow> tenancy_error + string" where
  "GetParent rc s tenantId =
     (if \<not> IsLoaded rc s then Inl NotLoaded
      else
        (let relations = fst (relations_query rc s tenantId IsChildrenOfPredict) in
         if length relations = 0 then Inr ''''
         else if length relations > 1 then Inl (MultipleParents (length relations))
         else GetObjectOfSpo (relations ! 0)))"

fun objects_of :: "string list \<Rightarrow> tenancy_error + string list" where
  "objects_of [] = Inr []"
| "objects_of (relation # rs) =
     (case GetObjectOfSpo relation of
        Inl e \<Rightarrow> Inl e
      | Inr child \<Rightarrow> (case objects_of rs of Inl e \<Rightarrow> Inl e | Inr cs \<Rightarrow> Inr (child # cs)))"

definition GetChildren :: "'r redis \<Rightarrow> 'r accessor \<Rightarrow> string \<Rightarrow> tenancy_error + string list" where
  "GetChildren rc s tenantId =
     (if \<not> IsLoaded rc s then Inl NotLoaded
      else objects_of (fst (relations_query rc s tenantId IsParentOfPredict)))"

partial_function (option) ancestors_loop ::
    "'r redis \<Rightarrow> 'r accessor \<Rightarrow> tenancy_error + string \<Rightarrow> string list \<Rightarrow> (tenancy_error + string list) option" where
  "ancestors_loop rc s res ancestors =
     (case res of
        Inl e \<Rightarrow> Some (Inl e)
      | Inr p \<Rightarrow> if p = '''' then Some (Inr ancestors)
                 else ancestors_loop rc s (GetParent rc s p) (ancestors @ [p]))"

definition GetAncestors :: "'r redis \<Rightarrow> 'r accessor \<Rightarrow> string \<Rightarrow> (tenancy_error + string list) option" where
  "GetAncestors rc s tenantId =
     (if \<not> IsLoaded rc s then Some (Inl NotLoaded)
      else ancestors_loop rc s (GetParent rc s tenantId) [])"

text \<open>One pipelined round: the commands of all pending ids, whose first error is the error of the pipeline.\<close>

fun pipelined :: "'r redis \<Rightarrow> 'r accessor \<Rightarrow> string list \<Rightarrow> tenancy_error + string list" where
  "pipelined rc s [] = Inr []"
| "pipelined rc s (i # is) =
     (case relations_query rc s i IsParentOfPredict of
        (_, Some e) \<Rightarrow> Inl (RedisError e)
      | (rs, None) \<Rightarrow> (case pipelined rc s is of Inl e \<Rightarrow> Inl e | Inr rest \<Rightarrow> Inr (rs @ rest)))"

partial_function (option) descendants_loop ::
    "'r redis \<Rightarrow> 'r accessor \<Rightarrow> string list \<Rightarrow> string list \<Rightarrow> (tenancy_error + string list) option" where
  "descendants_loop rc s idsToVisit descendants =
     (if idsToVisit = [] then Some (Inr descendants)
      else
        (case pipelined rc s idsToVisit of
           Inl e \<Rightarrow> Some (Inl e)
         | Inr rels \<Rightarrow>
            (case objects_of rels of
               Inl e \<Rightarrow> Some (Inl e)
             | Inr children \<Rightarrow> descendants_loop rc s children (descendants @ children))))"

definition GetDescendants :: "'r redis \<Rightarrow> 'r accessor \<Rightarrow> string \<Rightarrow> (tenancy_error + string list) option" where
  "GetDescendants rc s tenantId =
     (if \<not> IsLoaded rc s then Some (Inl NotLoaded)
      else descendants_loop rc s [tenantId] [])"

definition GetRoot :: "'r redis \<Rightarrow> 'r accessor \<Rightarrow> 'r accessor \<times> (tenancy_error + string)" where
  "GetRoot rc s =
     (if \<not> IsLoaded rc s then (s, Inl NotLoaded)
      else if cachedRootID s \<noteq> '''' then (s, Inr (cachedRootID s))
      else
        (case rGet rc (db s) RootTenantKey of
           Inl e \<Rightarrow> (s\<lparr>cachedRootID := ''''\<rparr>, Inl (RedisError e))
         | Inr v \<Rightarrow> (s\<lparr>cachedRootID := v\<rparr>, Inr v)))"

text \<open>\<^verbatim>\<open>uuid.Parse\<close>, a third party package, is an argument.\<close>

fun parse_all :: "(string \<Rightarrow> string + 'u) \<Rightarrow> string list \<Rightarrow> 'u list \<Rightarrow> tenancy_error + 'u list" where
  "parse_all uuid_Parse [] acc = Inr acc"
| "parse_all uuid_Parse (str # rest) acc =
     (case uuid_Parse str of Inl e \<Rightarrow> Inl (UuidError e) | Inr u \<Rightarrow> parse_all uuid_Parse rest (acc @ [u]))"

text \<open>The in-place reversal: swap the elements at \<open>fi\<close> and \<open>ri\<close> while \<open>fi < ri\<close>.\<close>

function reverse_loop :: "'u list \<Rightarrow> nat \<Rightarrow> nat \<Rightarrow> 'u list" where
  "reverse_loop p fi ri =
     (if fi < ri then reverse_loop (p[fi := p ! ri, ri := p ! fi]) (fi + 1) (ri - 1) else p)"
  by pat_completeness auto
termination by (relation "measure (\<lambda>(p, fi, ri). ri - fi)") auto

definition GetTenancyPath ::
    "(string \<Rightarrow> string + 'u) \<Rightarrow> 'r redis \<Rightarrow> 'r accessor \<Rightarrow> string \<Rightarrow> (tenancy_error + 'u list) option" where
  "GetTenancyPath uuid_Parse rc s tenantId =
     (case uuid_Parse tenantId of
        Inl e \<Rightarrow> Some (Inl (UuidError e))
      | Inr current \<Rightarrow>
         (case GetAncestors rc s tenantId of
            None \<Rightarrow> None
          | Some (Inl e) \<Rightarrow> Some (Inl e)
          | Some (Inr ancestors) \<Rightarrow>
             (case parse_all uuid_Parse ancestors [current] of
                Inl e \<Rightarrow> Some (Inl e)
              | Inr p \<Rightarrow> Some (Inr (reverse_loop p 0 (length p - 1))))))"

fun any_has :: "StringSet \<Rightarrow> string list \<Rightarrow> bool" where
  "any_has ids [] = False"
| "any_has ids (ancestor # rest) = (if StringSet_Has ids ancestor then True else any_has ids rest)"

text \<open>A nil set is \<open>None\<close>.\<close>

definition AnyHasDescendant :: "'r redis \<Rightarrow> 'r accessor \<Rightarrow> StringSet option \<Rightarrow> string \<Rightarrow> bool option" where
  "AnyHasDescendant rc s tenantIDs descendant =
     (case tenantIDs of
        None \<Rightarrow> Some False
      | Some ids \<Rightarrow>
         if descendant = '''' then Some False
         else if StringSet_Has ids descendant then Some True
         else
           (case GetAncestors rc s descendant of
              None \<Rightarrow> None
            | Some (Inl _) \<Rightarrow> Some False
            | Some (Inr ancestors) \<Rightarrow> Some (any_has ids ancestors)))"

section \<open>The modifier\<close>

definition write_result :: "'r accessor \<Rightarrow> 'r \<times> string option \<Rightarrow> 'r accessor \<times> tenancy_error option" where
  "write_result s w = (s\<lparr>db := fst w\<rparr>, map_option RedisError (snd w))"

definition RemoveTenant :: "'r redis \<Rightarrow> 'r accessor \<Rightarrow> string \<Rightarrow> 'r accessor \<times> tenancy_error option" where
  "RemoveTenant rc s tenantId =
     (if tenantId = '''' then (s, Some TenantIdEmpty)
      else
        (case GetChildren rc s tenantId of
           Inl e \<Rightarrow> (s, Some e)
         | Inr children \<Rightarrow>
            if length children \<noteq> 0 then (s, Some StillHasChildren)
            else
              (case GetParent rc s tenantId of
                 Inl e \<Rightarrow> (s, Some e)
               | Inr parentId \<Rightarrow>
                  if parentId = '''' then (s, Some IsRootNoParent)
                  else write_result s
                    (rZRem rc (db s) ZsetKey
                      [BuildSpsString tenantId IsChildrenOfPredict [parentId],
                       BuildSpsString parentId IsParentOfPredict [tenantId]]))))"

text \<open>The checks of \<^verbatim>\<open>AddTenant\<close>, which only read and may fill the root cache, and then its write.\<close>

definition AddTenant_checks ::
    "'r redis \<Rightarrow> 'r accessor \<Rightarrow> string \<Rightarrow> string \<Rightarrow> ('r accessor \<times> tenancy_error option) option" where
  "AddTenant_checks rc s tenantId parentId =
     (if tenantId = '''' \<or> parentId = '''' then Some (s, Some IdsEmpty)
      else
        (case GetParent rc s tenantId of
           Inl e \<Rightarrow> Some (s, Some e)
         | Inr p \<Rightarrow>
            if p \<noteq> '''' then Some (s, Some AlreadyHasParent)
            else
              (case GetRoot rc s of
                 (s', Inl e) \<Rightarrow> Some (s', Some e)
               | (s', Inr root) \<Rightarrow>
                  if tenantId = root then Some (s', Some IsTheRoot)
                  else
                    (case GetAncestors rc s' parentId of
                       None \<Rightarrow> None
                     | Some (Inl e) \<Rightarrow> Some (s', Some e)
                     | Some (Inr ancestors) \<Rightarrow>
                        (let st = NewStringSet ancestors in
                         if StringSet_Has st tenantId \<or> tenantId = parentId then Some (s', Some IntroducesCycle)
                         else Some (s', None))))))"

definition AddTenant_write :: "'r redis \<Rightarrow> 'r accessor \<Rightarrow> string \<Rightarrow> string \<Rightarrow> 'r accessor \<times> tenancy_error option" where
  "AddTenant_write rc s tenantId parentId =
     write_result s
       (rZAdd rc (db s) ZsetKey
         [BuildSpsString tenantId IsChildrenOfPredict [parentId],
          BuildSpsString parentId IsParentOfPredict [tenantId]])"

definition AddTenant ::
    "'r redis \<Rightarrow> 'r accessor \<Rightarrow> string \<Rightarrow> string \<Rightarrow> ('r accessor \<times> tenancy_error option) option" where
  "AddTenant rc s tenantId parentId =
     (case AddTenant_checks rc s tenantId parentId of
        None \<Rightarrow> None
      | Some (s', Some e) \<Rightarrow> Some (s', Some e)
      | Some (s', None) \<Rightarrow> Some (AddTenant_write rc s' tenantId parentId))"

section \<open>The loader\<close>

text \<open>
  A store hands out a list of scan results: a tenant's id and parent id, or an error. \<open>watch\<close> runs the
  transaction body and decides whether it commits; the client applies the commands of the body as it
  meets them, as \<^verbatim>\<open>tx.Set\<close>, \<^verbatim>\<open>tx.Del\<close> and \<^verbatim>\<open>tx.ZAdd\<close> are sent at once on the watched connection.
\<close>

fun scan_loop ::
    "'r redis \<Rightarrow> 'r \<Rightarrow> (string + string \<times> string) list \<Rightarrow> string list \<Rightarrow> 'r \<times> (tenancy_error + string list)" where
  "scan_loop rc d [] relations = (d, Inr relations)"
| "scan_loop rc d (Inl e # it) relations = (d, Inl (StoreError e))"
| "scan_loop rc d (Inr (tid, pid) # it) relations =
     (if pid \<noteq> '''' then
        scan_loop rc d it
          (relations @ [BuildSpsString tid IsChildrenOfPredict [pid], BuildSpsString pid IsParentOfPredict [tid]])
      else
        (case rSet rc d RootTenantKey tid of
           (d', Some e) \<Rightarrow> (d', Inl (RedisError e))
         | (d', None) \<Rightarrow> scan_loop rc d' it relations))"

definition load_tx ::
    "'r redis \<Rightarrow> string \<Rightarrow> string + (string + string \<times> string) list \<Rightarrow> 'r \<Rightarrow> 'r \<times> tenancy_error option" where
  "load_tx rc uuid store d =
     (case rDel rc d ZsetKey of
        (d1, Some e) \<Rightarrow> (d1, Some (RedisError e))
      | (d1, None) \<Rightarrow>
         (case store of
            Inl e \<Rightarrow> (d1, Some (StoreError e))
          | Inr it \<Rightarrow>
             (case scan_loop rc d1 it [] of
                (d2, Inl e) \<Rightarrow> (d2, Some e)
              | (d2, Inr relations) \<Rightarrow>
                 (case rGet rc d2 RootTenantKey of
                    Inl e \<Rightarrow>
                      (case rSet rc d2 StatusKey STATUS_FAILED_TO_LOAD_ROOT_TENANT of
                         (d3, Some e') \<Rightarrow> (d3, Some (RedisError e'))
                       | (d3, None) \<Rightarrow> (d3, Some (RedisError e)))
                  | Inr _ \<Rightarrow>
                     (case (if length relations \<noteq> 0 then rZAdd rc d2 ZsetKey relations else (d2, None)) of
                        (d3, Some e) \<Rightarrow> (d3, Some (RedisError e))
                      | (d3, None) \<Rightarrow>
                         (case rSet rc d3 StatusKey (STATUS_LOADED @ ''_'' @ uuid) of
                            (d4, e) \<Rightarrow> (d4, map_option RedisError e)))))))"

definition LoadTenantHierarchy ::
    "'r redis \<Rightarrow> (('r \<Rightarrow> 'r \<times> tenancy_error option) \<Rightarrow> 'r \<Rightarrow> 'r \<times> tenancy_error option) \<Rightarrow> string
      \<Rightarrow> string + (string + string \<times> string) list \<Rightarrow> 'r accessor \<Rightarrow> 'r accessor \<times> tenancy_error option" where
  "LoadTenantHierarchy rc watch uuid store s =
     (case rSet rc (db s) StatusKey STATUS_IN_PROGRESS of
        (d1, Some e) \<Rightarrow> (s\<lparr>db := d1\<rparr>, Some (RedisError e))
      | (d1, None) \<Rightarrow>
         (case rDel rc d1 ZsetKey of
            (d2, Some e) \<Rightarrow> (s\<lparr>db := d2\<rparr>, Some (RedisError e))
          | (d2, None) \<Rightarrow>
             (case rDel rc d2 RootTenantKey of
                (d3, Some e) \<Rightarrow> (s\<lparr>db := d3\<rparr>, Some (RedisError e))
              | (d3, None) \<Rightarrow>
                 (case watch (load_tx rc uuid store) d3 of
                    (d4, err) \<Rightarrow>
                      (let s' = s\<lparr>db := d4\<rparr> in
                       if err \<noteq> None \<and> IsLoaded rc s' then (s', None) else (s', err))))))"

section \<open>What Redis documents\<close>

definition redis_docs :: "'r redis \<Rightarrow> ('r \<Rightarrow> redis_data) \<Rightarrow> bool" where
  "redis_docs rc data \<longleftrightarrow>
     (\<forall>d k. finite (zsets (data d) k))
     \<and> (\<forall>d k v. rGet rc d k = Inr v \<longrightarrow> strs (data d) k = Some v)
     \<and> (\<forall>d k v d' e. rSet rc d k v = (d', e) \<longrightarrow>
          data d' = (data d)\<lparr>strs := (strs (data d))(k \<mapsto> v)\<rparr> \<or> e \<noteq> None \<and> data d' = data d)
     \<and> (\<forall>d k d' e. rDel rc d k = (d', e) \<longrightarrow>
          data d' = (data d)\<lparr>strs := (strs (data d))(k := None), zsets := (zsets (data d))(k := {})\<rparr>
          \<or> e \<noteq> None \<and> data d' = data d)
     \<and> (\<forall>d k ms d' e. rZAdd rc d k ms = (d', e) \<longrightarrow>
          data d' = (data d)\<lparr>zsets := (zsets (data d))(k := zsets (data d) k \<union> set ms)\<rparr>
          \<or> e \<noteq> None \<and> data d' = data d)
     \<and> (\<forall>d k ms d' e. rZRem rc d k ms = (d', e) \<longrightarrow>
          data d' = (data d)\<lparr>zsets := (zsets (data d))(k := zsets (data d) k - set ms)\<rparr>
          \<or> e \<noteq> None \<and> data d' = data d)
     \<and> (\<forall>d k lo hi xs e. rZRangeByLex rc d k (ZInclusive lo) (ZInclusive hi) = (xs, e) \<longrightarrow>
          (e = None \<longrightarrow> xs = sorted_list_of_set {m \<in> zsets (data d) k. lo \<le> m \<and> m \<le> hi})
          \<and> (e \<noteq> None \<longrightarrow> xs = []))"

lemma redis_docs_range:
  assumes "redis_docs rc data" "rZRangeByLex rc d k (ZInclusive lo) (ZInclusive hi) = (xs, None)"
  shows "xs = sorted_list_of_set {m \<in> zsets (data d) k. lo \<le> m \<and> m \<le> hi}"
  using assms unfolding redis_docs_def by blast

lemma redis_docs_ZAdd:
  assumes "redis_docs rc data" "rZAdd rc d k ms = (d', e)"
  shows "data d' = (data d)\<lparr>zsets := (zsets (data d))(k := zsets (data d) k \<union> set ms)\<rparr> \<or> e \<noteq> None \<and> data d' = data d"
  using assms unfolding redis_docs_def by blast

lemma redis_docs_ZRem:
  assumes "redis_docs rc data" "rZRem rc d k ms = (d', e)"
  shows "data d' = (data d)\<lparr>zsets := (zsets (data d))(k := zsets (data d) k - set ms)\<rparr> \<or> e \<noteq> None \<and> data d' = data d"
  using assms unfolding redis_docs_def by blast

lemma redis_docs_Set:
  assumes "redis_docs rc data" "rSet rc d k v = (d', e)"
  shows "data d' = (data d)\<lparr>strs := (strs (data d))(k \<mapsto> v)\<rparr> \<or> e \<noteq> None \<and> data d' = data d"
  using assms(1) [unfolded redis_docs_def] assms(2) by (elim conjE) simp

lemma redis_docs_Del:
  assumes "redis_docs rc data" "rDel rc d k = (d', e)"
  shows "data d' = (data d)\<lparr>strs := (strs (data d))(k := None), zsets := (zsets (data d))(k := {})\<rparr>
    \<or> e \<noteq> None \<and> data d' = data d"
  using assms(1) [unfolded redis_docs_def] assms(2) by (elim conjE) simp

lemma redis_docs_Get:
  assumes "redis_docs rc data" "rGet rc d k = Inr v" shows "strs (data d) k = Some v"
  using assms(1) [unfolded redis_docs_def] assms(2) by (elim conjE) simp

text \<open>The database answers reads: every stored string is returned, and no range query fails.\<close>

definition answers :: "'r redis \<Rightarrow> ('r \<Rightarrow> redis_data) \<Rightarrow> 'r \<Rightarrow> bool" where
  "answers rc data d \<longleftrightarrow>
     (\<forall>k v. strs (data d) k = Some v \<longrightarrow> rGet rc d k = Inr v)
     \<and> (\<forall>k lo hi. snd (rZRangeByLex rc d k lo hi) = None)"

text \<open>A client over an in-memory database that never fails.\<close>

record mem =
  mem_strs :: "string \<rightharpoonup> string"
  mem_zsets :: "string \<Rightarrow> string list"

definition mem_data :: "mem \<Rightarrow> redis_data" where
  "mem_data d = \<lparr>strs = mem_strs d, zsets = (\<lambda>k. set (mem_zsets d k))\<rparr>"

definition mem_redis :: "mem redis" where
  "mem_redis =
     \<lparr>rGet = (\<lambda>d k. case mem_strs d k of Some v \<Rightarrow> Inr v | None \<Rightarrow> Inl ''redis: nil''),
      rSet = (\<lambda>d k v. (d\<lparr>mem_strs := (mem_strs d)(k \<mapsto> v)\<rparr>, None)),
      rDel = (\<lambda>d k. (d\<lparr>mem_strs := (mem_strs d)(k := None), mem_zsets := (mem_zsets d)(k := [])\<rparr>, None)),
      rZAdd = (\<lambda>d k ms. (d\<lparr>mem_zsets := (mem_zsets d)(k := mem_zsets d k @ ms)\<rparr>, None)),
      rZRem = (\<lambda>d k ms. (d\<lparr>mem_zsets := (mem_zsets d)(k := filter (\<lambda>m. m \<notin> set ms) (mem_zsets d k))\<rparr>, None)),
      rZRangeByLex = (\<lambda>d k lo hi.
        (sorted_list_of_set (set (filter (\<lambda>m. tl lo \<le> m \<and> m \<le> tl hi) (mem_zsets d k))), None))\<rparr>"

lemma mem_redis_docs: "redis_docs mem_redis mem_data"
  unfolding redis_docs_def by (auto simp: mem_redis_def mem_data_def ZInclusive_def fun_eq_iff split: option.splits)

lemma mem_redis_answers: "answers mem_redis mem_data d"
  by (simp add: answers_def mem_redis_def mem_data_def)

section \<open>Hierarchies\<close>

type_synonym parents = "string \<rightharpoonup> string"

definition valid_id :: "string \<Rightarrow> bool" where
  "valid_id t \<longleftrightarrow> t \<noteq> [] \<and> CHR '':'' \<notin> set t \<and> (\<forall>c \<in> set t. c < CHR 0xEF)"

definition parent_rel :: "parents \<Rightarrow> (string \<times> string) set" where
  "parent_rel par = {(c, p). par c = Some p}"

definition valid_parents :: "parents \<Rightarrow> bool" where
  "valid_parents par \<longleftrightarrow> finite (dom par) \<and> (\<forall>c p. par c = Some p \<longrightarrow> valid_id c \<and> valid_id p)"

definition hierarchy :: "parents \<Rightarrow> bool" where
  "hierarchy par \<longleftrightarrow> valid_parents par \<and> acyclic (parent_rel par)"

definition members :: "parents \<Rightarrow> string set" where
  "members par =
     {BuildSpsString c IsChildrenOfPredict [p] | c p. par c = Some p}
     \<union> {BuildSpsString p IsParentOfPredict [c] | c p. par c = Some p}"

section \<open>Range queries\<close>

lemma lex_beyond_prefix:
  fixes a b m :: string
  shows "a \<le> m \<Longrightarrow> \<not> prefix a m \<Longrightarrow> a @ b < m"
proof (induction a arbitrary: m)
  case (Cons x a)
  then show ?case by (cases m) auto
qed simp

lemma lex_append_le: "(a @ (r :: string) \<le> a @ s) \<longleftrightarrow> r \<le> s"
  by (induction a) auto

lemma prefix_le: "prefix a m \<Longrightarrow> a \<le> (m :: string)"
  by (auto simp: prefix_def lex_append_le [of a "[]", simplified])

lemma lex_range:
  fixes a b m :: string
  shows "a \<le> m \<and> m \<le> a @ b \<longleftrightarrow> (\<exists>r. m = a @ r \<and> r \<le> b)"
proof (cases "prefix a m")
  case True
  then obtain r where "m = a @ r" by (auto simp: prefix_def)
  with prefix_le [OF True] show ?thesis by (simp add: lex_append_le)
next
  case False
  with lex_beyond_prefix [of a m b] show ?thesis by (auto simp: prefix_def)
qed

lemma word_eq: "c \<notin> set w \<Longrightarrow> c \<notin> set w' \<Longrightarrow> w @ c # u = w' @ c # u' \<Longrightarrow> w = w' \<and> u = u'"
proof (induction w arbitrary: w')
  case Nil
  then show ?case by (cases w') auto
next
  case (Cons a w)
  then show ?case by (cases w') auto
qed

lemma valid_id_below_max: "valid_id t \<Longrightarrow> t \<le> RedisZsetMaxByte"
  by (cases t) (auto simp: valid_id_def RedisZsetMaxByte_def)

abbreviation predicates :: "string set" where "predicates \<equiv> {IsParentOfPredict, IsChildrenOfPredict}"

lemma predicate_no_colon: "pr \<in> predicates \<Longrightarrow> CHR '':'' \<notin> set pr"
  by (auto simp: IsParentOfPredict_def IsChildrenOfPredict_def)

lemma predicates_distinct [simp]: "IsParentOfPredict \<noteq> IsChildrenOfPredict" "IsChildrenOfPredict \<noteq> IsParentOfPredict"
  by (simp_all add: IsParentOfPredict_def IsChildrenOfPredict_def)

lemma split_spo:
  assumes "valid_id s" "pr \<in> predicates" "valid_id x"
  shows "strings_Split (BuildSpsString s pr [x]) (CHR '':'') = [spoPrefix, s, pr, x]"
proof -
  have "CHR '':'' \<notin> set spoPrefix" by (simp add: spoPrefix_def)
  moreover have "CHR '':'' \<notin> set s" "CHR '':'' \<notin> set x" using assms by (simp_all add: valid_id_def)
  moreover have "BuildSpsString s pr [x] = spoPrefix @ CHR '':'' # s @ CHR '':'' # pr @ CHR '':'' # x" by simp
  ultimately show ?thesis
    using predicate_no_colon [OF assms(2)] by (simp only: strings_Split_append strings_Split_word simp_thms not_False_eq_True)
qed

lemma spo_inject:
  assumes "valid_id s" "pr \<in> predicates" "valid_id x" "valid_id s'" "pr' \<in> predicates" "valid_id x'"
  shows "BuildSpsString s pr [x] = BuildSpsString s' pr' [x'] \<longleftrightarrow> s = s' \<and> pr = pr' \<and> x = x'"
proof
  assume "BuildSpsString s pr [x] = BuildSpsString s' pr' [x']"
  then have "[spoPrefix, s, pr, x] = [spoPrefix, s', pr', x']"
    using split_spo [OF assms(1-3)] split_spo [OF assms(4-6)] by (simp only:)
  then show "s = s' \<and> pr = pr' \<and> x = x'" by simp
qed simp

lemma GetObject_spo: "valid_id s \<Longrightarrow> pr \<in> predicates \<Longrightarrow> valid_id x \<Longrightarrow> GetObjectOfSpo (BuildSpsString s pr [x]) = Inr x"
  by (simp add: GetObjectOfSpo_def split_spo del: BuildSpsString.simps)

lemma spo_in_range:
  assumes "valid_id t" "pr \<in> predicates" "valid_id s" "pr' \<in> predicates" "valid_id x"
  shows "BuildSpsString t pr [] \<le> BuildSpsString s pr' [x] \<and> BuildSpsString s pr' [x] \<le> BuildSpsString t pr [RedisZsetMaxByte]
    \<longleftrightarrow> s = t \<and> pr' = pr"
proof -
  let ?a = "BuildSpsString t pr []"
  have "BuildSpsString t pr [RedisZsetMaxByte] = ?a @ '':'' @ RedisZsetMaxByte" by simp
  then have "?a \<le> BuildSpsString s pr' [x] \<and> BuildSpsString s pr' [x] \<le> BuildSpsString t pr [RedisZsetMaxByte]
      \<longleftrightarrow> (\<exists>r. BuildSpsString s pr' [x] = ?a @ r \<and> r \<le> '':'' @ RedisZsetMaxByte)"
    using lex_range [of ?a "BuildSpsString s pr' [x]" "'':'' @ RedisZsetMaxByte"] by metis
  also have "\<dots> \<longleftrightarrow> s = t \<and> pr' = pr"
  proof
    assume "\<exists>r. BuildSpsString s pr' [x] = ?a @ r \<and> r \<le> '':'' @ RedisZsetMaxByte"
    then obtain r where r: "BuildSpsString s pr' [x] = ?a @ r" by blast
    then have e: "s @ CHR '':'' # pr' @ '':'' @ x = t @ CHR '':'' # pr @ r" by simp
    have "CHR '':'' \<notin> set s" "CHR '':'' \<notin> set t" using assms by (simp_all add: valid_id_def)
    from word_eq [OF this e] have "s = t" "pr' @ '':'' @ x = pr @ r" by simp_all
    with assms(2,4) show "s = t \<and> pr' = pr"
      by (auto simp: IsParentOfPredict_def IsChildrenOfPredict_def)
  next
    assume "s = t \<and> pr' = pr"
    then show "\<exists>r. BuildSpsString s pr' [x] = ?a @ r \<and> r \<le> '':'' @ RedisZsetMaxByte"
      using valid_id_below_max [OF assms(5)] by (intro exI [of _ "'':'' @ x"]) simp
  qed
  finally show ?thesis .
qed

declare BuildSpsString.simps [simp del]

section \<open>Lookups\<close>

text \<open>The state of an accessor holds a loaded hierarchy: the sorted set has exactly the relations of \<open>par\<close>.\<close>

definition represents :: "'r redis \<Rightarrow> ('r \<Rightarrow> redis_data) \<Rightarrow> 'r accessor \<Rightarrow> parents \<Rightarrow> bool" where
  "represents rc data s par \<longleftrightarrow>
     redis_docs rc data \<and> answers rc data (db s) \<and> valid_parents par
     \<and> zsets (data (db s)) ZsetKey = members par
     \<and> (\<exists>v. strs (data (db s)) StatusKey = Some v \<and> prefix STATUS_LOADED v)"

lemma represents_loaded: "represents rc data s par \<Longrightarrow> IsLoaded rc s"
  by (auto simp: represents_def answers_def IsLoaded_def strings_HasPrefix_def)

lemma valid_parents_ids: "valid_parents par \<Longrightarrow> par c = Some p \<Longrightarrow> valid_id c \<and> valid_id p"
  by (auto simp: valid_parents_def)

definition linked :: "parents \<Rightarrow> string \<Rightarrow> string \<Rightarrow> string \<Rightarrow> bool" where
  "linked par s pr x \<longleftrightarrow> (if pr = IsChildrenOfPredict then par s = Some x else par x = Some s)"

lemma members_iff:
  "m \<in> members par \<longleftrightarrow> (\<exists>s pr x. m = BuildSpsString s pr [x] \<and> pr \<in> predicates \<and> linked par s pr x)"
proof
  assume "m \<in> members par"
  then consider c p where "m = BuildSpsString c IsChildrenOfPredict [p]" "par c = Some p"
    | c p where "m = BuildSpsString p IsParentOfPredict [c]" "par c = Some p"
    unfolding members_def by blast
  then show "\<exists>s pr x. m = BuildSpsString s pr [x] \<and> pr \<in> predicates \<and> linked par s pr x"
  proof cases
    case (1 c p)
    then show ?thesis by (intro exI [of _ c] exI [of _ IsChildrenOfPredict] exI [of _ p]) (simp add: linked_def)
  next
    case (2 c p)
    then show ?thesis by (intro exI [of _ p] exI [of _ IsParentOfPredict] exI [of _ c]) (simp add: linked_def)
  qed
qed (auto simp: members_def linked_def split: if_splits)

lemma linked_valid: "valid_parents par \<Longrightarrow> linked par s pr x \<Longrightarrow> valid_id s \<and> valid_id x"
  by (auto simp: linked_def valid_parents_def split: if_splits)

lemma members_range:
  assumes "valid_parents par" "valid_id t" "pr \<in> predicates"
  shows "{m \<in> members par. BuildSpsString t pr [] \<le> m \<and> m \<le> BuildSpsString t pr [RedisZsetMaxByte]} =
    (\<lambda>x. BuildSpsString t pr [x]) ` {x. linked par t pr x}" (is "?L = ?R")
proof
  show "?L \<subseteq> ?R"
  proof
    fix m assume m: "m \<in> ?L"
    then obtain s pr' x where e: "m = BuildSpsString s pr' [x]" "pr' \<in> predicates" "linked par s pr' x"
      unfolding mem_Collect_eq members_iff by blast
    with m linked_valid [OF assms(1) e(3)] have "s = t" "pr' = pr"
      using spo_in_range [OF assms(2,3), of s pr' x] by simp_all
    with e show "m \<in> ?R" by blast
  qed
  show "?R \<subseteq> ?L"
  proof
    fix m assume "m \<in> ?R"
    then obtain x where e: "m = BuildSpsString t pr [x]" "linked par t pr x" by blast
    with assms(3) have "m \<in> members par" unfolding members_iff by blast
    with e linked_valid [OF assms(1) e(2)] show "m \<in> ?L"
      using spo_in_range [OF assms(2,3) assms(2,3), of x] by simp
  qed
qed

lemma relations_query_spec:
  assumes "represents rc data s par" "valid_id t" "pr \<in> predicates"
  shows "relations_query rc s t pr =
    (sorted_list_of_set ((\<lambda>x. BuildSpsString t pr [x]) ` {x. linked par t pr x}), None)"
proof -
  let ?lo = "BuildSpsString t pr []" and ?hi = "BuildSpsString t pr [RedisZsetMaxByte]"
  obtain xs e where q: "rZRangeByLex rc (db s) ZsetKey (ZInclusive ?lo) (ZInclusive ?hi) = (xs, e)" by fastforce
  have "snd (rZRangeByLex rc (db s) ZsetKey (ZInclusive ?lo) (ZInclusive ?hi)) = None" "redis_docs rc data"
    using assms(1) by (simp_all add: represents_def answers_def)
  with q have "e = None" "xs = sorted_list_of_set {m \<in> zsets (data (db s)) ZsetKey. ?lo \<le> m \<and> m \<le> ?hi}"
    using redis_docs_range [of rc data "db s" ZsetKey ?lo ?hi xs] by simp_all
  moreover have "zsets (data (db s)) ZsetKey = members par" "valid_parents par"
    using assms(1) by (simp_all add: represents_def)
  ultimately show ?thesis
    using q by (simp add: relations_query_def Let_def members_range [OF _ assms(2,3)])
qed

lemma GetParent_spec:
  assumes "represents rc data s par" "valid_id t"
  shows "GetParent rc s t = Inr (case par t of Some p \<Rightarrow> p | None \<Rightarrow> '''')"
proof -
  have v: "valid_parents par" using assms(1) by (simp add: represents_def)
  have q: "fst (relations_query rc s t IsChildrenOfPredict) =
      (case par t of None \<Rightarrow> [] | Some p \<Rightarrow> [BuildSpsString t IsChildrenOfPredict [p]])"
    using relations_query_spec [OF assms, of IsChildrenOfPredict] by (auto simp: linked_def split: option.split)
  show ?thesis
  proof (cases "par t")
    case None
    with q represents_loaded [OF assms(1)] show ?thesis by (simp add: GetParent_def Let_def)
  next
    case (Some p)
    with q represents_loaded [OF assms(1)] valid_parents_ids [OF v Some] show ?thesis
      by (simp add: GetParent_def Let_def GetObject_spo)
  qed
qed

lemma objects_of_spo:
  assumes "valid_id t" "pr \<in> predicates" "\<forall>x \<in> set xs. valid_id x"
  shows "objects_of (map (\<lambda>x. BuildSpsString t pr [x]) xs) = Inr xs"
  using assms(3) by (induction xs) (simp_all add: GetObject_spo [OF assms(1,2)])

text \<open>The children of a tenant, in the order of the sorted set.\<close>

definition kids :: "parents \<Rightarrow> string \<Rightarrow> string list" where
  "kids par t = sorted_list_of_set {c. par c = Some t}"

lemma kids_finite: "valid_parents par \<Longrightarrow> finite {c. par c = Some t}"
  by (rule finite_subset [of _ "dom par"]) (auto simp: valid_parents_def)

lemma kids_set: "valid_parents par \<Longrightarrow> set (kids par t) = {c. par c = Some t}"
  "distinct (kids par t)"
  by (simp_all add: kids_def kids_finite)

lemma sorted_spo:
  assumes "finite A" shows "sorted_list_of_set ((\<lambda>x. BuildSpsString t pr [x]) ` A) =
    map (\<lambda>x. BuildSpsString t pr [x]) (sorted_list_of_set A)"
proof -
  have less: "BuildSpsString t pr [x] < BuildSpsString t pr [y] \<longleftrightarrow> x < y" for x y
    using lex_append_le [of "BuildSpsString t pr [] @ '':''" y x] by (simp add: BuildSpsString.simps not_le [symmetric])
  have "sorted_wrt (<) (map (\<lambda>x. BuildSpsString t pr [x]) (sorted_list_of_set A))"
    using strict_sorted_list_of_set [of A] by (simp add: sorted_wrt_map less)
  moreover have "set (map (\<lambda>x. BuildSpsString t pr [x]) (sorted_list_of_set A)) = (\<lambda>x. BuildSpsString t pr [x]) ` A"
    using assms by simp
  ultimately show ?thesis using assms
    by (metis sorted_list_of_set.idem_if_sorted_distinct strict_sorted_iff)
qed

lemma query_children:
  assumes "represents rc data s par" "valid_id t"
  shows "relations_query rc s t IsParentOfPredict = (map (\<lambda>x. BuildSpsString t IsParentOfPredict [x]) (kids par t), None)"
  using relations_query_spec [OF assms, of IsParentOfPredict] assms(1)
  by (simp add: linked_def kids_def sorted_spo kids_finite represents_def)

lemma kids_valid: "valid_parents par \<Longrightarrow> x \<in> set (kids par t) \<Longrightarrow> valid_id x"
  using valid_parents_ids by (auto simp: kids_set)

lemma GetChildren_spec:
  assumes "represents rc data s par" "valid_id t" shows "GetChildren rc s t = Inr (kids par t)"
  using represents_loaded [OF assms(1)] query_children [OF assms] assms
  by (auto simp: GetChildren_def objects_of_spo kids_valid represents_def)

end
