(* ===== verification/Tenant_Hierarchy.thy ===== *)
theory Tenant_Hierarchy
  imports Tenancy
begin

text \<open>
  Correctness of the tenant hierarchy. The specification of a hierarchy is a finite acyclic map from
  tenants to their parents. The locale \<open>tenant_reads\<close> is the contract of the accessor that the modifier and
  the access checks rely on; its interpretation proves that the accessor over Redis meets it.
\<close>

section \<open>Chains of ancestors\<close>

inductive chain :: "parents \<Rightarrow> string \<Rightarrow> string list \<Rightarrow> bool" for par where
  chain_root: "par t = None \<Longrightarrow> chain par t []"
| chain_step: "par t = Some p \<Longrightarrow> chain par p xs \<Longrightarrow> chain par t (p # xs)"

inductive_simps chain_simps: "chain par t []" "chain par t (p # xs)"

lemma chain_deterministic: "chain par t xs \<Longrightarrow> chain par t ys \<Longrightarrow> xs = ys"
proof (induction arbitrary: ys rule: chain.induct)
  case (chain_root t)
  then show ?case by (cases ys) (simp_all add: chain_simps)
next
  case (chain_step t p xs)
  from chain_step.prems chain_step.hyps(1) obtain ys' where "ys = p # ys'" "chain par p ys'"
    by (cases ys) (simp_all add: chain_simps)
  with chain_step.IH show ?case by blast
qed

lemma trancl_parent: "par t = Some p \<Longrightarrow> (t, a) \<in> (parent_rel par)\<^sup>+ \<longleftrightarrow> a = p \<or> (p, a) \<in> (parent_rel par)\<^sup>+"
proof
  assume p: "par t = Some p" and "(t, a) \<in> (parent_rel par)\<^sup>+"
  from this(2) show "a = p \<or> (p, a) \<in> (parent_rel par)\<^sup>+"
    by (cases rule: converse_tranclE) (use p in \<open>auto simp: parent_rel_def\<close>)
next
  assume p: "par t = Some p" and "a = p \<or> (p, a) \<in> (parent_rel par)\<^sup>+"
  then show "(t, a) \<in> (parent_rel par)\<^sup>+"
    by (auto simp: parent_rel_def intro: trancl_into_trancl2)
qed

lemma no_parent_no_ancestor: "par t = None \<Longrightarrow> (t, a) \<notin> (parent_rel par)\<^sup>+"
  by (auto simp: parent_rel_def elim: converse_tranclE)

lemma chain_set: "chain par t xs \<Longrightarrow> set xs = {a. (t, a) \<in> (parent_rel par)\<^sup>+}"
proof (induction rule: chain.induct)
  case (chain_root t)
  then show ?case by (simp add: no_parent_no_ancestor)
next
  case (chain_step t p xs)
  then show ?case by (auto simp: trancl_parent [of par t p])
qed

lemma parent_rel_finite: "valid_parents par \<Longrightarrow> finite (parent_rel par)"
proof -
  assume "valid_parents par"
  then have "finite (dom par)" by (simp add: valid_parents_def)
  moreover have "parent_rel par \<subseteq> (\<lambda>c. (c, the (par c))) ` dom par" by (force simp: parent_rel_def)
  ultimately show ?thesis by (meson finite_imageI finite_subset)
qed

lemma hierarchy_wf: "hierarchy par \<Longrightarrow> wf ((parent_rel par)\<inverse>) \<and> wf (parent_rel par)"
  by (simp add: hierarchy_def parent_rel_finite finite_acyclic_wf finite_acyclic_wf_converse)

lemma chain_exists: assumes "hierarchy par" shows "\<exists>xs. chain par t xs"
  using hierarchy_wf [OF assms, THEN conjunct1]
proof (induction t rule: wf_induct_rule)
  case (less t)
  show ?case
  proof (cases "par t")
    case None
    then show ?thesis by (blast intro: chain_root)
  next
    case (Some p)
    with less [of p] obtain xs where "chain par p xs" by (auto simp: parent_rel_def)
    with Some show ?thesis by (blast intro: chain_step)
  qed
qed

lemma chain_distinct:
  assumes "chain par t xs" "acyclic (parent_rel par)" shows "distinct xs \<and> t \<notin> set xs"
  using assms
proof (induction rule: chain.induct)
  case (chain_step t p xs)
  have "set (p # xs) = {a. (t, a) \<in> (parent_rel par)\<^sup>+}"
    using chain_set [OF chain.chain_step [OF chain_step.hyps(1,2)]] .
  with chain_step show ?case by (auto simp: acyclic_def)
qed simp

lemma chain_valid: "chain par t xs \<Longrightarrow> valid_parents par \<Longrightarrow> \<forall>x \<in> set xs. valid_id x"
  by (induction rule: chain.induct) (auto dest: valid_parents_ids)

lemma ancestors_loop_spec:
  assumes "chain par t xs" "represents rc data s par" "valid_id t"
  shows "ancestors_loop rc s (GetParent rc s t) acc = Some (Inr (acc @ xs))"
  using assms
proof (induction arbitrary: acc rule: chain.induct)
  case (chain_root t)
  then show ?case by (simp add: GetParent_spec ancestors_loop.simps)
next
  case (chain_step t p xs)
  then have "valid_id p" by (auto simp: represents_def dest: valid_parents_ids)
  then have "p \<noteq> ''''" by (simp add: valid_id_def)
  with chain_step \<open>valid_id p\<close> show ?case
    by (subst ancestors_loop.simps) (simp add: GetParent_spec)
qed

lemma GetAncestors_spec:
  assumes "represents rc data s par" "chain par t xs" "valid_id t"
  shows "GetAncestors rc s t = Some (Inr xs)"
  using represents_loaded [OF assms(1)] ancestors_loop_spec [OF assms(2,1,3), of "[]"]
  by (simp add: GetAncestors_def)

section \<open>Descendants\<close>

lemma relpow_bound:
  assumes "hierarchy par" shows "\<exists>n. \<forall>m d. n \<le> m \<longrightarrow> (d, t) \<notin> parent_rel par ^^ m"
  using hierarchy_wf [OF assms, THEN conjunct2]
proof (induction t rule: wf_induct_rule)
  case (less t)
  let ?R = "parent_rel par"
  have "finite {c. (c, t) \<in> ?R}"
    using kids_finite [of par t] assms by (simp add: parent_rel_def hierarchy_def)
  moreover have "\<forall>c \<in> {c. (c, t) \<in> ?R}. \<exists>n. \<forall>m d. n \<le> m \<longrightarrow> (d, c) \<notin> ?R ^^ m" using less by simp
  ultimately obtain f where f: "\<forall>c \<in> {c. (c, t) \<in> ?R}. \<forall>m d. f c \<le> m \<longrightarrow> (d, c) \<notin> ?R ^^ m"
    using bchoice by metis
  define n where "n = Max (insert 0 (f ` {c. (c, t) \<in> ?R}))"
  have "(d, t) \<notin> ?R ^^ m" if mn: "Suc n \<le> m" for m d
  proof
    assume "(d, t) \<in> ?R ^^ m"
    moreover obtain m' where m': "m = Suc m'" "n \<le> m'" using mn by (cases m) auto
    ultimately obtain c where c: "(d, c) \<in> ?R ^^ m'" "(c, t) \<in> ?R" by auto
    then have "f c \<le> n" using \<open>finite {c. (c, t) \<in> ?R}\<close> by (simp add: n_def)
    with f c m'(2) show False by auto
  qed
  then show ?case by blast
qed

lemma pipelined_spec:
  assumes "represents rc data s par" "\<forall>i \<in> set ids. valid_id i"
  shows "pipelined rc s ids =
    Inr (concat (map (\<lambda>i. map (\<lambda>x. BuildSpsString i IsParentOfPredict [x]) (kids par i)) ids))"
  using assms(2) by (induction ids) (simp_all add: query_children [OF assms(1)])

lemma objects_of_append:
  "objects_of xs = Inr ys \<Longrightarrow> objects_of xs' = Inr ys' \<Longrightarrow> objects_of (xs @ xs') = Inr (ys @ ys')"
  by (induction xs arbitrary: ys) (auto split: sum.splits)

lemma objects_of_levels:
  assumes "valid_parents par" "\<forall>i \<in> set ids. valid_id i"
  shows "objects_of (concat (map (\<lambda>i. map (\<lambda>x. BuildSpsString i IsParentOfPredict [x]) (kids par i)) ids)) =
    Inr (concat (map (kids par) ids))"
  using assms(2)
proof (induction ids)
  case (Cons i ids)
  have "objects_of (map (\<lambda>x. BuildSpsString i IsParentOfPredict [x]) (kids par i)) = Inr (kids par i)"
    using Cons.prems kids_valid [OF assms(1)] by (intro objects_of_spo) auto
  with Cons show ?case by (simp add: objects_of_append)
qed simp

lemma descendants_loop_spec:
  assumes "represents rc data s par" "\<forall>i \<in> set ids. valid_id i" "\<forall>i \<in> set ids. \<forall>d. (d, i) \<notin> parent_rel par ^^ n"
  shows "\<exists>xs. descendants_loop rc s ids acc = Some (Inr (acc @ xs))
    \<and> set xs = {d. \<exists>i \<in> set ids. (d, i) \<in> (parent_rel par)\<^sup>+}"
  using assms(2,3)
proof (induction n arbitrary: ids acc)
  case 0
  then have "ids = []" by (cases ids) auto
  then show ?case by (simp add: descendants_loop.simps)
next
  case (Suc n)
  let ?R = "parent_rel par" and ?ids = "concat (map (kids par) ids)"
  have v: "valid_parents par" using assms(1) by (simp add: represents_def)
  have ks: "set ?ids = {c. \<exists>i \<in> set ids. (c, i) \<in> ?R}" by (auto simp: kids_set(1) [OF v] parent_rel_def)
  then have "\<forall>i \<in> set ?ids. \<forall>d. (d, i) \<notin> ?R ^^ n" using Suc.prems(2) by (auto intro: relpow_Suc_I)
  moreover have "\<forall>i \<in> set ?ids. valid_id i" using kids_valid [OF v] by auto
  ultimately obtain xs where xs: "descendants_loop rc s ?ids (acc @ ?ids) = Some (Inr ((acc @ ?ids) @ xs))"
    "set xs = {d. \<exists>i \<in> set ?ids. (d, i) \<in> ?R\<^sup>+}" using Suc.IH [of ?ids "acc @ ?ids"] by blast
  show ?case
  proof (cases "ids = []")
    case True
    then show ?thesis by (simp add: descendants_loop.simps)
  next
    case False
    then have "descendants_loop rc s ids acc = Some (Inr (acc @ (?ids @ xs)))"
      using xs(1) pipelined_spec [OF assms(1) Suc.prems(1)] objects_of_levels [OF v Suc.prems(1)]
      by (subst descendants_loop.simps) simp
    moreover have "set (?ids @ xs) = {d. \<exists>i \<in> set ids. (d, i) \<in> ?R\<^sup>+}"
      unfolding set_append xs(2) ks by (auto elim: tranclE intro: trancl_into_trancl)
    ultimately show ?thesis by blast
  qed
qed

lemma GetDescendants_spec:
  assumes "represents rc data s par" "hierarchy par" "valid_id t"
  shows "\<exists>xs. GetDescendants rc s t = Some (Inr xs) \<and> set xs = {d. (d, t) \<in> (parent_rel par)\<^sup>+}"
proof -
  obtain n where n: "\<forall>m d. n \<le> m \<longrightarrow> (d, t) \<notin> parent_rel par ^^ m" using relpow_bound [OF assms(2)] by blast
  have "\<forall>i \<in> set [t]. valid_id i" "\<forall>i \<in> set [t]. \<forall>d. (d, i) \<notin> parent_rel par ^^ n" using n assms(3) by auto
  from descendants_loop_spec [OF assms(1) this, of "[]"] show ?thesis
    using represents_loaded [OF assms(1)] by (simp add: GetDescendants_def)
qed

section \<open>The contract of the accessor\<close>

locale tenant_reads =
  fixes rep :: "'s \<Rightarrow> parents \<Rightarrow> bool"
    and parent :: "'s \<Rightarrow> string \<Rightarrow> tenancy_error + string"
    and children :: "'s \<Rightarrow> string \<Rightarrow> tenancy_error + string list"
    and ancestors :: "'s \<Rightarrow> string \<Rightarrow> (tenancy_error + string list) option"
    and descendants :: "'s \<Rightarrow> string \<Rightarrow> (tenancy_error + string list) option"
  assumes rep: "rep s par \<Longrightarrow> hierarchy par"
    and parent: "rep s par \<Longrightarrow> valid_id t \<Longrightarrow> parent s t = Inr (case par t of Some p \<Rightarrow> p | None \<Rightarrow> '''')"
    and children: "rep s par \<Longrightarrow> valid_id t \<Longrightarrow> children s t = Inr (kids par t)"
    and ancestors: "rep s par \<Longrightarrow> valid_id t \<Longrightarrow> chain par t xs \<Longrightarrow> ancestors s t = Some (Inr xs)"
    and descendants: "rep s par \<Longrightarrow> valid_id t \<Longrightarrow>
      \<exists>xs. descendants s t = Some (Inr xs) \<and> set xs = {d. (d, t) \<in> (parent_rel par)\<^sup>+}"
begin

lemma ancestors_return:
  assumes "rep s par" "valid_id t"
  shows "\<exists>xs. ancestors s t = Some (Inr xs) \<and> chain par t xs \<and> distinct xs \<and> set xs = {a. (t, a) \<in> (parent_rel par)\<^sup>+}"
proof -
  obtain xs where xs: "chain par t xs" using chain_exists rep [OF assms(1)] by blast
  moreover have "acyclic (parent_rel par)" using rep [OF assms(1)] by (simp add: hierarchy_def)
  ultimately show ?thesis using ancestors [OF assms xs] chain_distinct chain_set by blast
qed

lemma duality:
  assumes "rep s par" "valid_id a" "valid_id d"
  shows "\<exists>xs ys. ancestors s d = Some (Inr xs) \<and> descendants s a = Some (Inr ys) \<and> (a \<in> set xs \<longleftrightarrow> d \<in> set ys)"
proof -
  obtain xs where "ancestors s d = Some (Inr xs)" "set xs = {a. (d, a) \<in> (parent_rel par)\<^sup>+}"
    using ancestors_return [OF assms(1,3)] by blast
  moreover obtain ys where "descendants s a = Some (Inr ys)" "set ys = {d. (d, a) \<in> (parent_rel par)\<^sup>+}"
    using descendants [OF assms(1,2)] by blast
  ultimately show ?thesis by auto
qed

lemma not_own_ancestor:
  assumes "rep s par" "valid_id t" "ancestors s t = Some (Inr xs)" shows "t \<notin> set xs"
  using ancestors_return [OF assms(1,2)] assms(3) rep [OF assms(1)] by (auto simp: hierarchy_def acyclic_def)

end

interpretation redis_reads: tenant_reads "\<lambda>s par. represents rc data s par \<and> hierarchy par" "GetParent rc"
    "GetChildren rc" "GetAncestors rc" "GetDescendants rc" for rc :: "'r redis" and data :: "'r \<Rightarrow> redis_data"
  by unfold_locales (auto simp: GetParent_spec GetChildren_spec GetAncestors_spec GetDescendants_spec)

section \<open>Changing the hierarchy\<close>

lemma members_add:
  assumes "par c = None"
  shows "members (par(c \<mapsto> p)) = members par \<union>
    {BuildSpsString c IsChildrenOfPredict [p], BuildSpsString p IsParentOfPredict [c]}"
proof -
  have "(par(c \<mapsto> p)) x = Some y \<longleftrightarrow> par x = Some y \<or> x = c \<and> y = p" for x y using assms by auto
  then show ?thesis unfolding members_def by auto
qed

lemma parent_rel_add: "par c = None \<Longrightarrow> parent_rel (par(c \<mapsto> p)) = insert (c, p) (parent_rel par)"
  by (auto simp: parent_rel_def split: if_splits)

lemma valid_parents_add: "valid_parents par \<Longrightarrow> valid_id c \<Longrightarrow> valid_id p \<Longrightarrow> valid_parents (par(c \<mapsto> p))"
  by (auto simp: valid_parents_def)

lemma hierarchy_add:
  assumes "hierarchy par" "valid_id c" "valid_id p" "par c = None" "c \<noteq> p" "(p, c) \<notin> (parent_rel par)\<^sup>+"
  shows "hierarchy (par(c \<mapsto> p))"
  using assms by (simp add: hierarchy_def valid_parents_add parent_rel_add acyclic_insert rtrancl_eq_or_trancl)

lemma members_remove:
  assumes "valid_parents par" "par c = Some p"
  shows "members (par(c := None)) = members par -
    {BuildSpsString c IsChildrenOfPredict [p], BuildSpsString p IsParentOfPredict [c]}"
proof -
  define S where "S = {BuildSpsString c IsChildrenOfPredict [p], BuildSpsString p IsParentOfPredict [c]}"
  have v: "valid_id c" "valid_id p" using valid_parents_ids [OF assms] by auto
  have l: "linked (par(c := None)) s pr x \<longleftrightarrow> linked par s pr x \<and> BuildSpsString s pr [x] \<notin> S"
    if "pr \<in> predicates" for s pr x
  proof (cases "linked par s pr x")
    case True
    then have sx: "valid_id s" "valid_id x" using linked_valid [OF assms(1)] by auto
    have "BuildSpsString s pr [x] = BuildSpsString c IsChildrenOfPredict [p] \<longleftrightarrow> s = c \<and> pr = IsChildrenOfPredict \<and> x = p"
      "BuildSpsString s pr [x] = BuildSpsString p IsParentOfPredict [c] \<longleftrightarrow> s = p \<and> pr = IsParentOfPredict \<and> x = c"
      using sx that v by (intro spo_inject; simp)+
    with True that assms(2) show ?thesis unfolding linked_def S_def by (auto split: if_splits)
  qed (auto simp: linked_def)
  have "m \<in> members (par(c := None)) \<longleftrightarrow> m \<in> members par - S" for m
    unfolding Diff_iff members_iff using l by (metis (no_types))
  then show ?thesis unfolding S_def by blast
qed

lemma hierarchy_remove: "hierarchy par \<Longrightarrow> hierarchy (par(c := None))"
proof -
  assume h: "hierarchy par"
  have "parent_rel (par(c := None)) \<subseteq> parent_rel par" by (auto simp: parent_rel_def split: if_splits)
  with h show ?thesis by (auto simp: hierarchy_def valid_parents_def intro: acyclic_subset)
qed

text \<open>The root as the accessor sees it: stored, and cached or about to be.\<close>

definition rooted :: "('r \<Rightarrow> redis_data) \<Rightarrow> 'r accessor \<Rightarrow> string \<Rightarrow> bool" where
  "rooted data s r \<longleftrightarrow> r \<noteq> '''' \<and> strs (data (db s)) RootTenantKey = Some r \<and> cachedRootID s \<in> {'''', r}"

definition add_error :: "parents \<Rightarrow> string \<Rightarrow> string \<Rightarrow> string \<Rightarrow> tenancy_error option" where
  "add_error par r c p =
     (if par c \<noteq> None then Some AlreadyHasParent
      else if c = r then Some IsTheRoot
      else if c = p \<or> (p, c) \<in> (parent_rel par)\<^sup>+ then Some IntroducesCycle
      else None)"

lemma GetRoot_spec:
  assumes "represents rc data s par" "rooted data s r"
  shows "GetRoot rc s = (s\<lparr>cachedRootID := r\<rparr>, Inr r)"
  using assms represents_loaded [OF assms(1)]
  by (auto simp: GetRoot_def rooted_def represents_def answers_def)

lemma represents_cache: "represents rc data s par \<Longrightarrow> represents rc data (s\<lparr>cachedRootID := r\<rparr>) par"
  by (simp add: represents_def)

lemma AddTenant_checks_spec:
  assumes s: "represents rc data s par" "hierarchy par" "rooted data s r" and v: "valid_id c" "valid_id p"
  shows "\<exists>s'. AddTenant_checks rc s c p = Some (s', add_error par r c p) \<and> s' \<in> {s, s\<lparr>cachedRootID := r\<rparr>}"
proof -
  let ?s = "s\<lparr>cachedRootID := r\<rparr>"
  have "represents rc data ?s par \<and> hierarchy par" using s represents_cache by blast
  then obtain xs where xs: "GetAncestors rc ?s p = Some (Inr xs)" "set xs = {a. (p, a) \<in> (parent_rel par)\<^sup>+}"
    using redis_reads.ancestors_return v(2) by metis
  have ne: "c \<noteq> ''''" "p \<noteq> ''''" using v by (simp_all add: valid_id_def)
  have "par c = Some q \<Longrightarrow> q \<noteq> ''''" for q
    using s(1) valid_parents_ids [of par c q] by (auto simp: represents_def valid_id_def)
  then show ?thesis
    using ne GetParent_spec [OF s(1) v(1)] GetRoot_spec [OF s(1,3)] xs string_set.laws(1) [of xs c]
    by (cases "par c") (auto simp: AddTenant_checks_def add_error_def Let_def)
qed

lemma write_keeps:
  assumes "represents rc data s par" "rooted data s r" "\<And>d. answers rc data d"
    and "data d' = (data (db s))\<lparr>zsets := (zsets (data (db s)))(ZsetKey := members par')\<rparr> \<or> data d' = data (db s) \<and> par' = par"
    and "valid_parents par'"
  shows "represents rc data (s\<lparr>db := d'\<rparr>) par' \<and> rooted data (s\<lparr>db := d'\<rparr>) r"
  using assms by (auto simp: represents_def rooted_def)

lemma AddTenant_write_spec:
  assumes s: "represents rc data s par" "rooted data s r" "\<And>d. answers rc data d"
    and v: "valid_id c" "valid_id p" "par c = None"
    and w: "AddTenant_write rc s c p = (s', err)"
  shows "\<exists>par'. represents rc data s' par' \<and> rooted data s' r \<and> par' \<in> {par, par(c \<mapsto> p)} \<and> (err = None \<longrightarrow> par' = par(c \<mapsto> p))"
proof -
  have d: "redis_docs rc data" "zsets (data (db s)) ZsetKey = members par" "valid_parents par"
    using s(1) by (simp_all add: represents_def)
  obtain d' e where z: "rZAdd rc (db s) ZsetKey
      [BuildSpsString c IsChildrenOfPredict [p], BuildSpsString p IsParentOfPredict [c]] = (d', e)" by fastforce
  with w have w': "s' = s\<lparr>db := d'\<rparr>" "err = map_option RedisError e"
    by (simp_all add: AddTenant_write_def write_result_def)
  from redis_docs_ZAdd [OF d(1) z] consider
    "data d' = (data (db s))\<lparr>zsets := (zsets (data (db s)))(ZsetKey := members (par(c \<mapsto> p)))\<rparr>"
    | "e \<noteq> None" "data d' = data (db s)" by (auto simp: d(2) members_add [of par c, OF v(3)])
  then show ?thesis
  proof cases
    case 1
    with write_keeps [OF s, of d' "par(c \<mapsto> p)"] valid_parents_add [OF d(3) v(1,2)] w' show ?thesis by blast
  next
    case 2
    with write_keeps [OF s, of d' par] d(3) w' show ?thesis by auto
  qed
qed

lemma AddTenant_spec:
  assumes s: "represents rc data s par" "hierarchy par" "rooted data s r" "\<And>d. answers rc data d"
    and v: "valid_id c" "valid_id p"
  shows "\<exists>s' err par'. AddTenant rc s c p = Some (s', err) \<and> represents rc data s' par' \<and> hierarchy par' \<and> rooted data s' r
    \<and> (case add_error par r c p of
         Some e \<Rightarrow> err = Some e \<and> par' = par
       | None \<Rightarrow> par' \<in> {par, par(c \<mapsto> p)} \<and> (err = None \<longrightarrow> par' = par(c \<mapsto> p)))"
proof -
  obtain s1 where c: "AddTenant_checks rc s c p = Some (s1, add_error par r c p)" "s1 \<in> {s, s\<lparr>cachedRootID := r\<rparr>}"
    using AddTenant_checks_spec [OF s(1-3) v] by (elim exE conjE)
  have s1: "represents rc data s1 par" "rooted data s1 r"
    using c(2) s(1,3) represents_cache [OF s(1)] by (auto simp: rooted_def)
  show ?thesis
  proof (cases "add_error par r c p")
    case (Some e)
    then have "AddTenant rc s c p = Some (s1, Some e)" by (simp add: AddTenant_def c(1))
    with Some s(2) s1 show ?thesis by (intro exI [of _ s1] exI [of _ "Some e"] exI [of _ par]) simp
  next
    case None
    then have n: "par c = None" "c \<noteq> p" "(p, c) \<notin> (parent_rel par)\<^sup>+" by (auto simp: add_error_def split: if_splits)
    obtain s' err where w: "AddTenant_write rc s1 c p = (s', err)" by fastforce
    then have a: "AddTenant rc s c p = Some (s', err)" by (simp add: AddTenant_def c(1) None)
    from AddTenant_write_spec [OF s1 s(4) v n(1) w] obtain par' where p: "represents rc data s' par'" "rooted data s' r"
      "par' \<in> {par, par(c \<mapsto> p)}" "err = None \<longrightarrow> par' = par(c \<mapsto> p)" by blast
    then have "hierarchy par'" using s(2) hierarchy_add [OF s(2) v n] by auto
    with a p None show ?thesis by (intro exI [of _ s'] exI [of _ err] exI [of _ par']) simp
  qed
qed

definition remove_error :: "parents \<Rightarrow> string \<Rightarrow> tenancy_error option" where
  "remove_error par c =
     (if kids par c \<noteq> [] then Some StillHasChildren else if par c = None then Some IsRootNoParent else None)"

lemma RemoveTenant_error:
  assumes "represents rc data s par" "valid_id c" "remove_error par c = Some e"
  shows "RemoveTenant rc s c = (s, Some e)"
  using assms GetChildren_spec [OF assms(1,2)] GetParent_spec [OF assms(1,2)]
  by (auto simp: RemoveTenant_def remove_error_def valid_id_def split: if_splits)

lemma RemoveTenant_spec:
  assumes s: "represents rc data s par" "hierarchy par" "rooted data s r" "\<And>d. answers rc data d"
    and v: "valid_id c"
  shows "\<exists>s' err par'. RemoveTenant rc s c = (s', err) \<and> represents rc data s' par' \<and> hierarchy par' \<and> rooted data s' r
    \<and> (case remove_error par c of
         Some e \<Rightarrow> err = Some e \<and> par' = par
       | None \<Rightarrow> par' \<in> {par, par(c := None)} \<and> (err = None \<longrightarrow> par' = par(c := None)))"
proof (cases "remove_error par c")
  case (Some e)
  then show ?thesis using RemoveTenant_error [OF s(1) v Some] s(1,2,3)
    by (intro exI [of _ s] exI [of _ "Some e"] exI [of _ par]) simp
next
  case None
  then obtain p where p: "par c = Some p" "kids par c = []" by (auto simp: remove_error_def split: if_splits)
  have d: "redis_docs rc data" "zsets (data (db s)) ZsetKey = members par" "valid_parents par"
    using s(1) by (simp_all add: represents_def)
  obtain d' e where z: "rZRem rc (db s) ZsetKey
      [BuildSpsString c IsChildrenOfPredict [p], BuildSpsString p IsParentOfPredict [c]] = (d', e)" by fastforce
  have "c \<noteq> ''''" "p \<noteq> ''''" using v valid_parents_ids [OF d(3) p(1)] by (simp_all add: valid_id_def)
  then have r: "RemoveTenant rc s c = (s\<lparr>db := d'\<rparr>, map_option RedisError e)"
    using GetChildren_spec [OF s(1) v] GetParent_spec [OF s(1) v] p z by (simp add: RemoveTenant_def write_result_def)
  have vp: "valid_parents (par(c := None))" using hierarchy_remove [OF s(2)] by (simp add: hierarchy_def)
  from redis_docs_ZRem [OF d(1) z] consider
    "data d' = (data (db s))\<lparr>zsets := (zsets (data (db s)))(ZsetKey := members (par(c := None)))\<rparr>"
    | "e \<noteq> None" "data d' = data (db s)" by (auto simp: d(2) members_remove [OF d(3) p(1)])
  then show ?thesis
  proof cases
    case 1
    with write_keeps [OF s(1,3,4), of d' "par(c := None)"] vp r None hierarchy_remove [OF s(2)] show ?thesis
      by (intro exI [of _ "s\<lparr>db := d'\<rparr>"] exI [of _ "map_option RedisError e"] exI [of _ "par(c := None)"]) simp
  next
    case 2
    with write_keeps [OF s(1,3,4), of d' par] d(3) r None s(2) show ?thesis
      by (intro exI [of _ "s\<lparr>db := d'\<rparr>"] exI [of _ "map_option RedisError e"] exI [of _ par]) auto
  qed
qed

section \<open>Any sequence of changes\<close>

inductive tenant_step :: "'r redis \<Rightarrow> 'r accessor \<Rightarrow> 'r accessor \<Rightarrow> bool" for rc where
  add: "valid_id c \<Longrightarrow> valid_id p \<Longrightarrow> AddTenant rc s c p = Some (s', err) \<Longrightarrow> tenant_step rc s s'"
| remove: "valid_id c \<Longrightarrow> RemoveTenant rc s c = (s', err) \<Longrightarrow> tenant_step rc s s'"

definition tenancy_inv :: "'r redis \<Rightarrow> ('r \<Rightarrow> redis_data) \<Rightarrow> string \<Rightarrow> 'r accessor \<Rightarrow> bool" where
  "tenancy_inv rc data r s \<longleftrightarrow>
     (\<exists>par. represents rc data s par \<and> hierarchy par \<and> rooted data s r \<and> par r = None)"

lemma tenant_step_inv:
  assumes "tenant_step rc s s'" "tenancy_inv rc data r s" "\<And>d. answers rc data d"
  shows "tenancy_inv rc data r s'"
proof -
  obtain par where s: "represents rc data s par" "hierarchy par" "rooted data s r" and r: "par r = None"
    using assms(2) unfolding tenancy_inv_def by blast
  from assms(1) show ?thesis
  proof cases
    case (add c p err)
    obtain s'' err' par' where a: "AddTenant rc s c p = Some (s'', err')" "represents rc data s'' par'" "hierarchy par'"
      "rooted data s'' r" "case add_error par r c p of Some e \<Rightarrow> err' = Some e \<and> par' = par
        | None \<Rightarrow> par' \<in> {par, par(c \<mapsto> p)} \<and> (err' = None \<longrightarrow> par' = par(c \<mapsto> p))"
      using AddTenant_spec [OF s assms(3) add(1,2)] by (elim exE conjE)
    have "par' = par \<or> par' = par(c \<mapsto> p) \<and> c \<noteq> r" using a(5) by (auto simp: add_error_def split: option.splits if_splits)
    then have "par' r = None" using r by auto
    moreover have "s'' = s'" using a(1) add(3) by simp
    ultimately show ?thesis using a(2-4) unfolding tenancy_inv_def by blast
  next
    case (remove c err)
    obtain s'' err' par' where a: "RemoveTenant rc s c = (s'', err')" "represents rc data s'' par'" "hierarchy par'"
      "rooted data s'' r" "case remove_error par c of Some e \<Rightarrow> err' = Some e \<and> par' = par
        | None \<Rightarrow> par' \<in> {par, par(c := None)} \<and> (err' = None \<longrightarrow> par' = par(c := None))"
      using RemoveTenant_spec [OF s assms(3) remove(1)] by (elim exE conjE)
    have "par' = par \<or> par' = par(c := None)" using a(5) by (auto split: option.splits)
    then have "par' r = None" using r by auto
    moreover have "s'' = s'" using a(1) remove(2) by simp
    ultimately show ?thesis using a(2-4) unfolding tenancy_inv_def by blast
  qed
qed

lemma tenant_steps_inv:
  assumes "(tenant_step rc)\<^sup>*\<^sup>* s s'" "tenancy_inv rc data r s" "\<And>d. answers rc data d"
  shows "tenancy_inv rc data r s'"
  using assms(1,2) by (induction rule: rtranclp_induct) (auto intro: tenant_step_inv assms(3))

section \<open>Cycles\<close>

text \<open>On relations with a cycle the loop over the parents does not return.\<close>

lemma ancestors_loop_cycle:
  assumes "represents rc data s par" "par x = Some y" "par y = Some x"
  shows "ancestors_loop rc s (Inr x) acc = None \<and> ancestors_loop rc s (Inr y) acc = None"
proof -
  have v: "valid_parents par" using assms(1) by (simp add: represents_def)
  have xy: "valid_id x" "valid_id y" "x \<noteq> ''''" "y \<noteq> ''''"
    using valid_parents_ids [OF v assms(2)] by (simp_all add: valid_id_def)
  have "rc' = rc \<longrightarrow> s' = s \<longrightarrow> res \<notin> {Inr x, Inr y}" if "ancestors_loop rc' s' res acc = Some out" for rc' s' res acc out
  proof (rule ancestors_loop.raw_induct [where P = "\<lambda>rc' s' res acc out. rc' = rc \<longrightarrow> s' = s \<longrightarrow> res \<notin> {Inr x, Inr y}",
        OF _ that], intro impI notI)
    fix loop rc' s' res acc out
    assume ih: "\<And>rc' s' res acc out. loop rc' s' res acc = Some out \<Longrightarrow> rc' = rc \<longrightarrow> s' = s \<longrightarrow> res \<notin> {Inr x, Inr y}"
      and body: "(case res of Inl e \<Rightarrow> Some (Inl e) | Inr p \<Rightarrow> if p = '''' then Some (Inr acc)
         else loop rc' s' (GetParent rc' s' p) (acc @ [p])) = Some out"
      and eq: "rc' = rc" "s' = s" and r: "res \<in> {Inr x, Inr y}"
    from r obtain q where q: "res = Inr q" "GetParent rc s q \<in> {Inr x, Inr y}" "q \<noteq> ''''"
      using GetParent_spec [OF assms(1)] xy assms(2,3) by auto
    with body eq have "loop rc s (GetParent rc s q) (acc @ [q]) = Some out" by simp
    from ih [OF this] q(2) show False by simp
  qed
  then have "ancestors_loop rc s (Inr x) acc \<noteq> Some out" "ancestors_loop rc s (Inr y) acc \<noteq> Some out" for out
    by blast+
  then show ?thesis by (metis not_Some_eq)
qed

lemma GetAncestors_cycle:
  assumes "represents rc data s par" "par x = Some y" "par y = Some x"
  shows "GetAncestors rc s x = None"
proof -
  have "valid_id x" using assms valid_parents_ids [of par x y] by (simp add: represents_def)
  with represents_loaded [OF assms(1)] GetParent_spec [OF assms(1)] assms(2) ancestors_loop_cycle [OF assms] show ?thesis
    by (simp add: GetAncestors_def)
qed

section \<open>The tenancy path\<close>

lemma parse_all_spec:
  assumes "\<forall>x \<in> set xs. parse x = Inr (f x)"
  shows "parse_all parse xs acc = Inr (acc @ map f xs)"
  using assms by (induction xs arbitrary: acc) auto

text \<open>The swap loop reverses the segment it has not visited.\<close>

lemma reverse_loop_segment:
  "length bs = n \<Longrightarrow> reverse_loop (as @ bs @ cs) (length as) (length as + n - 1) = as @ rev bs @ cs"
proof (induction n arbitrary: as bs cs rule: less_induct)
  case (less n)
  show ?case
  proof (cases "n \<le> 1")
    case True
    with less.prems have "rev bs = bs" by (cases bs; cases "tl bs") auto
    with True less.prems show ?thesis by (subst reverse_loop.simps) auto
  next
    case False
    then obtain k where n: "n = Suc (Suc k)" by (metis One_nat_def Suc_le_mono le0 not0_implies_Suc)
    then obtain x ys y where bs: "bs = x # ys @ [y]" "length ys = k"
      using less.prems by (cases bs; cases "tl bs" rule: rev_cases) auto
    let ?p = "as @ bs @ cs" and ?ri = "length as + Suc k"
    have "?p ! ?ri = y" "?p ! length as = x" using bs by (simp_all add: nth_append)
    then have swap: "?p[length as := ?p ! ?ri, ?ri := ?p ! length as] = (as @ [y]) @ ys @ (x # cs)"
      using bs by (simp add: list_update_append)
    have "reverse_loop ((as @ [y]) @ ys @ (x # cs)) (length (as @ [y])) (length (as @ [y]) + k - 1)
        = (as @ [y]) @ rev ys @ (x # cs)" using n bs(2) by (intro less.IH) auto
    moreover have "length (as @ [y]) + k - 1 = ?ri - 1" "length as + n - 1 = ?ri" using n by auto
    ultimately show ?thesis using swap bs(1) by (subst reverse_loop.simps) simp
  qed
qed

lemma reverse_loop_rev: "reverse_loop p 0 (length p - 1) = rev p"
  using reverse_loop_segment [of p "length p" "[]" "[]"] by simp

section \<open>A sample hierarchy\<close>

definition sample_parents :: parents where
  "sample_parents = Map.empty(''b'' \<mapsto> ''a'', ''c'' \<mapsto> ''b'')"

definition sample_state :: "mem accessor" where
  "sample_state =
     \<lparr>cachedRootID = '''',
      db = \<lparr>mem_strs = [StatusKey \<mapsto> ''LOADED_1'', RootTenantKey \<mapsto> ''a''],
            mem_zsets = (\<lambda>k. if k = ZsetKey then
              [BuildSpsString ''b'' IsChildrenOfPredict [''a''], BuildSpsString ''a'' IsParentOfPredict [''b''],
               BuildSpsString ''c'' IsChildrenOfPredict [''b''], BuildSpsString ''b'' IsParentOfPredict [''c'']] else [])\<rparr>\<rparr>"

lemma sample_ids: "valid_id ''a''" "valid_id ''b''" "valid_id ''c''" "valid_id ''x''" "valid_id ''y''"
  by (simp_all add: valid_id_def)

lemma sample_hierarchy: "hierarchy sample_parents"
proof -
  let ?e = "Map.empty :: parents"
  have "hierarchy ?e" by (simp add: hierarchy_def valid_parents_def parent_rel_def acyclic_def)
  then have b: "hierarchy (?e(''b'' \<mapsto> ''a''))"
    by - (rule hierarchy_add, simp_all add: sample_ids no_parent_no_ancestor)
  have "(''b'', ''c'') \<notin> (parent_rel (?e(''b'' \<mapsto> ''a'')))\<^sup>+"
    by (simp add: trancl_parent [of _ "''b''" "''a''"] no_parent_no_ancestor)
  with b show ?thesis unfolding sample_parents_def by - (rule hierarchy_add, simp_all add: sample_ids)
qed

lemma sample_represents: "represents mem_redis mem_data sample_state sample_parents"
proof -
  have "members sample_parents = set (mem_zsets (db sample_state) ZsetKey)"
    unfolding sample_parents_def
    by (subst members_add, simp, subst members_add, simp) (auto simp: members_def sample_state_def)
  moreover have "valid_parents sample_parents" using sample_hierarchy by (simp add: hierarchy_def)
  moreover have "strs (mem_data (db sample_state)) StatusKey = Some ''LOADED_1''"
    by (simp add: sample_state_def mem_data_def StatusKey_def RootTenantKey_def)
  ultimately show ?thesis
    using mem_redis_docs mem_redis_answers by (simp add: represents_def mem_data_def STATUS_LOADED_def)
qed

lemma sample_rooted: "rooted mem_data sample_state ''a''"
  by (simp add: rooted_def mem_data_def sample_state_def)

lemma sample_inv: "tenancy_inv mem_redis mem_data ''a'' sample_state"
  using sample_represents sample_hierarchy sample_rooted
  by (auto simp: tenancy_inv_def sample_parents_def intro!: exI [of _ sample_parents])

section \<open>Properties\<close>

text \<open>C19: The lookups of the accessor return what the stored hierarchy says: the parent or the empty id, the
  children, the chain of ancestors from the parent up to the root, and the descendants. All of them
  return, also those whose loops follow the relations.\<close>

theorem tenant_lookups:
  assumes "represents rc data s par" "hierarchy par" "valid_id t"
  shows "GetParent rc s t = Inr (case par t of Some p \<Rightarrow> p | None \<Rightarrow> '''')
    \<and> (\<exists>cs. GetChildren rc s t = Inr cs \<and> distinct cs \<and> set cs = {c. par c = Some t})
    \<and> (\<exists>xs. GetAncestors rc s t = Some (Inr xs) \<and> chain par t xs \<and> distinct xs
         \<and> set xs = {a. (t, a) \<in> (parent_rel par)\<^sup>+})
    \<and> (\<exists>ds. GetDescendants rc s t = Some (Inr ds) \<and> set ds = {d. (d, t) \<in> (parent_rel par)\<^sup>+})"
proof -
  have r: "represents rc data s par \<and> hierarchy par" using assms by simp
  have v: "valid_parents par" using assms(2) by (simp add: hierarchy_def)
  show ?thesis
    using redis_reads.parent [OF r assms(3)] redis_reads.children [OF r assms(3)] kids_set(1) [OF v] kids_set(2)
      redis_reads.ancestors_return [OF r assms(3)] redis_reads.descendants [OF r assms(3)] by auto
qed

theorem tenant_lookups_witness:
  "GetParent mem_redis sample_state ''c'' = Inr ''b''
   \<and> (\<exists>xs. GetAncestors mem_redis sample_state ''c'' = Some (Inr xs) \<and> chain sample_parents ''c'' xs)
   \<and> (\<exists>ds. GetDescendants mem_redis sample_state ''c'' = Some (Inr ds))"
  using tenant_lookups [OF sample_represents sample_hierarchy sample_ids(3)] by (auto simp: sample_parents_def)

text \<open>C2: \<^verbatim>\<open>AddTenant\<close> returns, and refuses exactly a tenant that has a parent, the root, and a parent
  below the tenant or equal to it. Otherwise the only change it makes, and the change it has made when it
  reports success, is the new relation. \<^verbatim>\<open>RemoveTenant\<close> refuses tenants with children and tenants without a
  parent, and otherwise removes the relation.\<close>

theorem modifier_refines_hierarchy:
  assumes "represents rc data s par" "hierarchy par" "rooted data s r" "\<And>d. answers rc data d"
    and "valid_id c" "valid_id p"
  shows "(\<exists>s' err par'. AddTenant rc s c p = Some (s', err) \<and> represents rc data s' par' \<and> hierarchy par'
      \<and> (if par c \<noteq> None then err = Some AlreadyHasParent \<and> par' = par
         else if c = r then err = Some IsTheRoot \<and> par' = par
         else if c = p \<or> (p, c) \<in> (parent_rel par)\<^sup>+ then err = Some IntroducesCycle \<and> par' = par
         else par' \<in> {par, par(c \<mapsto> p)} \<and> (err = None \<longrightarrow> par' = par(c \<mapsto> p))))
    \<and> (\<exists>s' err par'. RemoveTenant rc s c = (s', err) \<and> represents rc data s' par' \<and> hierarchy par'
      \<and> (if \<exists>x. par x = Some c then err = Some StillHasChildren \<and> par' = par
         else if par c = None then err = Some IsRootNoParent \<and> par' = par
         else par' \<in> {par, par(c := None)} \<and> (err = None \<longrightarrow> par' = par(c := None))))"
    (is "?A \<and> ?R")
proof
  obtain s' err par' where a: "AddTenant rc s c p = Some (s', err)" "represents rc data s' par'" "hierarchy par'"
    "case add_error par r c p of Some e \<Rightarrow> err = Some e \<and> par' = par
      | None \<Rightarrow> par' \<in> {par, par(c \<mapsto> p)} \<and> (err = None \<longrightarrow> par' = par(c \<mapsto> p))"
    using AddTenant_spec [OF assms] by (elim exE conjE)
  then show ?A
    by (intro exI [of _ s'] exI [of _ err] exI [of _ par']) (auto simp: add_error_def)
next
  have "valid_parents par" using assms(2) by (simp add: hierarchy_def)
  from kids_set(1) [OF this, of c] have k: "kids par c \<noteq> [] \<longleftrightarrow> (\<exists>x. par x = Some c)"
    unfolding set_empty [symmetric] by simp
  obtain s' err par' where a: "RemoveTenant rc s c = (s', err)" "represents rc data s' par'" "hierarchy par'"
    "case remove_error par c of Some e \<Rightarrow> err = Some e \<and> par' = par
      | None \<Rightarrow> par' \<in> {par, par(c := None)} \<and> (err = None \<longrightarrow> par' = par(c := None))"
    using RemoveTenant_spec [OF assms(1-5)] by (elim exE conjE)
  then show ?R
    unfolding k [symmetric]
    by (intro exI [of _ s'] exI [of _ err] exI [of _ par']) (auto simp: remove_error_def)
qed

theorem modifier_refines_hierarchy_witness:
  "\<exists>s' err. AddTenant mem_redis sample_state ''a'' ''c'' = Some (s', err) \<and> err = Some IsTheRoot"
  using modifier_refines_hierarchy [OF sample_represents sample_hierarchy sample_rooted mem_redis_answers
      sample_ids(1) sample_ids(3)]
  by (auto simp: sample_parents_def)

text \<open>C4: However many tenants are added and removed, in any order, and even if writes to Redis fail with
  or without effect, the stored relations remain an acyclic hierarchy in which a tenant has at most
  one parent and the root has none.\<close>

theorem hierarchy_invariant:
  assumes "(tenant_step rc)\<^sup>*\<^sup>* s s'" "tenancy_inv rc data r s" "\<And>d. answers rc data d"
  shows "\<exists>par. zsets (data (db s')) ZsetKey = members par \<and> acyclic (parent_rel par) \<and> par r = None
    \<and> (\<forall>t. valid_id t \<longrightarrow> (\<exists>xs. GetAncestors rc s' t = Some (Inr xs) \<and> t \<notin> set xs))"
proof -
  obtain par where p: "represents rc data s' par" "hierarchy par" "par r = None"
    using tenant_steps_inv [OF assms] unfolding tenancy_inv_def by blast
  have "\<exists>xs. GetAncestors rc s' t = Some (Inr xs) \<and> t \<notin> set xs" if "valid_id t" for t
    using redis_reads.ancestors_return [of rc data s' par t] p that by (auto simp: hierarchy_def acyclic_def)
  with p show ?thesis by (intro exI [of _ par]) (simp add: represents_def hierarchy_def)
qed

theorem hierarchy_invariant_witness:
  "\<exists>s' par. (tenant_step mem_redis)\<^sup>*\<^sup>* sample_state s' \<and> zsets (mem_data (db s')) ZsetKey = members par
     \<and> acyclic (parent_rel par) \<and> par ''a'' = None"
proof -
  obtain s' err where "AddTenant mem_redis sample_state ''x'' ''c'' = Some (s', err)"
    using AddTenant_spec [OF sample_represents sample_hierarchy sample_rooted mem_redis_answers sample_ids(4,3)] by blast
  then have "(tenant_step mem_redis)\<^sup>*\<^sup>* sample_state s'"
    by (intro r_into_rtranclp tenant_step.add) (simp_all add: sample_ids)
  with hierarchy_invariant [OF this sample_inv mem_redis_answers] show ?thesis by blast
qed

end
