(* ===== verification/Tenant_Access.thy ===== *)
theory Tenant_Access
  imports Tenant_Hierarchy Security_Context
begin

text \<open>
  What relies on the tenant hierarchy: the access check of \<^verbatim>\<open>pkg/security/context.go\<close> (\<^verbatim>\<open>IsTenantValid\<close>,
  \<^verbatim>\<open>HasErrorAccessingTenant\<close>), the tenancy path, the loader, and two behaviours of the
  modifier under concurrency and failing reads.
\<close>

section \<open>Access to a tenant\<close>

definition IsTenantValid :: "'r redis \<Rightarrow> 'r accessor \<Rightarrow> string \<Rightarrow> 'r accessor \<times> bool" where
  "IsTenantValid rc s tenantId =
     (if (case GetParent rc s tenantId of Inr parentId \<Rightarrow> parentId \<noteq> '''' | Inl _ \<Rightarrow> False) then (s, True)
      else
        (case GetRoot rc s of
           (s', Inr rootId) \<Rightarrow> (s', rootId \<noteq> '''' \<and> rootId = tenantId)
         | (s', Inl _) \<Rightarrow> (s', False)))"

definition HasErrorAccessingTenant ::
    "'r redis \<Rightarrow> 'r accessor \<Rightarrow> authentication option \<Rightarrow> string \<Rightarrow> ('r accessor \<times> goerr option) option" where
  "HasErrorAccessingTenant rc s ctx tenantId =
     (case IsTenantValid rc s tenantId of
        (s', False) \<Rightarrow> Some (s', Some ErrorInvalidTenantId)
      | (s', True) \<Rightarrow>
         (case Details (security_Get ctx) of
            TenantAccessDetails ids \<Rightarrow>
              if StringSet_Has ids SpecialTenantIdWildcard then Some (s', None)
              else
                (case AnyHasDescendant rc s' (Some ids) tenantId of
                   None \<Rightarrow> None
                 | Some True \<Rightarrow> Some (s', None)
                 | Some False \<Rightarrow> Some (s', Some ErrorTenantAccessDenied))
          | _ \<Rightarrow> Some (s', Some ErrorTenantAccessDenied)))"

definition HasAccessToTenant ::
    "'r redis \<Rightarrow> 'r accessor \<Rightarrow> authentication option \<Rightarrow> string \<Rightarrow> bool option" where
  "HasAccessToTenant rc s ctx tenantId =
     map_option (\<lambda>res. snd res = None) (HasErrorAccessingTenant rc s ctx tenantId)"

lemma any_has_iff: "any_has ids xs \<longleftrightarrow> set ids \<inter> set xs \<noteq> {}"
  by (induction xs) (auto simp: StringSet_Has_def)

lemma AnyHasDescendant_spec:
  assumes "represents rc data s par" "hierarchy par" "valid_id t"
  shows "AnyHasDescendant rc s (Some ids) t = Some (\<exists>i \<in> set ids. i = t \<or> (t, i) \<in> (parent_rel par)\<^sup>+)"
proof -
  obtain xs where "GetAncestors rc s t = Some (Inr xs)" "set xs = {a. (t, a) \<in> (parent_rel par)\<^sup>+}"
    using redis_reads.ancestors_return [of rc data s par t] assms by blast
  with assms(3) show ?thesis by (auto simp: AnyHasDescendant_def StringSet_Has_def any_has_iff valid_id_def)
qed

lemma IsTenantValid_spec:
  assumes "represents rc data s par" "rooted data s r" "valid_id t"
  shows "\<exists>s'. IsTenantValid rc s t = (s', par t \<noteq> None \<or> t = r) \<and> s' \<in> {s, s\<lparr>cachedRootID := r\<rparr>}"
proof (cases "par t")
  case None
  with GetParent_spec [OF assms(1,3)] GetRoot_spec [OF assms(1,2)] assms(2) show ?thesis
    by (auto simp: IsTenantValid_def rooted_def)
next
  case (Some p)
  then have "p \<noteq> ''''" using assms(1) valid_parents_ids [of par t p] by (simp add: represents_def valid_id_def)
  with Some GetParent_spec [OF assms(1,3)] show ?thesis by (simp add: IsTenantValid_def)
qed

section \<open>Loading\<close>

text \<open>Every write is carried out.\<close>

definition accepts :: "'r redis \<Rightarrow> bool" where
  "accepts rc \<longleftrightarrow>
     (\<forall>d k v. snd (rSet rc d k v) = None) \<and> (\<forall>d k. snd (rDel rc d k) = None)
     \<and> (\<forall>d k ms. snd (rZAdd rc d k ms) = None) \<and> (\<forall>d k ms. snd (rZRem rc d k ms) = None)"

lemma accepts_Set: "accepts rc \<Longrightarrow> redis_docs rc data \<Longrightarrow>
    \<exists>d'. rSet rc d k v = (d', None) \<and> data d' = (data d)\<lparr>strs := (strs (data d))(k \<mapsto> v)\<rparr>"
  using redis_docs_Set [of rc data d k v "fst (rSet rc d k v)" None] by (auto simp: accepts_def prod_eq_iff)

lemma accepts_Del: "accepts rc \<Longrightarrow> redis_docs rc data \<Longrightarrow>
    \<exists>d'. rDel rc d k = (d', None)
      \<and> data d' = (data d)\<lparr>strs := (strs (data d))(k := None), zsets := (zsets (data d))(k := {})\<rparr>"
  using redis_docs_Del [of rc data d k "fst (rDel rc d k)" None] by (auto simp: accepts_def prod_eq_iff)

lemma accepts_ZAdd: "accepts rc \<Longrightarrow> redis_docs rc data \<Longrightarrow>
    \<exists>d'. rZAdd rc d k ms = (d', None) \<and> data d' = (data d)\<lparr>zsets := (zsets (data d))(k := zsets (data d) k \<union> set ms)\<rparr>"
  using redis_docs_ZAdd [of rc data d k ms "fst (rZAdd rc d k ms)" None] by (auto simp: accepts_def prod_eq_iff)

definition tenant_relations :: "(string \<times> string) list \<Rightarrow> string list" where
  "tenant_relations ts = concat (map (\<lambda>(c, p). if p = '''' then []
     else [BuildSpsString c IsChildrenOfPredict [p], BuildSpsString p IsParentOfPredict [c]]) ts)"

definition parents_of :: "(string \<times> string) list \<Rightarrow> parents" where
  "parents_of ts = map_of (filter (\<lambda>(c, p). p \<noteq> '''') ts)"

lemma parents_of_iff:
  assumes "distinct (map fst ts)" shows "parents_of ts c = Some p \<longleftrightarrow> (c, p) \<in> set ts \<and> p \<noteq> ''''"
proof -
  have "distinct (map fst (filter (\<lambda>(c, p). p \<noteq> '''') ts))" using assms by (simp add: distinct_map_filter)
  then show ?thesis by (simp add: parents_of_def)
qed

lemma members_parents_of:
  assumes "distinct (map fst ts)" shows "members (parents_of ts) = set (tenant_relations ts)"
  unfolding members_def parents_of_iff [OF assms] tenant_relations_def by (force split: if_splits)

lemma scan_loop_spec:
  assumes "accepts rc" "redis_docs rc data"
  shows "\<exists>d'. scan_loop rc d (map Inr ts) rels = (d', Inr (rels @ tenant_relations ts))
    \<and> data d' = (data d)\<lparr>strs := foldl (\<lambda>m (c, p). if p = '''' then m(RootTenantKey \<mapsto> c) else m) (strs (data d)) ts\<rparr>"
proof (induction ts arbitrary: d rels)
  case (Cons t ts)
  obtain c p where t: "t = (c, p)" by fastforce
  show ?case
  proof (cases "p = ''''")
    case True
    obtain d1 where d1: "rSet rc d RootTenantKey c = (d1, None)"
      "data d1 = (data d)\<lparr>strs := (strs (data d))(RootTenantKey \<mapsto> c)\<rparr>" using accepts_Set [OF assms] by blast
    obtain d' where d': "scan_loop rc d1 (map Inr ts) rels = (d', Inr (rels @ tenant_relations ts))"
      "data d' = (data d1)\<lparr>strs := foldl (\<lambda>m (c, p). if p = '''' then m(RootTenantKey \<mapsto> c) else m) (strs (data d1)) ts\<rparr>"
      using Cons.IH by blast
    have "tenant_relations (t # ts) = tenant_relations ts" using True by (simp add: t tenant_relations_def)
    moreover have "scan_loop rc d (map Inr (t # ts)) rels = scan_loop rc d1 (map Inr ts) rels"
      using True d1(1) by (simp add: t)
    ultimately show ?thesis using d' d1(2) True by (intro exI [of _ d']) (simp add: t)
  next
    case False
    from Cons.IH [of d "rels @ [BuildSpsString c IsChildrenOfPredict [p], BuildSpsString p IsParentOfPredict [c]]"] False
    show ?thesis by (simp add: t tenant_relations_def)
  qed
qed (simp add: tenant_relations_def)

lemma load_tx_spec:
  assumes rc: "accepts rc" "redis_docs rc data" "\<And>d. answers rc data d"
    and ts: "distinct (map fst ts)" "filter (\<lambda>(c, p). p = '''') ts = [(r, '''')]"
  shows "\<exists>d'. load_tx rc uuid (Inr (map Inr ts)) d = (d', None)
    \<and> zsets (data d') ZsetKey = members (parents_of ts)
    \<and> strs (data d') StatusKey = Some (STATUS_LOADED @ ''_'' @ uuid) \<and> strs (data d') RootTenantKey = Some r"
proof -
  let ?put = "\<lambda>m (c, p). if p = '''' then m(RootTenantKey \<mapsto> c) else m"
  have put: "foldl ?put m xs = foldl ?put m (filter (\<lambda>(c, p). p = '''') xs)" for m :: "string \<rightharpoonup> string" and xs
    by (induction xs arbitrary: m) auto
  obtain d1 where d1: "rDel rc d ZsetKey = (d1, None)" "zsets (data d1) ZsetKey = {}"
    using accepts_Del [OF rc(1,2), of d ZsetKey] by auto
  obtain d2 where d2: "scan_loop rc d1 (map Inr ts) [] = (d2, Inr (tenant_relations ts))"
    "data d2 = (data d1)\<lparr>strs := foldl ?put (strs (data d1)) ts\<rparr>"
    using scan_loop_spec [OF rc(1,2), of d1 ts "[]"] by auto
  then have r2: "strs (data d2) RootTenantKey = Some r" "zsets (data d2) ZsetKey = {}"
    using d1(2) put [of "strs (data d1)" ts] ts(2) by simp_all
  then have g: "rGet rc d2 RootTenantKey = Inr r" using rc(3) [of d2] by (simp add: answers_def)
  obtain d3 where d3: "(if length (tenant_relations ts) \<noteq> 0 then rZAdd rc d2 ZsetKey (tenant_relations ts) else (d2, None)) = (d3, None)"
    "zsets (data d3) ZsetKey = set (tenant_relations ts)" "strs (data d3) RootTenantKey = Some r"
    using accepts_ZAdd [OF rc(1,2), of d2 ZsetKey "tenant_relations ts"] r2 by (cases "tenant_relations ts") auto
  obtain d4 where d4: "rSet rc d3 StatusKey (STATUS_LOADED @ ''_'' @ uuid) = (d4, None)"
    "data d4 = (data d3)\<lparr>strs := (strs (data d3))(StatusKey \<mapsto> STATUS_LOADED @ ''_'' @ uuid)\<rparr>"
    using accepts_Set [OF rc(1,2)] by blast
  have "load_tx rc uuid (Inr (map Inr ts)) d = (d4, None)"
    unfolding load_tx_def by (simp only: d1(1) d2(1) g d3(1) d4(1) prod.case sum.case option.case option.map)
  moreover have "zsets (data d4) ZsetKey = members (parents_of ts)"
    using d3(2) d4(2) by (simp add: members_parents_of [OF ts(1)])
  moreover have "RootTenantKey \<noteq> StatusKey" by (simp add: RootTenantKey_def StatusKey_def)
  then have "strs (data d4) RootTenantKey = Some r" "strs (data d4) StatusKey = Some (STATUS_LOADED @ ''_'' @ uuid)"
    using d3(3) d4(2) by simp_all
  ultimately show ?thesis by blast
qed

section \<open>Properties\<close>



text \<open>The tenancy path lists the ids from the root down to the tenant: the parsed ancestors in
  reverse order, then the tenant; the in-place swap loop reverses the list for every length.\<close>

lemma tenancy_path:
  assumes "represents rc data s par" "valid_id t" "chain par t xs"
    and "\<forall>u \<in> set (t # xs). uuid_Parse u = Inr (f u)"
  shows "GetTenancyPath uuid_Parse rc s t = Some (Inr (map f (rev xs @ [t])))"
  using GetAncestors_spec [OF assms(1,3,2)] parse_all_spec [of xs uuid_Parse f "[f t]"] assms(4) reverse_loop_rev [of "f t # map f xs"]
  by (simp add: GetTenancyPath_def rev_map)

text \<open>C20: Loading a store whose scan yields distinct tenants with one root, over a database that accepts the
  writes, succeeds whatever the database held before, and the accessor then represents exactly the
  parents of the store. The hypothesis on \<^verbatim>\<open>Watch\<close> is that it runs its function once and returns its
  error.\<close>

theorem load_tenant_hierarchy:
  assumes "accepts rc" "redis_docs rc data" "\<And>d. answers rc data d" "\<And>f d. watch f d = f d"
    and "distinct (map fst ts)" "filter (\<lambda>(c, p). p = '''') ts = [(r, '''')]"
    and "\<forall>(c, p) \<in> set ts. valid_id c \<and> (p = '''' \<or> valid_id p)" "cachedRootID s = ''''"
  shows "\<exists>s'. LoadTenantHierarchy rc watch uuid (Inr (map Inr ts)) s = (s', None)
    \<and> represents rc data s' (parents_of ts) \<and> rooted data s' r"
proof -
  obtain d1 where d1: "rSet rc (db s) StatusKey STATUS_IN_PROGRESS = (d1, None)" using accepts_Set [OF assms(1,2)] by blast
  obtain d2 where d2: "rDel rc d1 ZsetKey = (d2, None)" using accepts_Del [OF assms(1,2)] by blast
  obtain d3 where d3: "rDel rc d2 RootTenantKey = (d3, None)" using accepts_Del [OF assms(1,2)] by blast
  obtain d4 where d4: "load_tx rc uuid (Inr (map Inr ts)) d3 = (d4, None)" "zsets (data d4) ZsetKey = members (parents_of ts)"
    "strs (data d4) StatusKey = Some (STATUS_LOADED @ ''_'' @ uuid)" "strs (data d4) RootTenantKey = Some r"
    using load_tx_spec [OF assms(1-3,5,6), of uuid d3] by (elim exE conjE)
  have "LoadTenantHierarchy rc watch uuid (Inr (map Inr ts)) s = (s\<lparr>db := d4\<rparr>, None)"
    unfolding LoadTenantHierarchy_def by (simp add: d1 d2 d3 assms(4) d4(1) Let_def)
  moreover have "valid_parents (parents_of ts)"
    unfolding valid_parents_def parents_of_iff [OF assms(5)] using assms(7)
    by (auto simp: parents_of_def finite_dom_map_of)
  moreover have "r \<noteq> ''''"
  proof -
    have "(r, '''') \<in> set (filter (\<lambda>(c, p). p = '''') ts)" by (simp add: assms(6))
    then show ?thesis using assms(7) by (auto simp: valid_id_def)
  qed
  ultimately show ?thesis
    using assms(2,3,8) d4 by (intro exI [of _ "s\<lparr>db := d4\<rparr>"]) (simp add: represents_def rooted_def)
qed

theorem load_tenant_hierarchy_witness:
  "\<exists>s'. LoadTenantHierarchy mem_redis (\<lambda>f. f) ''1'' (Inr (map Inr [(''a'', ''''), (''b'', ''a'')])) sample_state = (s', None)
    \<and> represents mem_redis mem_data s' [''b'' \<mapsto> ''a''] \<and> rooted mem_data s' ''a''"
proof -
  have "accepts mem_redis" by (simp add: accepts_def mem_redis_def)
  from load_tenant_hierarchy [OF this mem_redis_docs mem_redis_answers, of "\<lambda>f. f"
      "[(''a'', ''''), (''b'', ''a'')]" "''a''" sample_state "''1''"]
  show ?thesis by (simp add: sample_ids parents_of_def sample_state_def)
qed

text \<open>C26: The checks of \<^verbatim>\<open>AddTenant\<close> and its write are separate commands, so two calls that run at the same
  time can both pass their checks and together close a cycle between two new tenants, after which the
  lookup of the ancestors does not return. One after the other, the second call is refused.\<close>

theorem concurrent_adds_close_a_cycle:
  assumes s: "represents rc data s par" "hierarchy par" "rooted data s r" "\<And>d. answers rc data d"
    and v: "valid_id x" "valid_id y" "x \<noteq> y" "x \<noteq> r" "y \<noteq> r" "par x = None" "par y = None"
    and run: "AddTenant_checks rc s x y = Some (s1, e1)" "AddTenant_checks rc s1 y x = Some (s2, e2)"
      "AddTenant_write rc s2 x y = (s3, None)" "AddTenant_write rc s3 y x = (s4, None)"
  shows "e1 = None \<and> e2 = None \<and> GetAncestors rc s4 x = None
    \<and> (\<forall>t. AddTenant rc s x y = Some (t, None) \<longrightarrow> (\<exists>u. AddTenant rc t y x = Some (u, Some IntroducesCycle)))"
proof -
  have free: "add_error par r x y = None" "add_error par r y x = None"
    using v by (simp_all add: add_error_def no_parent_no_ancestor)
  obtain s1' where "AddTenant_checks rc s x y = Some (s1', None)" "s1' \<in> {s, s\<lparr>cachedRootID := r\<rparr>}"
    using AddTenant_checks_spec [OF s(1-3) v(1,2)] unfolding free by (elim exE conjE)
  with run(1) have s1: "e1 = None" "represents rc data s1 par" "rooted data s1 r"
    using s(1,3) represents_cache [OF s(1)] by (auto simp: rooted_def)
  obtain s2' where "AddTenant_checks rc s1 y x = Some (s2', None)" "s2' \<in> {s1, s1\<lparr>cachedRootID := r\<rparr>}"
    using AddTenant_checks_spec [OF s1(2) s(2) s1(3) v(2,1)] unfolding free by (elim exE conjE)
  with run(2) have s2: "e2 = None" "represents rc data s2 par" "rooted data s2 r"
    using s1(2,3) represents_cache [OF s1(2)] by (auto simp: rooted_def)
  have s3: "represents rc data s3 (par(x \<mapsto> y))" "rooted data s3 r"
    using AddTenant_write_spec [OF s2(2,3) s(4) v(1,2,6) run(3)] by auto
  have "(par(x \<mapsto> y)) y = None" using v by simp
  from AddTenant_write_spec [OF s3 s(4) v(2,1) this run(4)]
  have "represents rc data s4 (par(x \<mapsto> y, y \<mapsto> x))" by (elim exE conjE) (simp only: simp_thms)
  from GetAncestors_cycle [OF this] have "GetAncestors rc s4 x = None" using v(3) by simp
  moreover have "\<exists>u. AddTenant rc t y x = Some (u, Some IntroducesCycle)" if "AddTenant rc s x y = Some (t, None)" for t
  proof -
    obtain t' err par' where t: "AddTenant rc s x y = Some (t', err)" "represents rc data t' par'" "hierarchy par'"
      "rooted data t' r" "err = None \<longrightarrow> par' = par(x \<mapsto> y)"
      using AddTenant_spec [OF s v(1,2)] unfolding free by auto
    with that have p: "t' = t" "par' = par(x \<mapsto> y)" by simp_all
    then have "(x, y) \<in> (parent_rel par')\<^sup>+" by (intro r_into_trancl) (simp add: parent_rel_def)
    then have "add_error par' r y x = Some IntroducesCycle" using v p by (simp add: add_error_def)
    with AddTenant_spec [OF t(2-4) s(4) v(2,1)] p(1) show ?thesis by auto
  qed
  ultimately show ?thesis using s1(1) s2(1) by blast
qed

theorem concurrent_adds_close_a_cycle_witness:
  "\<exists>s1 s2 s3 s4. AddTenant_checks mem_redis sample_state ''x'' ''y'' = Some (s1, None)
     \<and> AddTenant_checks mem_redis s1 ''y'' ''x'' = Some (s2, None)
     \<and> AddTenant_write mem_redis s2 ''x'' ''y'' = (s3, None) \<and> AddTenant_write mem_redis s3 ''y'' ''x'' = (s4, None)
     \<and> GetAncestors mem_redis s4 ''x'' = None"
proof -
  have free: "add_error sample_parents ''a'' ''x'' ''y'' = None" "add_error sample_parents ''a'' ''y'' ''x'' = None"
    by (simp_all add: add_error_def no_parent_no_ancestor sample_parents_def)
  obtain s1 where s1: "AddTenant_checks mem_redis sample_state ''x'' ''y'' = Some (s1, None)"
    "s1 \<in> {sample_state, sample_state\<lparr>cachedRootID := ''a''\<rparr>}"
    using AddTenant_checks_spec [OF sample_represents sample_hierarchy sample_rooted sample_ids(4,5)]
    unfolding free by (elim exE conjE)
  then have "represents mem_redis mem_data s1 sample_parents" "rooted mem_data s1 ''a''"
    using sample_represents represents_cache [OF sample_represents] sample_rooted by (auto simp: rooted_def)
  from AddTenant_checks_spec [OF this(1) sample_hierarchy this(2) sample_ids(5,4)]
  obtain s2 where s2: "AddTenant_checks mem_redis s1 ''y'' ''x'' = Some (s2, None)" unfolding free by blast
  obtain s3 where s3: "AddTenant_write mem_redis s2 ''x'' ''y'' = (s3, None)"
    by (simp add: AddTenant_write_def write_result_def mem_redis_def)
  obtain s4 where s4: "AddTenant_write mem_redis s3 ''y'' ''x'' = (s4, None)"
    by (simp add: AddTenant_write_def write_result_def mem_redis_def)
  have "GetAncestors mem_redis s4 ''x'' = None"
    using concurrent_adds_close_a_cycle [OF sample_represents sample_hierarchy sample_rooted mem_redis_answers
        sample_ids(4,5) _ _ _ _ _ s1(1) s2 s3 s4] by (simp add: sample_parents_def)
  with s1(1) s2 s3 s4 show ?thesis by blast
qed

definition flaky_redis :: "mem redis" where
  "flaky_redis = mem_redis\<lparr>rZRangeByLex := (\<lambda>d k lo hi. ([], Some ''timeout''))\<rparr>"

lemma two_parents_query:
  assumes "mem_zsets (db s) ZsetKey = mem_zsets (db sample_state) ZsetKey @
      [BuildSpsString ''c'' IsChildrenOfPredict [''a''], BuildSpsString ''a'' IsParentOfPredict [''c'']]"
  shows "length (fst (relations_query mem_redis s ''c'' IsChildrenOfPredict)) = 2"
proof -
  define in_range where "in_range = (\<lambda>m. BuildSpsString ''c'' IsChildrenOfPredict [] \<le> m
    \<and> m \<le> BuildSpsString ''c'' IsChildrenOfPredict [RedisZsetMaxByte])"
  have "in_range (BuildSpsString t pr [x]) \<longleftrightarrow> t = ''c'' \<and> pr = IsChildrenOfPredict"
    if "valid_id t" "valid_id x" "pr \<in> predicates" for t pr x
    unfolding in_range_def using that by (intro spo_in_range) (simp_all add: sample_ids)
  then have "filter in_range (mem_zsets (db s) ZsetKey) =
      [BuildSpsString ''c'' IsChildrenOfPredict [''b''], BuildSpsString ''c'' IsChildrenOfPredict [''a'']]"
    unfolding assms by (simp add: sample_state_def sample_ids)
  then have "fst (relations_query mem_redis s ''c'' IsChildrenOfPredict) = sorted_list_of_set
      {BuildSpsString ''c'' IsChildrenOfPredict [''b''], BuildSpsString ''c'' IsChildrenOfPredict [''a'']}"
    unfolding relations_query_def Let_def mem_redis_def ZInclusive_def in_range_def
    by (simp del: sorted_list_of_set_insert_remove set_filter)
  moreover have "card {BuildSpsString ''c'' IsChildrenOfPredict [''b''], BuildSpsString ''c'' IsChildrenOfPredict [''a'']} = 2"
    by (simp add: spo_inject sample_ids)
  ultimately show "length (fst (relations_query mem_redis s ''c'' IsChildrenOfPredict)) = 2"
    by (simp only: length_sorted_list_of_set)
qed

text \<open>\<^verbatim>\<open>GetParent\<close> ignores the error of its range query and then reports a tenant without a
  parent. With a client that meets the documentation but whose range queries fail, \<^verbatim>\<open>AddTenant\<close> gives a
  tenant that has a parent a second one, and reports success.\<close>

lemma failed_read_gives_second_parent:
  "redis_docs flaky_redis mem_data
   \<and> (\<exists>s'. AddTenant flaky_redis sample_state ''c'' ''a'' = Some (s', None)
        \<and> GetParent mem_redis sample_state ''c'' = Inr ''b''
        \<and> GetParent mem_redis s' ''c'' = Inl (MultipleParents 2))"
proof -
  have "redis_docs flaky_redis mem_data"
    unfolding redis_docs_def flaky_redis_def
    by (auto simp: mem_redis_def mem_data_def ZInclusive_def fun_eq_iff split: option.splits)
  have q: "relations_query flaky_redis s t pr = ([], Some ''timeout'')" for s t pr
    by (simp add: relations_query_def flaky_redis_def)
  have l: "IsLoaded flaky_redis sample_state" "rGet flaky_redis (db sample_state) RootTenantKey = Inr ''a''"
    by (simp_all add: IsLoaded_def flaky_redis_def mem_redis_def sample_state_def StatusKey_def RootTenantKey_def
        strings_HasPrefix_def STATUS_LOADED_def)
  then have p: "GetParent flaky_redis sample_state t = Inr ''''" for t by (simp add: GetParent_def q Let_def)
  define s' where "s' = fst (AddTenant_write flaky_redis (sample_state\<lparr>cachedRootID := ''a''\<rparr>) ''c'' ''a'')"
  have "IsLoaded flaky_redis (sample_state\<lparr>cachedRootID := ''a''\<rparr>)" using l(1) by (simp add: IsLoaded_def)
  then have "GetAncestors flaky_redis (sample_state\<lparr>cachedRootID := ''a''\<rparr>) ''a'' = Some (Inr [])"
    by (simp add: GetAncestors_def GetParent_def q Let_def ancestors_loop.simps)
  then have a: "AddTenant flaky_redis sample_state ''c'' ''a'' = Some (s', None)"
    using l p by (simp add: AddTenant_def AddTenant_checks_def GetRoot_def sample_state_def s'_def AddTenant_write_def
        write_result_def flaky_redis_def mem_redis_def NewStringSet_def StringSet_Add_def StringSet_Has_def Let_def)
  have z: "mem_zsets (db s') ZsetKey = mem_zsets (db sample_state) ZsetKey @
      [BuildSpsString ''c'' IsChildrenOfPredict [''a''], BuildSpsString ''a'' IsParentOfPredict [''c'']]"
    by (simp add: s'_def AddTenant_write_def write_result_def flaky_redis_def mem_redis_def)
  note two_parents_query [OF z]
  moreover have "IsLoaded mem_redis s'"
    by (simp add: IsLoaded_def s'_def AddTenant_write_def write_result_def flaky_redis_def mem_redis_def sample_state_def
        StatusKey_def RootTenantKey_def strings_HasPrefix_def STATUS_LOADED_def)
  ultimately have "GetParent mem_redis s' ''c'' = Inl (MultipleParents 2)"
    by (auto simp: GetParent_def Let_def)
  moreover have "GetParent mem_redis sample_state ''c'' = Inr ''b''"
    using GetParent_spec [OF sample_represents sample_ids(3)] by (simp add: sample_parents_def)
  ultimately show ?thesis using a \<open>redis_docs flaky_redis mem_data\<close> by blast
qed

end
