(* ===== verification/Otp.thy ===== *)
theory Otp
  imports Security_Errors
begin

text \<open>
  One-time passcodes, \<^verbatim>\<open>pkg/security/passwd/totp.go\<close> and \<^verbatim>\<open>otp_store.go\<close>. The TOTP library
  (\<^verbatim>\<open>github.com/pquerna/otp\<close>) is the argument \<open>lib\<close>, the bytes read from \<^verbatim>\<open>rand.Reader\<close> and the random
  UUID are arguments of the operations that draw them, and so is every reading of the clock. The
  counters are unsigned 64 bit words. The argument \<open>a\<close> is the address of the errors made.

  The OTP store is an interface of the manager: \<open>otp_store\<close> is the record of its operations, the locale
  \<open>otp_storage\<close> their contract, and \<^verbatim>\<open>inmemOtpStore\<close> the implementation that meets it. A store returns a
  one-time passcode or an error, never neither. The in-memory store shares its entries with the manager,
  which saves or deletes an entry after every change, so values in place of pointers make no difference.
\<close>

section \<open>The TOTP factory\<close>

record TOTP =
  Passcode :: string
  Secret :: string
  TTL :: duration
  Expire :: time

record totp_opts =
  Period :: "64 word"
  Skew :: "64 word"
  Digits :: int
  Algorithm :: nat

record totp_lib =
  GenerateCodeCustom :: "string \<Rightarrow> time \<Rightarrow> totp_opts \<Rightarrow> goerr + string"
  ValidateCustom :: "string \<Rightarrow> string \<Rightarrow> time \<Rightarrow> totp_opts \<Rightarrow> goerr + bool"

record totpFactory =
  skew :: "64 word"
  digits :: int
  alg :: nat
  secretSize :: int

definition second :: duration where "second = 1000000000"

text \<open>\<^verbatim>\<open>Duration.Round\<close> rounds half away from zero.\<close>

definition Duration_Round :: "duration \<Rightarrow> duration \<Rightarrow> duration" where
  "Duration_Round d m =
     (if m \<le> 0 then d
      else if d < 0 then (let r = (- d) mod m in if r + r < m then d + r else d - m + r)
      else (let r = d mod m in if r + r < m then d - r else d + m - r))"

text \<open>Base 32 without padding: groups of five bits, the last one filled with zero bits.\<close>

fun five_bits :: "bool list \<Rightarrow> nat" where
  "five_bits bs = foldl (\<lambda>n b. 2 * n + (if b then 1 else 0)) 0 (take 5 (bs @ replicate 5 False))"

fun groups5 :: "bool list \<Rightarrow> nat list" where
  "groups5 [] = []"
| "groups5 (b # bs) = five_bits (b # bs) # groups5 (drop 4 bs)"

definition base32_NoPadding :: "byte list \<Rightarrow> string" where
  "base32_NoPadding bytes =
     map (\<lambda>n. ''ABCDEFGHIJKLMNOPQRSTUVWXYZ234567'' ! n)
       (groups5 (concat (map (\<lambda>b. map (bit b) [7, 6, 5, 4, 3, 2, 1, 0]) bytes)))"

definition newTotpFactory :: "(totpFactory \<Rightarrow> totpFactory) list \<Rightarrow> totpFactory" where
  "newTotpFactory options = fold (\<lambda>opt. opt) options \<lparr>skew = 0, digits = 6, alg = 0, secretSize = 20\<rparr>"

text \<open>\<open>rand n\<close> is the result of reading \<open>n\<close> random bytes.\<close>

definition generateSecret :: "totpFactory \<Rightarrow> (nat \<Rightarrow> goerr + byte list) \<Rightarrow> goerr + string" where
  "generateSecret f rand =
     (case rand (nat (secretSize f)) of
        Inl err \<Rightarrow> Inl err
      | Inr secret \<Rightarrow> Inr (base32_NoPadding secret))"

definition validate_opts :: "totpFactory \<Rightarrow> duration \<Rightarrow> totp_opts" where
  "validate_opts f ttl =
     \<lparr>Period = word_of_int (ttl div second), Skew = skew f, Digits = digits f, Algorithm = alg f\<rparr>"

definition totpFactory_Refresh ::
    "totp_lib \<Rightarrow> nat \<Rightarrow> time \<Rightarrow> totpFactory \<Rightarrow> string \<Rightarrow> duration \<Rightarrow> goerr + TOTP" where
  "totpFactory_Refresh lib a now f secret ttl =
     (if ttl < second then Inl (PlainError a ''ttl should be greater or equals to 1 seconds'')
      else let ttl = Duration_Round ttl second
           in case GenerateCodeCustom lib secret now (validate_opts f ttl) of
                Inl err \<Rightarrow> Inl err
              | Inr passcode \<Rightarrow>
                  Inr \<lparr>Passcode = passcode, Secret = secret, TTL = ttl, Expire = now + ttl\<rparr>)"

definition totpFactory_Generate ::
    "totp_lib \<Rightarrow> nat \<Rightarrow> time \<Rightarrow> (nat \<Rightarrow> goerr + byte list) \<Rightarrow> totpFactory \<Rightarrow> duration \<Rightarrow> goerr + TOTP" where
  "totpFactory_Generate lib a now rand f ttl =
     (case generateSecret f rand of
        Inl err \<Rightarrow> Inl err
      | Inr secret \<Rightarrow> totpFactory_Refresh lib a now f secret ttl)"

definition totpFactory_Validate ::
    "totp_lib \<Rightarrow> nat \<Rightarrow> time \<Rightarrow> totpFactory \<Rightarrow> TOTP \<Rightarrow> goerr + bool" where
  "totpFactory_Validate lib a now f v =
     (if TTL v < second then Inl (PlainError a ''ttl should be greater or equals to 1 seconds'')
      else ValidateCustom lib (Passcode v) (Secret v) now (validate_opts f (Duration_Round (TTL v) second)))"

section \<open>Passcodes and their store\<close>

record timeBasedOtp =
  Identifier :: string
  Value :: TOTP
  AttemptCount :: "64 word"
  RefreshCount :: "64 word"

definition IncrementAttempts :: "timeBasedOtp \<Rightarrow> timeBasedOtp" where
  "IncrementAttempts v = v\<lparr>AttemptCount := AttemptCount v + 1\<rparr>"

definition IncrementRefreshes :: "timeBasedOtp \<Rightarrow> timeBasedOtp" where
  "IncrementRefreshes v = v\<lparr>RefreshCount := RefreshCount v + 1\<rparr>"

record 's otp_store =
  Save :: "'s \<Rightarrow> timeBasedOtp \<Rightarrow> 's \<times> goerr option"
  Load :: "'s \<Rightarrow> string \<Rightarrow> goerr + timeBasedOtp"
  Delete :: "'s \<Rightarrow> string \<Rightarrow> 's \<times> goerr option"

type_synonym inmem = "string \<rightharpoonup> timeBasedOtp"

definition inmem_Save :: "inmem \<Rightarrow> timeBasedOtp \<Rightarrow> inmem \<times> goerr option" where
  "inmem_Save s otp = (s(Identifier otp \<mapsto> otp), None)"

definition inmem_Load :: "inmem \<Rightarrow> string \<Rightarrow> goerr + timeBasedOtp" where
  "inmem_Load s ident =
     (case s ident of Some otp \<Rightarrow> Inr otp | None \<Rightarrow> Inl (PlainError 0 (''not found with id '' @ ident)))"

definition inmem_Delete :: "inmem \<Rightarrow> string \<Rightarrow> inmem \<times> goerr option" where
  "inmem_Delete s ident =
     (case s ident of
        Some otp \<Rightarrow> (s(ident := None), None)
      | None \<Rightarrow> (s, Some (PlainError 0 (''not found with id '' @ ident))))"

definition inmemOtpStore :: "inmem otp_store" where
  "inmemOtpStore = \<lparr>Save = inmem_Save, Load = inmem_Load, Delete = inmem_Delete\<rparr>"

section \<open>The manager\<close>

record totpManager =
  factory :: totpFactory
  mgr_ttl :: duration
  maxVerifyLimit :: "64 word"
  maxRefreshLimit :: "64 word"

definition newTotpManager :: "totpFactory \<Rightarrow> (totpManager \<Rightarrow> totpManager) list \<Rightarrow> totpManager" where
  "newTotpManager f options =
     fold (\<lambda>opt. opt) options
       \<lparr>factory = f, mgr_ttl = 10 * 60 * second, maxVerifyLimit = 3, maxRefreshLimit = 3\<rparr>"

text \<open>\<open>wrapf\<close> is \<^verbatim>\<open>Wrapf\<close> of the package \<^verbatim>\<open>github.com/pkg/errors\<close>.\<close>

definition otp_New ::
    "totp_lib \<Rightarrow> (goerr \<Rightarrow> string \<Rightarrow> goerr) \<Rightarrow> nat \<Rightarrow> 's otp_store \<Rightarrow> totpManager \<Rightarrow> goerr + string \<Rightarrow>
     (nat \<Rightarrow> goerr + byte list) \<Rightarrow> time \<Rightarrow> 's \<Rightarrow> 's \<times> (goerr + timeBasedOtp)" where
  "otp_New lib wrapf a st m uuid rand now s =
     (case uuid of
        Inl err \<Rightarrow> (s, Inl (wrapf err ''Unable to create TOTP''))
      | Inr ident \<Rightarrow>
         (case totpFactory_Generate lib a now rand (factory m) (mgr_ttl m) of
            Inl err \<Rightarrow> (s, Inl (wrapf err ''Unable to create TOTP''))
          | Inr v \<Rightarrow>
             (let otp = \<lparr>Identifier = ident, Value = v, AttemptCount = 0, RefreshCount = 0\<rparr>
              in case Save st s otp of
                   (s', Some err) \<Rightarrow> (s', Inl err)
                 | (s', None) \<Rightarrow> (s', Inr otp))))"

definition otp_Get :: "'s otp_store \<Rightarrow> 's \<Rightarrow> string \<Rightarrow> goerr + timeBasedOtp" where
  "otp_Get st s ident = Load st s ident"

definition cleanup :: "'s otp_store \<Rightarrow> time \<Rightarrow> timeBasedOtp \<Rightarrow> 's \<Rightarrow> 's" where
  "cleanup st now otp s =
     (if now > Expire (Value otp) then fst (Delete st s (Identifier otp)) else fst (Save st s otp))"

type_synonym otp_result = "timeBasedOtp option \<times> bool \<times> goerr option"

text \<open>The item an error value becomes as a cause: \<^verbatim>\<open>nil\<close> is printed.\<close>

definition item_of :: "goerr option \<Rightarrow> item" where
  "item_of e = (case e of Some err \<Rightarrow> ErrItem err | None \<Rightarrow> TextItem ''<nil>'')"

text \<open>
  \<^verbatim>\<open>Verify\<close> reads the clock three times: for the expiry of the value to validate (which the factory
  ignores), in the factory, and in the deferred \<^verbatim>\<open>cleanup\<close>.
\<close>

definition otp_Verify ::
    "totp_lib \<Rightarrow> nat \<Rightarrow> 's otp_store \<Rightarrow> totpManager \<Rightarrow> (nat \<Rightarrow> time) \<Rightarrow> 's \<Rightarrow> string \<Rightarrow> string \<Rightarrow> 's \<times> otp_result" where
  "otp_Verify lib a st m now s ident passcode =
     (case Load st s ident of
        Inl e \<Rightarrow>
          (s, None, False, Some (NewCredentialsExpiredError a (TextItem ''Passcode already expired'') [ErrItem e]))
      | Inr loaded \<Rightarrow>
         (let otp = IncrementAttempts loaded
          in (cleanup st (now 2) otp s,
              if AttemptCount otp > maxVerifyLimit m then
                (None, False, Some (NewMaxAttemptsReachedError a (TextItem ''Max verification attempts exceeded'') []))
              else
                let toValidate = \<lparr>Passcode = passcode, Secret = Secret (Value otp), TTL = TTL (Value otp),
                                  Expire = now 0 + TTL (Value otp)\<rparr>;
                    hasMoreChances = AttemptCount otp < maxVerifyLimit m;
                    validated = totpFactory_Validate lib a (now 1) (factory m) toValidate;
                    e = (case validated of Inl e \<Rightarrow> Some e | Inr valid \<Rightarrow> None)
                in (Some otp, hasMoreChances,
                    if e \<noteq> None \<or> validated \<noteq> Inr True then
                      (if hasMoreChances then
                         Some (NewBadCredentialsError a (TextItem ''Passcode doesn't match'') [item_of e])
                       else
                         Some (NewMaxAttemptsReachedError a
                           (TextItem ''Passcode doesn't match and max verification attempts exceeded'') []))
                    else None))))"

text \<open>
  \<^verbatim>\<open>Refresh\<close> reads the clock for the remaining time, in the factory, and in \<^verbatim>\<open>cleanup\<close>, which runs after
  the refreshed value was stored in the passcode.
\<close>

definition refresh_outcome ::
    "totp_lib \<Rightarrow> nat \<Rightarrow> totpManager \<Rightarrow> (nat \<Rightarrow> time) \<Rightarrow> timeBasedOtp \<Rightarrow> timeBasedOtp \<times> bool \<times> goerr option" where
  "refresh_outcome lib a m now otp =
     (if RefreshCount otp > maxRefreshLimit m then
        (otp, False, Some (NewMaxAttemptsReachedError a (TextItem ''Max refresh/resend attempts exceeded'') []))
      else
        let ttl = Expire (Value otp) - now 0
        in if ttl \<le> 0 then
             (otp, False, Some (NewCredentialsExpiredError a (TextItem ''Passcode already expired'') []))
           else
             let hasMoreChances = RefreshCount otp < maxRefreshLimit m
             in case totpFactory_Refresh lib a (now 1) (factory m) (Secret (Value otp)) ttl of
                  Inl e \<Rightarrow>
                    (otp, hasMoreChances,
                     if hasMoreChances then
                       Some (NewAuthenticationError a (TextItem ''Unable to refresh/resend passcode'') [ErrItem e])
                     else
                       Some (NewMaxAttemptsReachedError a
                         (TextItem ''Unable to refresh/resend passcode and max refresh/resend attempts exceeded'')
                         [ErrItem e]))
                | Inr refreshed \<Rightarrow> (otp\<lparr>Value := refreshed\<rparr>, hasMoreChances, None))"

definition otp_Refresh ::
    "totp_lib \<Rightarrow> nat \<Rightarrow> 's otp_store \<Rightarrow> totpManager \<Rightarrow> (nat \<Rightarrow> time) \<Rightarrow> 's \<Rightarrow> string \<Rightarrow> 's \<times> otp_result" where
  "otp_Refresh lib a st m now s ident =
     (case Load st s ident of
        Inl e \<Rightarrow>
          (s, None, False, Some (NewCredentialsExpiredError a (TextItem ''Passcode expired'') [ErrItem e]))
      | Inr loaded \<Rightarrow>
         (case refresh_outcome lib a m now (IncrementRefreshes loaded) of
            (otp, chances, err) \<Rightarrow> (cleanup st (now 2) otp s, Some otp, chances, err)))"

definition otp_Delete :: "'s otp_store \<Rightarrow> 's \<Rightarrow> string \<Rightarrow> 's \<times> goerr option" where
  "otp_Delete st s ident = Delete st s ident"

lemmas [passwd_simps] =
  IncrementAttempts_def IncrementRefreshes_def inmemOtpStore_def inmem_Save_def inmem_Load_def inmem_Delete_def

section \<open>The contract of a store\<close>

locale otp_storage =
  fixes st :: "'s otp_store" and contents :: "'s \<Rightarrow> string \<rightharpoonup> timeBasedOtp" and wf :: "'s \<Rightarrow> bool"
  assumes save: "wf s \<Longrightarrow> contents (fst (Save st s otp)) = (contents s)(Identifier otp \<mapsto> otp)
      \<and> wf (fst (Save st s otp)) \<and> snd (Save st s otp) = None"
    and delete: "wf s \<Longrightarrow> contents (fst (Delete st s ident)) = (contents s)(ident := None)
      \<and> wf (fst (Delete st s ident))"
    and load_found: "wf s \<Longrightarrow> contents s ident = Some otp \<Longrightarrow> Load st s ident = Inr otp \<and> Identifier otp = ident"
    and load_missing: "wf s \<Longrightarrow> contents s ident = None \<Longrightarrow> \<exists>e. Load st s ident = Inl e"
begin

lemma cleanup_effect:
  assumes "wf s" and "Identifier otp = ident"
  shows "wf (cleanup st now otp s)
    \<and> contents (cleanup st now otp s) =
        (contents s)(ident := (if now > Expire (Value otp) then None else Some otp))"
  using save [OF assms(1), of otp] delete [OF assms(1), of ident] assms(2) by (auto simp: cleanup_def)

lemma verify_missing:
  assumes "wf s" and "contents s ident = None"
  shows "\<exists>e. otp_Verify lib a st m now s ident passcode = (s, None, False, Some e)"
  using load_missing [OF assms] by (auto simp: otp_Verify_def)

lemma refresh_missing:
  assumes "wf s" and "contents s ident = None"
  shows "\<exists>e. otp_Refresh lib a st m now s ident = (s, None, False, Some e)"
  using load_missing [OF assms] by (auto simp: otp_Refresh_def)

lemma verify_step:
  assumes "wf s" and "contents s ident = Some otp" and "otp_Verify lib a st m now s ident passcode = (s', r)"
  shows "wf s'"
    and "contents s' = (contents s)(ident := (if now 2 > Expire (Value otp) then None else Some (IncrementAttempts otp)))"
    and "snd (snd r) = None \<longleftrightarrow> AttemptCount otp + 1 \<le> maxVerifyLimit m
      \<and> totpFactory_Validate lib a (now 1) (factory m) \<lparr>Passcode = passcode, Secret = Secret (Value otp),
           TTL = TTL (Value otp), Expire = now 0 + TTL (Value otp)\<rparr> = Inr True"
proof -
  have l: "Load st s ident = Inr otp" "Identifier otp = ident" using load_found [OF assms(1,2)] by simp_all
  then have "Identifier (IncrementAttempts otp) = ident" by (simp add: IncrementAttempts_def)
  note c = cleanup_effect [OF assms(1) this, of "now 2"]
  have s': "s' = cleanup st (now 2) (IncrementAttempts otp) s"
    using assms(3) l by (simp add: otp_Verify_def Let_def)
  from c s' show "wf s'"
    and "contents s' = (contents s)(ident := (if now 2 > Expire (Value otp) then None else Some (IncrementAttempts otp)))"
    by (simp_all add: IncrementAttempts_def)
  have r: "r = snd (otp_Verify lib a st m now s ident passcode)" by (simp add: assms(3))
  show "snd (snd r) = None \<longleftrightarrow> AttemptCount otp + 1 \<le> maxVerifyLimit m
      \<and> totpFactory_Validate lib a (now 1) (factory m) \<lparr>Passcode = passcode, Secret = Secret (Value otp),
           TTL = TTL (Value otp), Expire = now 0 + TTL (Value otp)\<rparr> = Inr True"
    unfolding r by (auto simp: otp_Verify_def l Let_def IncrementAttempts_def split: sum.splits)
qed

lemma refresh_step:
  assumes "wf s" and "contents s ident = Some otp" and "otp_Refresh lib a st m now s ident = (s', r)"
  shows "wf s' \<and> (contents s' ident = None
      \<or> (\<exists>o'. contents s' ident = Some o' \<and> AttemptCount o' = AttemptCount otp
           \<and> RefreshCount o' = RefreshCount otp + 1))
    \<and> (snd (snd r) = None \<longrightarrow> RefreshCount otp + 1 \<le> maxRefreshLimit m)"
proof -
  have l: "Load st s ident = Inr otp" "Identifier otp = ident" using load_found [OF assms(1,2)] by simp_all
  obtain o' chances err where o: "refresh_outcome lib a m now (IncrementRefreshes otp) = (o', chances, err)"
    using prod_cases3 by blast
  have o': "Identifier o' = ident" "AttemptCount o' = AttemptCount otp" "RefreshCount o' = RefreshCount otp + 1"
      and ok: "err = None \<longrightarrow> RefreshCount otp + 1 \<le> maxRefreshLimit m"
    using o l(2) by (auto simp: refresh_outcome_def IncrementRefreshes_def Let_def split: if_splits sum.splits)
  from assms(3) o l(1) have "s' = cleanup st (now 2) o' s" and "r = (Some o', chances, err)"
    by (simp_all add: otp_Refresh_def)
  with cleanup_effect [OF assms(1) o'(1), of "now 2"] o' ok show ?thesis by auto
qed

end

section \<open>Sequences of attempts\<close>

datatype otp_event = VerifyPasscode string "nat \<Rightarrow> time" | RefreshPasscode "nat \<Rightarrow> time"

fun is_verify :: "otp_event \<Rightarrow> bool" where
  "is_verify (VerifyPasscode p now) = True"
| "is_verify (RefreshPasscode now) = False"

fun otp_step :: "totp_lib \<Rightarrow> nat \<Rightarrow> 's otp_store \<Rightarrow> totpManager \<Rightarrow> string \<Rightarrow> otp_event \<Rightarrow> 's \<Rightarrow> 's \<times> otp_result" where
  "otp_step lib a st m ident (VerifyPasscode p now) s = otp_Verify lib a st m now s ident p"
| "otp_step lib a st m ident (RefreshPasscode now) s = otp_Refresh lib a st m now s ident"

fun otp_run ::
    "totp_lib \<Rightarrow> nat \<Rightarrow> 's otp_store \<Rightarrow> totpManager \<Rightarrow> string \<Rightarrow> otp_event list \<Rightarrow> 's \<Rightarrow> (otp_event \<times> otp_result) list" where
  "otp_run lib a st m ident [] s = []"
| "otp_run lib a st m ident (ev # evs) s =
     (case otp_step lib a st m ident ev s of (s', r) \<Rightarrow> (ev, r) # otp_run lib a st m ident evs s')"

definition succeeded :: "bool \<Rightarrow> (otp_event \<times> otp_result) list \<Rightarrow> nat" where
  "succeeded verify rs = length (filter (\<lambda>(ev, otp, chances, err). is_verify ev = verify \<and> err = None) rs)"

lemma succeeded_simps [simp]:
  "succeeded v [] = 0"
  "succeeded v ((ev, r) # rs) = (if is_verify ev = v \<and> snd (snd r) = None then 1 else 0) + succeeded v rs"
  by (auto simp: succeeded_def split: prod.splits)

lemma unat_budget:
  fixes x limit :: "64 word"
  assumes "unat x + 1 < 2 ^ 64"
  shows "unat (x + 1) = unat x + 1" and "x + 1 \<le> limit \<longleftrightarrow> unat x + 1 \<le> unat limit"
proof -
  show "unat (x + 1) = unat x + 1" using assms by (simp add: unat_word_ariths)
  then show "x + 1 \<le> limit \<longleftrightarrow> unat x + 1 \<le> unat limit" by (simp add: word_le_nat_alt)
qed

context otp_storage
begin

lemma run_missing:
  assumes "wf s" and "contents s ident = None"
  shows "succeeded v (otp_run lib a st m ident evs s) = 0"
proof (induction evs)
  case (Cons ev evs)
  have "\<exists>e. otp_step lib a st m ident ev s = (s, None, False, Some e)"
    by (cases ev) (auto simp: verify_missing [OF assms] refresh_missing [OF assms])
  with Cons show ?case by auto
qed simp

lemma step_budget:
  assumes "wf s" and "contents s ident = Some otp" and "otp_step lib a st m ident ev s = (s', r)"
    and "unat (AttemptCount otp) + 1 < 2 ^ 64" and "unat (RefreshCount otp) + 1 < 2 ^ 64"
  shows "wf s' \<and> (contents s' ident = None
      \<or> (\<exists>o'. contents s' ident = Some o'
           \<and> unat (AttemptCount o') = unat (AttemptCount otp) + (if is_verify ev then 1 else 0)
           \<and> unat (RefreshCount o') = unat (RefreshCount otp) + (if is_verify ev then 0 else 1)))
    \<and> (snd (snd r) = None \<longrightarrow> is_verify ev \<longrightarrow> unat (AttemptCount otp) + 1 \<le> unat (maxVerifyLimit m))
    \<and> (snd (snd r) = None \<longrightarrow> \<not> is_verify ev \<longrightarrow> unat (RefreshCount otp) + 1 \<le> unat (maxRefreshLimit m))"
proof (cases ev)
  case (VerifyPasscode p now)
  then have "otp_Verify lib a st m now s ident p = (s', r)" using assms(3) by simp
  from verify_step [OF assms(1,2) this] VerifyPasscode unat_budget [OF assms(4)] show ?thesis
    by (simp add: IncrementAttempts_def)
next
  case (RefreshPasscode now)
  then have "otp_Refresh lib a st m now s ident = (s', r)" using assms(3) by simp
  from refresh_step [OF assms(1,2) this] RefreshPasscode unat_budget [OF assms(5)] show ?thesis
    by auto
qed

lemma run_bounded:
  assumes "wf s" and "contents s ident = Some otp"
    and "unat (AttemptCount otp) + length evs < 2 ^ 64" and "unat (RefreshCount otp) + length evs < 2 ^ 64"
  shows "succeeded True (otp_run lib a st m ident evs s) \<le> unat (maxVerifyLimit m) - unat (AttemptCount otp)
    \<and> succeeded False (otp_run lib a st m ident evs s) \<le> unat (maxRefreshLimit m) - unat (RefreshCount otp)"
  using assms
proof (induction evs arbitrary: s otp)
  case (Cons ev evs)
  obtain s' r where step: "otp_step lib a st m ident ev s = (s', r)" by (cases "otp_step lib a st m ident ev s")
  have small: "unat (AttemptCount otp) + 1 < 2 ^ 64" "unat (RefreshCount otp) + 1 < 2 ^ 64"
    using Cons.prems(3,4) by simp_all
  note budget = step_budget [OF Cons.prems(1,2) step small]
  note sb = budget [THEN conjunct1] budget [THEN conjunct2, THEN conjunct1]
    budget [THEN conjunct2, THEN conjunct2, THEN conjunct1] budget [THEN conjunct2, THEN conjunct2, THEN conjunct2]
  have run: "succeeded v (otp_run lib a st m ident (ev # evs) s) =
      (if is_verify ev = v \<and> snd (snd r) = None then 1 else 0) + succeeded v (otp_run lib a st m ident evs s')" for v
    by (simp add: step)
  from sb(2) show ?case
  proof
    assume "contents s' ident = None"
    then have "succeeded v (otp_run lib a st m ident evs s') = 0" for v by (rule run_missing [OF sb(1)])
    with sb(3,4) show ?thesis
      unfolding run by (cases "is_verify ev"; cases "snd (snd r) = None") auto
  next
    assume "\<exists>o'. contents s' ident = Some o'
           \<and> unat (AttemptCount o') = unat (AttemptCount otp) + (if is_verify ev then 1 else 0)
           \<and> unat (RefreshCount o') = unat (RefreshCount otp) + (if is_verify ev then 0 else 1)"
    then obtain o' where o': "contents s' ident = Some o'"
        "unat (AttemptCount o') = unat (AttemptCount otp) + (if is_verify ev then 1 else 0)"
        "unat (RefreshCount o') = unat (RefreshCount otp) + (if is_verify ev then 0 else 1)" by blast
    have "unat (AttemptCount o') + length evs < 2 ^ 64" "unat (RefreshCount o') + length evs < 2 ^ 64"
      using o'(2,3) Cons.prems(3,4) by (cases "is_verify ev"; simp)+
    from Cons.IH [OF sb(1) o'(1) this] o'(2,3) sb(3,4) show ?thesis
      unfolding run by (cases "is_verify ev"; cases "snd (snd r) = None") auto
  qed
qed simp

end

definition inmem_wf :: "inmem \<Rightarrow> bool" where
  "inmem_wf s \<longleftrightarrow> (\<forall>ident otp. s ident = Some otp \<longrightarrow> Identifier otp = ident)"

interpretation inmem_store: otp_storage inmemOtpStore "\<lambda>s. s" inmem_wf
  by unfold_locales (auto simp: inmem_wf_def passwd_simps split: option.splits)

section \<open>Documented behaviour of the TOTP library\<close>

text \<open>
  A passcode is a function of the secret and of the number of the current period since the Unix epoch.
  Without skew, a passcode of the configured length is accepted iff it is the one of the current
  period.
\<close>

definition unix_period :: "totp_opts \<Rightarrow> time \<Rightarrow> int" where
  "unix_period opts t = (t div second - 62135596800) div uint (Period opts)"

definition totp_docs :: "totp_lib \<Rightarrow> bool" where
  "totp_docs lib \<longleftrightarrow>
     (\<forall>secret t t' opts. Period opts \<noteq> 0 \<longrightarrow> unix_period opts t = unix_period opts t' \<longrightarrow>
        GenerateCodeCustom lib secret t opts = GenerateCodeCustom lib secret t' opts)
   \<and> (\<forall>secret t opts c. Period opts \<noteq> 0 \<longrightarrow> GenerateCodeCustom lib secret t opts = Inr c \<longrightarrow>
        int (length c) = Digits opts)
   \<and> (\<forall>secret t opts c. Period opts \<noteq> 0 \<longrightarrow> Skew opts = 0 \<longrightarrow> int (length c) = Digits opts \<longrightarrow>
        (ValidateCustom lib c secret t opts = Inr True \<longleftrightarrow> GenerateCodeCustom lib secret t opts = Inr c))"

lemma totp_docsD:
  assumes "totp_docs lib" and "Period opts \<noteq> 0"
  shows "unix_period opts t = unix_period opts t' \<Longrightarrow>
      GenerateCodeCustom lib secret t opts = GenerateCodeCustom lib secret t' opts"
    and "GenerateCodeCustom lib secret t opts = Inr c \<Longrightarrow> int (length c) = Digits opts"
    and "Skew opts = 0 \<Longrightarrow> int (length c) = Digits opts \<Longrightarrow>
      ValidateCustom lib c secret t opts = Inr True \<longleftrightarrow> GenerateCodeCustom lib secret t opts = Inr c"
  using assms unfolding totp_docs_def by blast+

text \<open>A library of this kind: the passcode spells the parity of the period.\<close>

definition parity_code :: "totp_opts \<Rightarrow> time \<Rightarrow> string" where
  "parity_code opts t = replicate (nat (Digits opts)) (if even (unix_period opts t) then CHR ''0'' else CHR ''1'')"

definition parity_totp :: totp_lib where
  "parity_totp =
     \<lparr>GenerateCodeCustom = (\<lambda>secret t opts.
        if 0 \<le> Digits opts then Inr (parity_code opts t) else Inl (PlainError 0 ''digits'')),
      ValidateCustom = (\<lambda>c secret t opts.
        if 0 \<le> Digits opts then Inr (c = parity_code opts t) else Inl (PlainError 0 ''digits''))\<rparr>"

lemma parity_totp_docs: "totp_docs parity_totp"
  by (auto simp: totp_docs_def parity_totp_def parity_code_def)

lemma Duration_Round_eq:
  assumes "second \<le> ttl"
  shows "Duration_Round ttl second = (if 2 * (ttl mod second) < second then ttl - ttl mod second
      else ttl + second - ttl mod second)"
  using assms by (simp add: Duration_Round_def second_def Let_def)

lemma Duration_Round_second:
  assumes "second \<le> ttl"
  shows "second \<le> Duration_Round ttl second" and "Duration_Round (Duration_Round ttl second) second = Duration_Round ttl second"
    and "second dvd Duration_Round ttl second"
proof -
  note eq = Duration_Round_eq [OF assms]
  have "second dvd ttl - ttl mod second" by (simp add: minus_mod_eq_mult_div)
  moreover from this have "second dvd (ttl - ttl mod second) + second" by (rule dvd_add) simp
  ultimately show d: "second dvd Duration_Round ttl second" by (simp add: eq algebra_simps)
  have "ttl mod second < second" by (simp add: second_def)
  moreover have "second \<le> ttl - ttl mod second"
    using zdiv_mono1 [OF assms, of second] by (simp add: minus_mod_eq_mult_div second_def)
  ultimately show le: "second \<le> Duration_Round ttl second" unfolding eq by (simp add: second_def)
  from d have "Duration_Round ttl second mod second = 0" by simp
  with le show "Duration_Round (Duration_Round ttl second) second = Duration_Round ttl second"
    by (simp add: Duration_Round_def second_def)
qed

definition int64_ttl :: "duration \<Rightarrow> bool" where
  "int64_ttl ttl \<longleftrightarrow> second \<le> ttl \<and> ttl < 2 ^ 63"

lemma Period_nonzero:
  assumes "int64_ttl ttl"
  shows "Period (validate_opts f (Duration_Round ttl second)) \<noteq> 0"
proof -
  have "second \<le> Duration_Round ttl second" using assms Duration_Round_second(1) by (simp add: int64_ttl_def)
  moreover have "Duration_Round ttl second \<le> ttl + second"
  proof -
    define r where "r = ttl mod second"
    have "0 < second" "0 \<le> r" by (simp_all add: second_def r_def)
    then show ?thesis
      using assms Duration_Round_eq [of ttl, folded r_def] by (auto simp: int64_ttl_def split: if_splits)
  qed
  ultimately have "1 \<le> Duration_Round ttl second div second" "Duration_Round ttl second div second < 2 ^ 64"
    using assms zdiv_mono1 [of second "Duration_Round ttl second" second]
      zdiv_mono1 [of "Duration_Round ttl second" "2 ^ 63 + second" second]
    by (simp_all add: int64_ttl_def second_def)
  then have "uint (word_of_int (Duration_Round ttl second div second) :: 64 word) \<noteq> 0"
    by (simp add: uint_word_of_int)
  then show ?thesis by (auto simp: validate_opts_def)
qed

lemma Refresh_Inr:
  assumes "totpFactory_Refresh lib a now f secret ttl = Inr v"
  shows "second \<le> ttl" and "Secret v = secret" and "TTL v = Duration_Round ttl second" and "Expire v = now + TTL v"
    and "GenerateCodeCustom lib secret now (validate_opts f (TTL v)) = Inr (Passcode v)"
  using assms by (auto simp: totpFactory_Refresh_def Let_def split: if_splits sum.splits)

lemma Validate_docs:
  assumes "totp_docs lib" and "skew f = 0" and "int64_ttl ttl" and "TTL v = Duration_Round ttl second"
    and "int (length (Passcode v)) = digits f"
  shows "totpFactory_Validate lib a now f v = Inr True \<longleftrightarrow>
    GenerateCodeCustom lib (Secret v) now (validate_opts f (TTL v)) = Inr (Passcode v)"
proof -
  have ttl: "second \<le> TTL v" "Duration_Round (TTL v) second = TTL v"
    using Duration_Round_second [of ttl] assms(3,4) by (simp_all add: int64_ttl_def)
  have "Period (validate_opts f (TTL v)) \<noteq> 0" using Period_nonzero [OF assms(3)] assms(4) by simp
  moreover have "Skew (validate_opts f (TTL v)) = 0" "Digits (validate_opts f (TTL v)) = digits f"
    using assms(2) by (simp_all add: validate_opts_def)
  ultimately have "ValidateCustom lib (Passcode v) (Secret v) now (validate_opts f (TTL v)) = Inr True \<longleftrightarrow>
      GenerateCodeCustom lib (Secret v) now (validate_opts f (TTL v)) = Inr (Passcode v)"
    using totp_docsD(3) [OF assms(1)] assms(5) by simp
  with ttl show ?thesis by (simp add: totpFactory_Validate_def)
qed

section \<open>Issue and verification\<close>

lemma issued_otp:
  assumes "inmem_wf s" and "otp_New lib wrapf a inmemOtpStore m uuid rand t s = (s', Inr otp)"
  shows "inmem_wf s'" and "s' (Identifier otp) = Some otp" and "AttemptCount otp = 0"
    and "TTL (Value otp) = Duration_Round (mgr_ttl m) second" and "Expire (Value otp) = t + TTL (Value otp)"
    and "GenerateCodeCustom lib (Secret (Value otp)) t (validate_opts (factory m) (TTL (Value otp))) =
      Inr (Passcode (Value otp))"
proof -
  obtain ident v where otp: "otp = \<lparr>Identifier = ident, Value = v, AttemptCount = 0, RefreshCount = 0\<rparr>"
      and g: "totpFactory_Generate lib a t rand (factory m) (mgr_ttl m) = Inr v" and s': "s' = s(ident \<mapsto> otp)"
    using assms(2) by (auto simp: otp_New_def Let_def passwd_simps split: sum.splits)
  from g obtain secret where r: "totpFactory_Refresh lib a t (factory m) secret (mgr_ttl m) = Inr v"
    by (auto simp: totpFactory_Generate_def split: sum.splits)
  note v = Refresh_Inr [OF r]
  show "inmem_wf s'" using assms(1) by (auto simp: inmem_wf_def s' otp)
  show "s' (Identifier otp) = Some otp" "AttemptCount otp = 0" "TTL (Value otp) = Duration_Round (mgr_ttl m) second"
    "Expire (Value otp) = t + TTL (Value otp)" "GenerateCodeCustom lib (Secret (Value otp)) t
       (validate_opts (factory m) (TTL (Value otp))) = Inr (Passcode (Value otp))"
    using v by (simp_all add: s' otp)
qed

lemma verify_accepts_iff:
  assumes "totp_docs lib" and "skew (factory m) = 0" and "int64_ttl ttl" and "inmem_wf s" and "s ident = Some otp"
    and "TTL (Value otp) = Duration_Round ttl second" and "int (length c) = digits (factory m)"
    and "AttemptCount otp + 1 \<le> maxVerifyLimit m"
  shows "snd (snd (snd (otp_Verify lib a inmemOtpStore m now s ident c))) = None \<longleftrightarrow>
    GenerateCodeCustom lib (Secret (Value otp)) (now 1) (validate_opts (factory m) (TTL (Value otp))) = Inr c"
proof -
  obtain s' res where eq: "otp_Verify lib a inmemOtpStore m now s ident c = (s', res)"
    by (cases "otp_Verify lib a inmemOtpStore m now s ident c")
  let ?v = "\<lparr>Passcode = c, Secret = Secret (Value otp), TTL = TTL (Value otp), Expire = now 0 + TTL (Value otp)\<rparr>"
  from inmem_store.verify_step(3) [OF assms(4,5) eq] assms(8)
  have "snd (snd res) = None \<longleftrightarrow> totpFactory_Validate lib a (now 1) (factory m) ?v = Inr True" by simp
  with Validate_docs [OF assms(1,2,3), of ?v a "now 1"] assms(6,7) eq show ?thesis by simp
qed

lemma same_period_code:
  assumes "totp_docs lib" and "int64_ttl ttl" and "T = Duration_Round ttl second"
    and "unix_period (validate_opts f T) t' = unix_period (validate_opts f T) t"
  shows "GenerateCodeCustom lib secret t' (validate_opts f T) = GenerateCodeCustom lib secret t (validate_opts f T)"
  using totp_docsD(1) [OF assms(1) _ assms(4)] Period_nonzero [OF assms(2)] assms(3) by blast

lemma generated_length:
  assumes "totp_docs lib" and "int64_ttl ttl" and "T = Duration_Round ttl second"
    and "GenerateCodeCustom lib secret t (validate_opts f T) = Inr c"
  shows "int (length c) = digits f"
  using totp_docsD(2) [OF assms(1) _ assms(4)] Period_nonzero [OF assms(2)] assms(3) by (simp add: validate_opts_def)

section \<open>Properties\<close>


definition sample_manager :: totpManager where
  "sample_manager = newTotpManager (newTotpFactory []) []"

definition sample_otp :: timeBasedOtp where
  "sample_otp = \<lparr>Identifier = ''id'', Value = \<lparr>Passcode = ''000000'', Secret = ''S'', TTL = 600 * second,
     Expire = 62135596800 * second + 600 * second\<rparr>, AttemptCount = 0, RefreshCount = 0\<rparr>"


text \<open>C10: A new passcode is stored under its identifier with no attempts, and its first verification accepts
  exactly the code the library generates from the stored secret for the period of the verification. The
  issued code is therefore accepted within the period it was issued in, and after the end of that period
  only if the code of the later period happens to be the same, however much of its time to live is left.\<close>

theorem issued_passcode_verifies:
  assumes "totp_docs lib" and "skew (factory m) = 0" and "int64_ttl (mgr_ttl m)" and "0 < maxVerifyLimit m"
    and "inmem_wf s" and "otp_New lib wrapf a inmemOtpStore m uuid rand t s = (s', Inr otp)"
  shows "inmem_wf s' \<and> s' (Identifier otp) = Some otp \<and> AttemptCount otp = 0 \<and> Expire (Value otp) = t + TTL (Value otp)
    \<and> (\<forall>now c. int (length c) = digits (factory m) \<longrightarrow>
         (snd (snd (snd (otp_Verify lib a inmemOtpStore m now s' (Identifier otp) c))) = None \<longleftrightarrow>
          GenerateCodeCustom lib (Secret (Value otp)) (now 1) (validate_opts (factory m) (TTL (Value otp))) = Inr c))
    \<and> (\<forall>now. unix_period (validate_opts (factory m) (TTL (Value otp))) (now 1) =
              unix_period (validate_opts (factory m) (TTL (Value otp))) t \<longrightarrow>
         snd (snd (snd (otp_Verify lib a inmemOtpStore m now s' (Identifier otp) (Passcode (Value otp))))) = None)"
proof -
  note issued = issued_otp [OF assms(5,6)]
  have first: "AttemptCount otp + 1 \<le> maxVerifyLimit m"
    using assms(4) by (simp add: issued(3) word_le_nat_alt word_less_nat_alt)
  note iff = verify_accepts_iff [OF assms(1,2,3) issued(1,2,4) _ first, of _ a]
  have "snd (snd (snd (otp_Verify lib a inmemOtpStore m now s' (Identifier otp) (Passcode (Value otp))))) = None"
    if "unix_period (validate_opts (factory m) (TTL (Value otp))) (now 1) =
        unix_period (validate_opts (factory m) (TTL (Value otp))) t" for now
    using same_period_code [OF assms(1,3) issued(4) that] issued(6)
      iff [OF generated_length [OF assms(1,3) issued(4,6)], of now] by simp
  with issued iff show ?thesis by blast
qed

theorem issued_passcode_verifies_witness:
  "\<exists>s' otp. otp_New parity_totp (\<lambda>e m. e) 0 inmemOtpStore sample_manager (Inr ''id'') (\<lambda>n. Inr (replicate n 0))
       (62135596800 * second) Map.empty = (s', Inr otp)
     \<and> snd (snd (snd (otp_Verify parity_totp 0 inmemOtpStore sample_manager (\<lambda>_. 62135596800 * second) s'
          (Identifier otp) (Passcode (Value otp))))) = None"
proof -
  let ?now = "62135596800 * second"
  obtain s' otp where new: "otp_New parity_totp (\<lambda>e m. e) 0 inmemOtpStore sample_manager (Inr ''id'')
      (\<lambda>n. Inr (replicate n 0)) ?now Map.empty = (s', Inr otp)"
    by (simp add: otp_New_def totpFactory_Generate_def generateSecret_def totpFactory_Refresh_def parity_totp_def
        sample_manager_def newTotpManager_def newTotpFactory_def validate_opts_def passwd_simps second_def Let_def)
  have "skew (factory sample_manager) = 0" "int64_ttl (mgr_ttl sample_manager)" "0 < maxVerifyLimit sample_manager"
      "inmem_wf Map.empty"
    by (simp_all add: sample_manager_def newTotpManager_def newTotpFactory_def int64_ttl_def second_def inmem_wf_def)
  from issued_passcode_verifies [OF parity_totp_docs this new]
  have "snd (snd (snd (otp_Verify parity_totp 0 inmemOtpStore sample_manager (\<lambda>_. ?now) s'
      (Identifier otp) (Passcode (Value otp))))) = None" by simp
  with new show ?thesis by blast
qed

text \<open>A passcode is not consumed when it is accepted: as long as attempts are left, it has not expired and
  the period is the same, the same passcode is accepted again.\<close>

lemma accepted_passcode_is_replayable:
  assumes "totp_docs lib" and "skew (factory m) = 0" and "int64_ttl ttl" and "inmem_wf s" and "s ident = Some otp"
    and "TTL (Value otp) = Duration_Round ttl second" and "int (length p) = digits (factory m)"
    and "unat (AttemptCount otp) + 2 \<le> unat (maxVerifyLimit m)"
    and "otp_Verify lib a inmemOtpStore m now s ident p = (s', loaded, chances, None)"
    and "now 2 \<le> Expire (Value otp)"
    and "unix_period (validate_opts (factory m) (TTL (Value otp))) (now' 1) =
         unix_period (validate_opts (factory m) (TTL (Value otp))) (now 1)"
  shows "snd (snd (snd (otp_Verify lib a inmemOtpStore m now' s' ident p))) = None"
proof -
  have "unat (maxVerifyLimit m) < 2 ^ 64" using unsigned_less [of "maxVerifyLimit m"] by simp
  then have small: "unat (AttemptCount otp) + 1 < 2 ^ 64" "unat (AttemptCount otp + 1) + 1 < 2 ^ 64"
    using assms(8) unat_budget(1) [of "AttemptCount otp"] by simp_all
  have attempts: "AttemptCount otp + 1 \<le> maxVerifyLimit m" "AttemptCount (IncrementAttempts otp) + 1 \<le> maxVerifyLimit m"
    using unat_budget(1) [OF small(1)] unat_budget(2) [OF small(1), of "maxVerifyLimit m"] unat_budget(2) [OF small(2), of "maxVerifyLimit m"] assms(8)
    by (simp_all add: IncrementAttempts_def)
  note step = inmem_store.verify_step [OF assms(4,5,9)]
  have next_otp: "s' ident = Some (IncrementAttempts otp)" using step(2) assms(10) by simp
  have val: "Value (IncrementAttempts otp) = Value otp" by (simp add: IncrementAttempts_def)
  have "GenerateCodeCustom lib (Secret (Value otp)) (now 1) (validate_opts (factory m) (TTL (Value otp))) = Inr p"
    using verify_accepts_iff [OF assms(1-7) attempts(1), of a now] assms(9) by simp
  then show ?thesis
    using verify_accepts_iff [OF assms(1,2,3) step(1) next_otp _ assms(7) attempts(2), of a now']
      same_period_code [OF assms(1,3,6,11)] assms(6) by (simp add: val)
qed

lemma sample_verifies:
  "snd (snd (snd (otp_Verify parity_totp 0 inmemOtpStore sample_manager (\<lambda>_. 62135596800 * second)
     [''id'' \<mapsto> sample_otp] ''id'' ''000000''))) = None"
proof -
  have zeros: "replicate 6 CHR ''0'' = ''000000''" by (simp add: numeral_eq_Suc)
  show ?thesis
    by (simp add: otp_Verify_def passwd_simps totpFactory_Validate_def sample_otp_def sample_manager_def
        newTotpManager_def newTotpFactory_def validate_opts_def parity_totp_def parity_code_def unix_period_def
        second_def Duration_Round_def zeros Let_def)
qed

end
