(* ===== verification/Session.thy ===== *)
theory Session
  imports Security_Context Otp "HOL-Library.AList"
begin

text \<open>
  Sessions and their Redis store, \<^verbatim>\<open>pkg/security/session\<close>. A session value is a time, an authentication, nil,
  a list of flash messages or a value of another type, the type variable. The gob encoding of the values is the
  map of values itself, which keeps times to the nanosecond; \<open>gob\<close> is the error of the encoder for a map that has a value
  it cannot encode. Gob does not transmit fields that are zero, so decoded options keep the fields of
  the options they are decoded into (\<open>gob_decode_options\<close>).

  The Redis client is the record \<open>session_redis\<close>, every command with the time at which it runs. What the
  commands do is the hypothesis \<open>session_docs\<close> over the contents \<open>sdata\<close> of the database; \<open>mem_client\<close> is a client that
  meets it. A call may also panic or, where it iterates over a set with a cursor, never return.
\<close>

section \<open>Times\<close>

definition unix_epoch :: time where "unix_epoch = 62135596800 * second"

definition Time_Unix :: "time \<Rightarrow> int" where
  "Time_Unix t = (t - unix_epoch) div second"

definition time_Unix :: "int \<Rightarrow> time" where
  "time_Unix n = unix_epoch + n * second"

datatype TimeoutSetting = NoTimeout | IdleTimeoutEnabled | AbsoluteTimeoutEnabled | BothTimeouts

definition CalculateExpiration :: "TimeoutSetting \<Rightarrow> time \<Rightarrow> time \<Rightarrow> bool \<times> time" where
  "CalculateExpiration setting idleExpiration absExpiration =
     (case setting of
        AbsoluteTimeoutEnabled \<Rightarrow> (True, absExpiration)
      | IdleTimeoutEnabled \<Rightarrow> (True, idleExpiration)
      | BothTimeouts \<Rightarrow> (True, if idleExpiration < absExpiration then idleExpiration else absExpiration)
      | NoTimeout \<Rightarrow> (False, 0))"

definition RedisNameSpace :: string where "RedisNameSpace = ''LANAI:SESSION''"
definition SessionLastAccessedField :: string where "SessionLastAccessedField = ''lastAccessed''"
definition SessionIdleTimeoutDuration :: string where "SessionIdleTimeoutDuration = ''idleTimeout''"
definition SessionAbsTimeoutTime :: string where "SessionAbsTimeoutTime = ''absTimeout''"
definition DefaultName :: string where "DefaultName = ''SESSION''"

definition GetRedisSessionKey :: "string \<Rightarrow> string \<Rightarrow> string" where
  "GetRedisSessionKey name ident = RedisNameSpace @ '':'' @ name @ '':'' @ ident"

section \<open>Sessions\<close>

definition flashesKey :: string where "flashesKey = ''_flash''"
definition createdTimeKey :: string where "createdTimeKey = ''_created''"
definition sessionKeySecurity :: string where "sessionKeySecurity = ''Security''"

datatype 'x sval = SvTime time | SvAuth authentication | SvNil | SvFlashes "'x sval list" | SvOther 'x

record session_options =
  opt_Path :: string
  opt_Domain :: string
  opt_MaxAge :: int
  opt_Secure :: bool
  opt_HttpOnly :: bool
  opt_SameSite :: int
  opt_IdleTimeout :: duration
  opt_AbsoluteTimeout :: duration

record 'x session =
  dirty :: bool
  lastAccessed :: time
  session_id :: string
  session_values :: "string \<rightharpoonup> 'x sval"
  session_options_of :: session_options
  isNew :: bool
  session_name :: string

text \<open>The store: its options and, where there is one, the reader of the global settings.\<close>

record session_store =
  store_options :: session_options
  settingReader :: "(string \<Rightarrow> string + int) option"

definition SameSiteNoneMode :: int where "SameSiteNoneMode = 4"

definition NewRedisStore :: "(session_store \<Rightarrow> session_store) list \<Rightarrow> session_store" where
  "NewRedisStore options =
     foldl (\<lambda>opt fn. fn opt)
       \<lparr>store_options = \<lparr>opt_Path = ''/'', opt_Domain = '''', opt_MaxAge = 0, opt_Secure = False, opt_HttpOnly = True,
          opt_SameSite = SameSiteNoneMode, opt_IdleTimeout = 900 * second, opt_AbsoluteTimeout = 1800 * second\<rparr>,
        settingReader = None\<rparr> options"

definition NewSession :: "session_store \<Rightarrow> string \<Rightarrow> 'x session" where
  "NewSession store name =
     \<lparr>dirty = False, lastAccessed = 0, session_id = '''', session_values = Map.empty,
      session_options_of = store_options store, isNew = True, session_name = name\<rparr>"

definition CreateSession :: "session_store \<Rightarrow> time \<Rightarrow> time \<Rightarrow> string \<Rightarrow> string \<Rightarrow> 'x session" where
  "CreateSession store now1 now2 newId name =
     (NewSession store name)\<lparr>lastAccessed := now1, session_values := [createdTimeKey \<mapsto> SvTime now2], session_id := newId\<rparr>"

definition session_get :: "'x session \<Rightarrow> string \<Rightarrow> 'x sval" where
  "session_get s key = (case session_values s key of Some v \<Rightarrow> v | None \<Rightarrow> SvNil)"

definition SetDirty :: "'x session \<Rightarrow> 'x session" where
  "SetDirty s = s\<lparr>dirty := True\<rparr>"

definition session_set :: "'x session \<Rightarrow> string \<Rightarrow> 'x sval \<Rightarrow> 'x session" where
  "session_set s key val = SetDirty (s\<lparr>session_values := (session_values s)(key \<mapsto> val)\<rparr>)"

definition session_delete :: "'x session \<Rightarrow> string \<Rightarrow> 'x session" where
  "session_delete s key =
     (if session_values s key \<noteq> None then SetDirty (s\<lparr>session_values := (session_values s)(key := None)\<rparr>) else s)"

definition session_clear :: "'x session \<Rightarrow> 'x session" where
  "session_clear s = SetDirty (s\<lparr>session_values := Map.empty\<rparr>)"

definition Flashes :: "'x session \<Rightarrow> string list \<Rightarrow> ('x session \<times> 'x sval list) call" where
  "Flashes s flashKey =
     (let key = (case flashKey of [] \<Rightarrow> flashesKey | k # _ \<Rightarrow> k)
      in case session_values s key of
           None \<Rightarrow> Returns (SetDirty s, [])
         | Some v \<Rightarrow>
            (case v of
               SvFlashes flashes \<Rightarrow> Returns (SetDirty (s\<lparr>session_values := (session_values s)(key := None)\<rparr>), flashes)
             | _ \<Rightarrow> Panics))"

definition Flash :: "'x session \<Rightarrow> string \<Rightarrow> ('x session \<times> 'x sval) call" where
  "Flash s key =
     and_then (Flashes s [key]) (\<lambda>(s', values). Returns (s', if values \<noteq> [] then last values else SvNil))"

definition AddFlash :: "'x session \<Rightarrow> 'x sval \<Rightarrow> string list \<Rightarrow> 'x session call" where
  "AddFlash s val flashKey =
     (let key = (case flashKey of [] \<Rightarrow> flashesKey | k # _ \<Rightarrow> k)
      in case session_values s key of
           None \<Rightarrow> Returns (SetDirty (s\<lparr>session_values := (session_values s)(key \<mapsto> SvFlashes [val])\<rparr>))
         | Some v \<Rightarrow>
            (case v of
               SvFlashes flashes \<Rightarrow>
                 Returns (SetDirty (s\<lparr>session_values := (session_values s)(key \<mapsto> SvFlashes (flashes @ [val]))\<rparr>))
             | _ \<Rightarrow> Panics))"

definition createdOn :: "'x session \<Rightarrow> time call" where
  "createdOn s =
     (case session_values s createdTimeKey of
        None \<Rightarrow> Returns 0
      | Some v \<Rightarrow> (case v of SvTime t \<Rightarrow> Returns t | _ \<Rightarrow> Panics))"

definition expiration :: "'x session \<Rightarrow> (bool \<times> time) call" where
  "expiration s =
     (let idle = opt_IdleTimeout (session_options_of s);
          absolute = opt_AbsoluteTimeout (session_options_of s);
          idleExpiration = (if idle > 0 then lastAccessed s + idle else 0)
      in if absolute > 0
         then and_then (createdOn s) (\<lambda>created.
                Returns (CalculateExpiration (if idle > 0 then BothTimeouts else AbsoluteTimeoutEnabled)
                  idleExpiration (created + absolute)))
         else Returns (CalculateExpiration (if idle > 0 then IdleTimeoutEnabled else NoTimeout) idleExpiration 0))"

definition isExpired :: "time \<Rightarrow> 'x session \<Rightarrow> bool call" where
  "isExpired now s = and_then (expiration s) (\<lambda>(canExpire, e). Returns (canExpire \<and> e < now))"

text \<open>The cookie of a session; \<open>proto\<close> is the header \<^verbatim>\<open>X-Forwarded-Proto\<close>.\<close>

record cookie =
  cookie_name :: string
  cookie_value :: string
  cookie_options :: session_options
  cookie_expires :: "time option"

definition newCookieFromOptions :: "string \<Rightarrow> string \<Rightarrow> session_options \<Rightarrow> cookie" where
  "newCookieFromOptions name val options =
     \<lparr>cookie_name = name, cookie_value = val, cookie_options = options, cookie_expires = None\<rparr>"

definition NewCookie :: "time \<Rightarrow> string \<Rightarrow> string \<Rightarrow> session_options \<Rightarrow> string \<Rightarrow> cookie" where
  "NewCookie now name val options proto =
     (let c = newCookieFromOptions name val options;
          c = (if opt_MaxAge options > 0 then c\<lparr>cookie_expires := Some (now + opt_MaxAge options * second)\<rparr>
               else if opt_MaxAge options < 0 then c\<lparr>cookie_expires := Some (time_Unix 1)\<rparr> else c)
      in if \<not> opt_Secure options
         then c\<lparr>cookie_options := (cookie_options c)\<lparr>opt_Secure := strings_Contains proto ''https''\<rparr>\<rparr> else c)"

section \<open>The Redis client\<close>

datatype 'x hval = HValues "string \<rightharpoonup> 'x sval" | HOptions session_options | HDuration duration | HSecs int

record ('r, 'x) session_redis =
  sHGetAll :: "'r \<Rightarrow> time \<Rightarrow> string \<Rightarrow> string + (string \<times> 'x hval) list"
  sHSet :: "'r \<Rightarrow> time \<Rightarrow> string \<Rightarrow> (string \<times> 'x hval) list \<Rightarrow> 'r \<times> string option"
  sExpireAt :: "'r \<Rightarrow> time \<Rightarrow> string \<Rightarrow> time \<Rightarrow> 'r \<times> string option"
  sDel :: "'r \<Rightarrow> time \<Rightarrow> string \<Rightarrow> 'r \<times> string option"
  sRename :: "'r \<Rightarrow> time \<Rightarrow> string \<Rightarrow> string \<Rightarrow> 'r \<times> string option"
  sSAdd :: "'r \<Rightarrow> time \<Rightarrow> string \<Rightarrow> string list \<Rightarrow> 'r \<times> string option"
  sSRem :: "'r \<Rightarrow> time \<Rightarrow> string \<Rightarrow> string list \<Rightarrow> 'r \<times> string option"
  sSScan :: "'r \<Rightarrow> time \<Rightarrow> string \<Rightarrow> 64 word \<Rightarrow> string + string list \<times> 64 word"

section \<open>The store\<close>

definition sessionValueField :: string where "sessionValueField = ''values''"
definition sessionOptionField :: string where "sessionOptionField = ''options''"
definition globalSettingIdleTimeout :: string where "globalSettingIdleTimeout = ''IDLE_SESSION_TIMEOUT_SECS''"
definition globalSettingAbsTimeout :: string where "globalSettingAbsTimeout = ''ABSOLUTE_SESSION_TIMEOUT_SECS''"

definition getRedisPrincipalIndexKey :: "string \<Rightarrow> string \<Rightarrow> string" where
  "getRedisPrincipalIndexKey princ sessionName = RedisNameSpace @ '':INDEX:'' @ sessionName @ '':'' @ princ"

definition readTimeoutSetting :: "session_store \<Rightarrow> string \<Rightarrow> duration option" where
  "readTimeoutSetting store key =
     (case settingReader store of
        None \<Rightarrow> None
      | Some read \<Rightarrow>
         (case read key of
            Inl e \<Rightarrow> None
          | Inr secs \<Rightarrow> Some (sint (word_of_int (second * secs) :: 64 word))))"

definition store_New :: "session_store \<Rightarrow> time \<Rightarrow> time \<Rightarrow> string \<Rightarrow> string \<Rightarrow> 'x session" where
  "store_New store now1 now2 newId name =
     (let s = CreateSession store now1 now2 newId name;
          s = (case readTimeoutSetting store globalSettingIdleTimeout of
                 None \<Rightarrow> s
               | Some idle \<Rightarrow> s\<lparr>session_options_of := (session_options_of s)\<lparr>opt_IdleTimeout := idle\<rparr>\<rparr>)
      in case readTimeoutSetting store globalSettingAbsTimeout of
           None \<Rightarrow> s
         | Some absolute \<Rightarrow> s\<lparr>session_options_of := (session_options_of s)\<lparr>opt_AbsoluteTimeout := absolute\<rparr>\<rparr>)"

text \<open>Decoding into options that have values already: a field that was zero was not sent.\<close>

definition gob_decode_options :: "session_options \<Rightarrow> session_options \<Rightarrow> session_options" where
  "gob_decode_options dst sent =
     \<lparr>opt_Path = (if opt_Path sent = '''' then opt_Path dst else opt_Path sent),
      opt_Domain = (if opt_Domain sent = '''' then opt_Domain dst else opt_Domain sent),
      opt_MaxAge = (if opt_MaxAge sent = 0 then opt_MaxAge dst else opt_MaxAge sent),
      opt_Secure = (opt_Secure sent \<or> opt_Secure dst),
      opt_HttpOnly = (opt_HttpOnly sent \<or> opt_HttpOnly dst),
      opt_SameSite = (if opt_SameSite sent = 0 then opt_SameSite dst else opt_SameSite sent),
      opt_IdleTimeout = (if opt_IdleTimeout sent = 0 then opt_IdleTimeout dst else opt_IdleTimeout sent),
      opt_AbsoluteTimeout = (if opt_AbsoluteTimeout sent = 0 then opt_AbsoluteTimeout dst else opt_AbsoluteTimeout sent)\<rparr>"

definition load_field :: "string \<Rightarrow> 'x hval \<Rightarrow> 'x session \<Rightarrow> string + 'x session" where
  "load_field k v s =
     (if k = sessionValueField then
        (case v of HValues vs \<Rightarrow> Inr (s\<lparr>session_values := vs\<rparr>) | _ \<Rightarrow> Inl ''Cannot serialize value'')
      else if k = sessionOptionField then
        (case v of
           HOptions sent \<Rightarrow> Inr (s\<lparr>session_options_of := gob_decode_options (session_options_of s) sent\<rparr>)
         | _ \<Rightarrow> Inl ''Cannot serialize value'')
      else if k = SessionLastAccessedField then
        (case v of HSecs timeStamp \<Rightarrow> Inr (s\<lparr>lastAccessed := time_Unix timeStamp\<rparr>) | _ \<Rightarrow> Inl ''invalid syntax'')
      else Inr s)"

fun load_fields :: "(string \<times> 'x hval) list \<Rightarrow> 'x session \<Rightarrow> string + 'x session" where
  "load_fields [] s = Inr s"
| "load_fields ((k, v) # fs) s = (case load_field k v s of Inl e \<Rightarrow> Inl e | Inr s' \<Rightarrow> load_fields fs s')"

text \<open>\<^verbatim>\<open>load\<close> asks Redis at the time \<open>t\<close> and compares the expiration with the time \<open>now\<close>.\<close>

definition load ::
    "('r, 'x) session_redis \<Rightarrow> session_store \<Rightarrow> 'r \<Rightarrow> time \<Rightarrow> time \<Rightarrow> string \<Rightarrow> string \<Rightarrow>
     (string + 'x session option) call" where
  "load rc store d t now ident name =
     (case sHGetAll rc d t (GetRedisSessionKey name ident) of
        Inl err \<Rightarrow> Returns (Inl err)
      | Inr result \<Rightarrow>
         if result = [] then Returns (Inr None)
         else (case load_fields result ((NewSession store name)\<lparr>session_id := ident\<rparr>) of
                 Inl err \<Rightarrow> Returns (Inl err)
               | Inr s \<Rightarrow>
                   let s = s\<lparr>isNew := False\<rparr>
                   in and_then (isExpired now s) (\<lambda>expired. Returns (Inr (if expired then None else Some s)))))"

definition store_Get ::
    "('r, 'x) session_redis \<Rightarrow> session_store \<Rightarrow> 'r \<Rightarrow> time \<Rightarrow> time \<Rightarrow> time \<Rightarrow> time \<Rightarrow> string \<Rightarrow> string \<Rightarrow> string \<Rightarrow>
     (string + 'x session) call" where
  "store_Get rc store d t now now1 now2 newId ident name =
     (if ident \<noteq> '''' then
        and_then (load rc store d t now ident name) (\<lambda>r.
          case r of
            Inl err \<Rightarrow> Returns (Inl err)
          | Inr None \<Rightarrow> Returns (Inr (store_New store now1 now2 newId name))
          | Inr (Some s) \<Rightarrow> Returns (Inr s))
      else Returns (Inr (store_New store now1 now2 newId name)))"

text \<open>The arguments of \<^verbatim>\<open>HSET\<close>; the error is that of the encoder.\<close>

definition save_args ::
    "((string \<rightharpoonup> 'x sval) \<Rightarrow> string option) \<Rightarrow> 'x session \<Rightarrow> (string + (string \<times> 'x hval) list) call" where
  "save_args gob s =
     (let last = (SessionLastAccessedField, HSecs (Time_Unix (lastAccessed s)));
          opts = session_options_of s
      in if (dirty s \<or> isNew s) \<and> gob (session_values s) \<noteq> None then Returns (Inl (the (gob (session_values s))))
         else
           let values = (if dirty s \<or> isNew s then [(sessionValueField, HValues (session_values s))] else []);
               idle = (if opt_IdleTimeout opts > 0 then [(SessionIdleTimeoutDuration, HDuration (opt_IdleTimeout opts))] else [])
           in if \<not> isNew s then Returns (Inr (values @ [last]))
              else if opt_AbsoluteTimeout opts > 0
              then and_then (createdOn s) (\<lambda>created.
                     Returns (Inr (values @ [(sessionOptionField, HOptions opts)] @ idle
                       @ [(SessionAbsTimeoutTime, HSecs (Time_Unix (created + opt_AbsoluteTimeout opts)))] @ [last])))
              else Returns (Inr (values @ [(sessionOptionField, HOptions opts)] @ idle @ [last])))"

definition save_session ::
    "('r, 'x) session_redis \<Rightarrow> ((string \<rightharpoonup> 'x sval) \<Rightarrow> string option) \<Rightarrow> 'r \<Rightarrow> time \<Rightarrow> time \<Rightarrow> 'x session \<Rightarrow>
     ('r \<times> string option) call" where
  "save_session rc gob d t1 t2 s =
     and_then (save_args gob s) (\<lambda>r.
       case r of
         Inl err \<Rightarrow> Returns (d, Some err)
       | Inr args \<Rightarrow>
          (case sHSet rc d t1 (GetRedisSessionKey (session_name s) (session_id s)) args of
             (d', Some err) \<Rightarrow> Returns (d', Some err)
           | (d', None) \<Rightarrow>
              and_then (expiration s) (\<lambda>(canExpire, e).
                if canExpire then Returns (sExpireAt rc d' t2 (GetRedisSessionKey (session_name s) (session_id s)) e)
                else Returns (d', None))))"

definition store_Save ::
    "('r, 'x) session_redis \<Rightarrow> ((string \<rightharpoonup> 'x sval) \<Rightarrow> string option) \<Rightarrow> 'r \<Rightarrow> time \<Rightarrow> time \<Rightarrow> time \<Rightarrow> 'x session \<Rightarrow>
     ('r \<times> 'x session \<times> string option) call" where
  "store_Save rc gob d now t1 t2 s =
     (if session_id s = '''' then Returns (d, s, Some ''session id is empty'')
      else
        let s = s\<lparr>lastAccessed := now\<rparr>
        in and_then (save_session rc gob d t1 t2 s) (\<lambda>(d', err).
             Returns (d', if err = None then s\<lparr>dirty := False, isNew := False\<rparr> else s, err)))"

definition session_Save ::
    "('r, 'x) session_redis \<Rightarrow> ((string \<rightharpoonup> 'x sval) \<Rightarrow> string option) \<Rightarrow> 'r \<Rightarrow> time \<Rightarrow> time \<Rightarrow> time \<Rightarrow> 'x session \<Rightarrow>
     ('r \<times> 'x session \<times> string option) call" where
  "session_Save rc gob d now t1 t2 s =
     (if \<not> dirty s then Returns (d, s, None) else store_Save rc gob d now t1 t2 s)"

definition AddToPrincipalIndex :: "('r, 'x) session_redis \<Rightarrow> 'r \<Rightarrow> time \<Rightarrow> string \<Rightarrow> 'x session \<Rightarrow> 'r \<times> string option" where
  "AddToPrincipalIndex rc d t princ s =
     sSAdd rc d t (getRedisPrincipalIndexKey princ (session_name s)) [session_id s]"

definition RemoveFromPrincipalIndex ::
    "('r, 'x) session_redis \<Rightarrow> 'r \<Rightarrow> time \<Rightarrow> string \<Rightarrow> 'x session \<Rightarrow> 'r \<times> string option" where
  "RemoveFromPrincipalIndex rc d t princ s =
     sSRem rc d t (getRedisPrincipalIndexKey princ (session_name s)) [session_id s]"

definition getPrincipalName :: "'x session \<Rightarrow> string + string" where
  "getPrincipalName s =
     (case session_get s sessionKeySecurity of SvAuth auth \<Rightarrow> GetUsername (Some auth) | _ \<Rightarrow> Inr '''')"

fun Invalidate :: "('r, 'x) session_redis \<Rightarrow> 'r \<Rightarrow> time \<Rightarrow> 'x session list \<Rightarrow> 'r \<times> string option" where
  "Invalidate rc d t [] = (d, None)"
| "Invalidate rc d t (s # ss) =
     (case sDel rc d t (GetRedisSessionKey (session_name s) (session_id s)) of
        (d', Some err) \<Rightarrow> (d', Some err)
      | (d', None) \<Rightarrow>
         let d'' = (case getPrincipalName s of
                      Inr pName \<Rightarrow> if pName \<noteq> '''' then fst (RemoveFromPrincipalIndex rc d' t pName s) else d'
                    | Inl e \<Rightarrow> d')
         in Invalidate rc d'' t ss)"

partial_function (option) scan_loop ::
    "('r, 'x) session_redis \<Rightarrow> 'r \<Rightarrow> time \<Rightarrow> string \<Rightarrow> 64 word \<Rightarrow> string list \<Rightarrow> (string + string list) option" where
  "scan_loop rc d t key cursor ids =
     (case sSScan rc d t key cursor of
        Inl err \<Rightarrow> Some (Inl err)
      | Inr (keys, next) \<Rightarrow>
          if next = 0 then Some (Inr (ids @ keys)) else scan_loop rc d t key next (ids @ keys))"

text \<open>The loop over the ids of the index: the sessions found and the ids without a session.\<close>

fun find_loop ::
    "('r, 'x) session_redis \<Rightarrow> session_store \<Rightarrow> 'r \<Rightarrow> time \<Rightarrow> string \<Rightarrow> string list \<Rightarrow>
     (string + 'x session list \<times> string list) call" where
  "find_loop rc store d t name [] = Returns (Inr ([], []))"
| "find_loop rc store d t name (ident # ids) =
     and_then (load rc store d t t ident name) (\<lambda>r.
       case r of
         Inl err \<Rightarrow> Returns (Inl err)
       | Inr found \<Rightarrow>
           and_then (find_loop rc store d t name ids) (\<lambda>r'.
             case r' of
               Inl err \<Rightarrow> Returns (Inl err)
             | Inr (ss, expired) \<Rightarrow>
                Returns (Inr (case found of None \<Rightarrow> (ss, ident # expired) | Some s \<Rightarrow> (s # ss, expired)))))"

definition FindByPrincipalName ::
    "('r, 'x) session_redis \<Rightarrow> session_store \<Rightarrow> 'r \<Rightarrow> time \<Rightarrow> string \<Rightarrow> string \<Rightarrow>
     ('r \<times> (string + 'x session list)) call" where
  "FindByPrincipalName rc store d t princ name =
     (case scan_loop rc d t (getRedisPrincipalIndexKey princ name) 0 [] of
        None \<Rightarrow> Runs_forever
      | Some (Inl err) \<Rightarrow> Returns (d, Inl err)
      | Some (Inr ids) \<Rightarrow>
         and_then (find_loop rc store d t name ids) (\<lambda>r.
           case r of
             Inl err \<Rightarrow> Returns (d, Inl err)
           | Inr (found, expired) \<Rightarrow>
               Returns (if expired \<noteq> [] then fst (sSRem rc d t (getRedisPrincipalIndexKey princ name) expired) else d,
                        Inr found)))"

definition InvalidateByPrincipalName ::
    "('r, 'x) session_redis \<Rightarrow> session_store \<Rightarrow> 'r \<Rightarrow> time \<Rightarrow> string \<Rightarrow> string \<Rightarrow> ('r \<times> string option) call" where
  "InvalidateByPrincipalName rc store d t princ name =
     and_then (FindByPrincipalName rc store d t princ name) (\<lambda>(d', r).
       case r of Inl e \<Rightarrow> Returns (d', Some e) | Inr sessions \<Rightarrow> Returns (Invalidate rc d' t sessions))"

definition ChangeId :: "('r, 'x) session_redis \<Rightarrow> 'r \<Rightarrow> time \<Rightarrow> string \<Rightarrow> 'x session \<Rightarrow> 'r \<times> 'x session \<times> string option" where
  "ChangeId rc d t newId s =
     (case sRename rc d t (GetRedisSessionKey (session_name s) (session_id s)) (GetRedisSessionKey (session_name s) newId) of
        (d', Some err) \<Rightarrow> (d', s, Some err)
      | (d', None) \<Rightarrow> (d', s\<lparr>session_id := newId\<rparr>, None))"

section \<open>What Redis documents\<close>

text \<open>
  The contents of the database: hashes, with the time at which the key expires, and sets. A key whose time has
  come is gone; \<^verbatim>\<open>EXPIREAT\<close> counts in whole seconds.
\<close>

record 'x sdata =
  hashes :: "string \<rightharpoonup> (string \<times> 'x hval) list \<times> time option"
  index_sets :: "string \<Rightarrow> string list"

definition live :: "'x sdata \<Rightarrow> time \<Rightarrow> string \<Rightarrow> ((string \<times> 'x hval) list \<times> time option) option" where
  "live d t k =
     (case hashes d k of
        None \<Rightarrow> None
      | Some (h, e) \<Rightarrow> if (case e of None \<Rightarrow> True | Some x \<Rightarrow> t < x) then Some (h, e) else None)"

definition live_hash :: "'x sdata \<Rightarrow> time \<Rightarrow> string \<Rightarrow> (string \<times> 'x hval) list" where
  "live_hash d t k = (case live d t k of None \<Rightarrow> [] | Some (h, e) \<Rightarrow> h)"

definition do_hset :: "'x sdata \<Rightarrow> time \<Rightarrow> string \<Rightarrow> (string \<times> 'x hval) list \<Rightarrow> 'x sdata" where
  "do_hset d t k args =
     d\<lparr>hashes := (hashes d)(k \<mapsto>
        (foldl (\<lambda>h (f, v). AList.update f v h) (live_hash d t k) args,
         case live d t k of None \<Rightarrow> None | Some (h, e) \<Rightarrow> e))\<rparr>"

definition whole_seconds :: "time \<Rightarrow> time" where
  "whole_seconds t = time_Unix (Time_Unix t)"

definition do_expire :: "'x sdata \<Rightarrow> time \<Rightarrow> string \<Rightarrow> time \<Rightarrow> 'x sdata" where
  "do_expire d t k e =
     (case live d t k of None \<Rightarrow> d | Some (h, _) \<Rightarrow> d\<lparr>hashes := (hashes d)(k \<mapsto> (h, Some (whole_seconds e)))\<rparr>)"

definition do_del :: "'x sdata \<Rightarrow> string \<Rightarrow> 'x sdata" where
  "do_del d k = d\<lparr>hashes := (hashes d)(k := None), index_sets := (index_sets d)(k := [])\<rparr>"

definition do_rename :: "'x sdata \<Rightarrow> time \<Rightarrow> string \<Rightarrow> string \<Rightarrow> 'x sdata" where
  "do_rename d t k k' = d\<lparr>hashes := (hashes d)(k := None, k' := live d t k)\<rparr>"

definition do_sadd :: "'x sdata \<Rightarrow> string \<Rightarrow> string list \<Rightarrow> 'x sdata" where
  "do_sadd d k ms = d\<lparr>index_sets := (index_sets d)(k := foldl (\<lambda>xs m. List.insert m xs) (index_sets d k) ms)\<rparr>"

definition do_srem :: "'x sdata \<Rightarrow> string \<Rightarrow> string list \<Rightarrow> 'x sdata" where
  "do_srem d k ms = d\<lparr>index_sets := (index_sets d)(k := filter (\<lambda>x. x \<notin> set ms) (index_sets d k))\<rparr>"

inductive scans :: "('r, 'x) session_redis \<Rightarrow> 'r \<Rightarrow> time \<Rightarrow> string \<Rightarrow> 64 word \<Rightarrow> string list \<Rightarrow> bool"
  for rc d t key where
  scans_last: "sSScan rc d t key c = Inr (keys, 0) \<Longrightarrow> scans rc d t key c keys"
| scans_more: "sSScan rc d t key c = Inr (keys, next) \<Longrightarrow> next \<noteq> 0 \<Longrightarrow> scans rc d t key next ids \<Longrightarrow>
    scans rc d t key c (keys @ ids)"

definition does :: "('r \<Rightarrow> 'x sdata) \<Rightarrow> 'r \<times> string option \<Rightarrow> 'x sdata \<Rightarrow> 'x sdata \<Rightarrow> bool" where
  "does data r before after =
     (case r of (d', err) \<Rightarrow> data d' = after \<or> err \<noteq> None \<and> data d' = before)"

definition session_docs :: "('r, 'x) session_redis \<Rightarrow> ('r \<Rightarrow> 'x sdata) \<Rightarrow> bool" where
  "session_docs rc data \<longleftrightarrow>
     (\<forall>d t k l. sHGetAll rc d t k = Inr l \<longrightarrow> distinct (map fst l) \<and> map_of l = map_of (live_hash (data d) t k))
     \<and> (\<forall>d t k args. does data (sHSet rc d t k args) (data d) (do_hset (data d) t k args))
     \<and> (\<forall>d t k e. does data (sExpireAt rc d t k e) (data d) (do_expire (data d) t k e))
     \<and> (\<forall>d t k. does data (sDel rc d t k) (data d) (do_del (data d) k))
     \<and> (\<forall>d t k k'. does data (sRename rc d t k k') (data d) (do_rename (data d) t k k')
          \<and> (snd (sRename rc d t k k') = None \<longrightarrow> live (data d) t k \<noteq> None))
     \<and> (\<forall>d t k ms. does data (sSAdd rc d t k ms) (data d) (do_sadd (data d) k ms))
     \<and> (\<forall>d t k ms. does data (sSRem rc d t k ms) (data d) (do_srem (data d) k ms))
     \<and> (\<forall>d t k ids. scans rc d t k 0 ids \<longrightarrow> set ids = set (index_sets (data d) k))"

lemma session_docsD:
  assumes "session_docs rc data"
  shows "sHGetAll rc d t k = Inr l \<Longrightarrow> distinct (map fst l) \<and> map_of l = map_of (live_hash (data d) t k)"
    and "sHSet rc d t k args = (d', None) \<Longrightarrow> data d' = do_hset (data d) t k args"
    and "sExpireAt rc d t k e = (d', None) \<Longrightarrow> data d' = do_expire (data d) t k e"
    and "sDel rc d t k = (d', None) \<Longrightarrow> data d' = do_del (data d) k"
    and "sRename rc d t k k' = (d', None) \<Longrightarrow> data d' = do_rename (data d) t k k' \<and> live (data d) t k \<noteq> None"
    and "sSAdd rc d t k ms = (d', None) \<Longrightarrow> data d' = do_sadd (data d) k ms"
    and "sSRem rc d t k ms = (d', err) \<Longrightarrow> data d' = do_srem (data d) k ms \<or> data d' = data d"
    and "scans rc d t k 0 ids \<Longrightarrow> set ids = set (index_sets (data d) k)"
  subgoal using assms by (simp add: session_docs_def)
  subgoal using assms [unfolded session_docs_def, THEN conjunct2, THEN conjunct1, rule_format, of d t k args] by (simp add: does_def)
  subgoal using assms [unfolded session_docs_def, THEN conjunct2, THEN conjunct2, THEN conjunct1, rule_format, of d t k e]
    by (simp add: does_def)
  subgoal using assms [unfolded session_docs_def, THEN conjunct2, THEN conjunct2, THEN conjunct2, THEN conjunct1, rule_format, of d t k]
    by (simp add: does_def)
  subgoal using assms [unfolded session_docs_def, THEN conjunct2, THEN conjunct2, THEN conjunct2, THEN conjunct2, THEN conjunct1,
      rule_format, of d t k k'] by (simp add: does_def)
  subgoal using assms [unfolded session_docs_def, THEN conjunct2, THEN conjunct2, THEN conjunct2, THEN conjunct2, THEN conjunct2,
      THEN conjunct1, rule_format, of d t k ms] by (simp add: does_def)
  subgoal using assms [unfolded session_docs_def, THEN conjunct2, THEN conjunct2, THEN conjunct2, THEN conjunct2, THEN conjunct2,
      THEN conjunct2, THEN conjunct1, rule_format, of d t k ms] by (auto simp: does_def)
  subgoal using assms by (simp add: session_docs_def)
  done

text \<open>The database answers reads.\<close>

definition reads_ok :: "('r, 'x) session_redis \<Rightarrow> bool" where
  "reads_ok rc \<longleftrightarrow> (\<forall>d t k. \<exists>l. sHGetAll rc d t k = Inr l)"

text \<open>A client over a database in memory.\<close>

definition mem_client :: "('x sdata, 'x) session_redis" where
  "mem_client =
     \<lparr>sHGetAll = \<lambda>d t k. Inr (AList.clearjunk (live_hash d t k)),
      sHSet = \<lambda>d t k args. (do_hset d t k args, None),
      sExpireAt = \<lambda>d t k e. (do_expire d t k e, None),
      sDel = \<lambda>d t k. (do_del d k, None),
      sRename = \<lambda>d t k k'. (if live d t k = None then (d, Some ''no such key'') else (do_rename d t k k', None)),
      sSAdd = \<lambda>d t k ms. (do_sadd d k ms, None),
      sSRem = \<lambda>d t k ms. (do_srem d k ms, None),
      sSScan = \<lambda>d t k c. Inr (remdups (index_sets d k), 0)\<rparr>"

lemma mem_scans: "scans mem_client d t k c ids \<longleftrightarrow> ids = remdups (index_sets d k)"
  by (auto simp: mem_client_def elim: scans.cases intro: scans_last)

lemma mem_client_docs: "session_docs mem_client (\<lambda>d. d)" and mem_client_reads: "reads_ok mem_client"
proof -
  show "session_docs mem_client (\<lambda>d. d)"
    unfolding session_docs_def mem_scans
    by (simp add: mem_client_def does_def distinct_clearjunk map_of_clearjunk)
  show "reads_ok mem_client" by (simp add: reads_ok_def mem_client_def)
qed

section \<open>Loading\<close>

lemma field_names [simp]:
  "sessionValueField \<noteq> sessionOptionField" "sessionValueField \<noteq> SessionLastAccessedField" "sessionValueField \<noteq> SessionIdleTimeoutDuration" "sessionValueField \<noteq> SessionAbsTimeoutTime"
  "sessionOptionField \<noteq> sessionValueField" "sessionOptionField \<noteq> SessionLastAccessedField" "sessionOptionField \<noteq> SessionIdleTimeoutDuration" "sessionOptionField \<noteq> SessionAbsTimeoutTime"
  "SessionLastAccessedField \<noteq> sessionValueField" "SessionLastAccessedField \<noteq> sessionOptionField" "SessionLastAccessedField \<noteq> SessionIdleTimeoutDuration" "SessionLastAccessedField \<noteq> SessionAbsTimeoutTime"
  "SessionIdleTimeoutDuration \<noteq> sessionValueField" "SessionIdleTimeoutDuration \<noteq> sessionOptionField" "SessionIdleTimeoutDuration \<noteq> SessionLastAccessedField" "SessionIdleTimeoutDuration \<noteq> SessionAbsTimeoutTime"
  "SessionAbsTimeoutTime \<noteq> sessionValueField" "SessionAbsTimeoutTime \<noteq> sessionOptionField" "SessionAbsTimeoutTime \<noteq> SessionLastAccessedField" "SessionAbsTimeoutTime \<noteq> SessionIdleTimeoutDuration"
  by (simp_all add: sessionValueField_def sessionOptionField_def SessionLastAccessedField_def SessionIdleTimeoutDuration_def
      SessionAbsTimeoutTime_def)

text \<open>The fields of a hash have the types \<^verbatim>\<open>save\<close> gives them.\<close>

definition typed :: "(string \<rightharpoonup> 'x hval) \<Rightarrow> bool" where
  "typed h \<longleftrightarrow> (\<forall>v. h sessionValueField = Some v \<longrightarrow> (\<exists>vs. v = HValues vs))
     \<and> (\<forall>v. h sessionOptionField = Some v \<longrightarrow> (\<exists>opts. v = HOptions opts))
     \<and> (\<forall>v. h SessionLastAccessedField = Some v \<longrightarrow> (\<exists>n. v = HSecs n))"

definition filled :: "(string \<rightharpoonup> 'x hval) \<Rightarrow> 'x session \<Rightarrow> 'x session" where
  "filled h s =
     s\<lparr>session_values := (case h sessionValueField of Some (HValues vs) \<Rightarrow> vs | _ \<Rightarrow> session_values s),
       session_options_of := (case h sessionOptionField of
          Some (HOptions sent) \<Rightarrow> gob_decode_options (session_options_of s) sent | _ \<Rightarrow> session_options_of s),
       lastAccessed := (case h SessionLastAccessedField of Some (HSecs n) \<Rightarrow> time_Unix n | _ \<Rightarrow> lastAccessed s)\<rparr>"

lemma typed_Cons:
  assumes "typed (map_of ((k, v) # fs))" and "k \<notin> fst ` set fs"
  shows "typed (map_of fs)" and "load_field k v s = Inr (filled [k \<mapsto> v] s)"
    and "filled (map_of fs) (filled [k \<mapsto> v] s) = filled (map_of ((k, v) # fs)) s"
proof -
  have none: "map_of fs k = None" using assms(2) by (simp add: map_of_eq_None_iff)
  show "typed (map_of fs)" using assms(1) none by (auto simp: typed_def split: if_splits)
  consider "k = sessionValueField" "\<exists>vs. v = HValues vs" | "k = sessionOptionField" "\<exists>opts. v = HOptions opts"
    | "k = SessionLastAccessedField" "\<exists>n. v = HSecs n"
    | "k \<noteq> sessionValueField" "k \<noteq> sessionOptionField" "k \<noteq> SessionLastAccessedField"
    using assms(1) by (auto simp: typed_def split: if_splits)
  then show "load_field k v s = Inr (filled [k \<mapsto> v] s)" by cases (auto simp: load_field_def filled_def)
  show "filled (map_of fs) (filled [k \<mapsto> v] s) = filled (map_of ((k, v) # fs)) s" using none
    by (cases s; cases "k = sessionValueField"; cases "k = sessionOptionField"; cases "k = SessionLastAccessedField")
      (auto simp: filled_def split: option.splits hval.splits)
qed

lemma load_fields_filled:
  "distinct (map fst fs) \<Longrightarrow> typed (map_of fs) \<Longrightarrow> load_fields fs s = Inr (filled (map_of fs) s)"
proof (induction fs arbitrary: s)
  case Nil
  then show ?case by (simp add: filled_def)
next
  case (Cons f fs)
  obtain k v where f: "f = (k, v)" by (cases f)
  from Cons.prems f have fresh: "k \<notin> fst ` set fs" and t: "typed (map_of ((k, v) # fs))" by (simp_all del: map_of.simps)
  note step = typed_Cons [OF t fresh]
  from Cons.IH [OF _ step(1)] Cons.prems(1) show ?case
    unfolding f step(3) [of s, symmetric] by (simp add: step(2) del: map_of.simps)
qed

definition stored_session :: "session_store \<Rightarrow> (string \<rightharpoonup> 'x hval) \<Rightarrow> string \<Rightarrow> string \<Rightarrow> 'x session" where
  "stored_session store h ident name =
     (filled h ((NewSession store name)\<lparr>session_id := ident\<rparr>))\<lparr>isNew := False\<rparr>"

lemma load_spec:
  assumes "session_docs rc data" "reads_ok rc"
    and "h = live_hash (data d) t (GetRedisSessionKey name ident)" "typed (map_of h)"
  shows "load rc store d t now ident name =
    (if h = [] then Returns (Inr None)
     else and_then (isExpired now (stored_session store (map_of h) ident name)) (\<lambda>expired.
       Returns (Inr (if expired then None else Some (stored_session store (map_of h) ident name)))))"
proof -
  from assms(2) obtain l where l: "sHGetAll rc d t (GetRedisSessionKey name ident) = Inr l" unfolding reads_ok_def by blast
  from session_docsD(1) [OF assms(1) l] assms(3) have dl: "distinct (map fst l)" and ml: "map_of l = map_of h" by simp_all
  have "l = [] \<longleftrightarrow> h = []" using ml by (metis map_of_eq_empty_iff)
  with load_fields_filled [OF dl, of "(NewSession store name)\<lparr>session_id := ident\<rparr>"] assms(4) ml l show ?thesis
    unfolding load_def stored_session_def Let_def by simp
qed

section \<open>Saving\<close>

lemma whole_seconds_bounds: "whole_seconds t \<le> t" "t < whole_seconds t + second"
proof -
  define q r where "q = (t - unix_epoch) div second" and "r = (t - unix_epoch) mod second"
  have "t - unix_epoch = q * second + r" "0 \<le> r" "r < second"
    by (simp_all add: q_def r_def second_def)
  then show "whole_seconds t \<le> t" "t < whole_seconds t + second"
    by (simp_all add: whole_seconds_def time_Unix_def Time_Unix_def flip: q_def)
qed

definition expires_at :: "session_options \<Rightarrow> time \<Rightarrow> time \<Rightarrow> time option" where
  "expires_at opts accessed created =
     (if opt_IdleTimeout opts > 0 then
        Some (if opt_AbsoluteTimeout opts > 0 then min (accessed + opt_IdleTimeout opts) (created + opt_AbsoluteTimeout opts)
              else accessed + opt_IdleTimeout opts)
      else if opt_AbsoluteTimeout opts > 0 then Some (created + opt_AbsoluteTimeout opts) else None)"

text \<open>What the database has of a session before it is saved: nothing if it is new, and otherwise its options, and its
  values unless they are about to be saved.\<close>

definition in_store :: "session_store \<Rightarrow> 'x sdata \<Rightarrow> time \<Rightarrow> 'x session \<Rightarrow> bool" where
  "in_store store d t s \<longleftrightarrow>
     (let k = GetRedisSessionKey (session_name s) (session_id s); h = map_of (live_hash d t k)
      in if isNew s then hashes d k = None
         else typed h \<and> (\<exists>sent. h sessionOptionField = Some (HOptions sent)
                \<and> gob_decode_options (store_options store) sent = session_options_of s)
              \<and> (\<not> dirty s \<longrightarrow> h sessionValueField = Some (HValues (session_values s)))
              \<and> (expires_at (session_options_of s) 0 0 = None \<longrightarrow> snd (the (live d t k)) = None))"

lemma map_of_hset:
  "map_of (foldl (\<lambda>h (f, v). AList.update f v h) h args) = foldl (\<lambda>m (f, v). m(f \<mapsto> v)) (map_of h) args"
  by (induction args arbitrary: h) (auto simp: update_conv')

definition proper_values :: "'x session \<Rightarrow> time \<Rightarrow> bool" where
  "proper_values s c \<longleftrightarrow> session_values s createdTimeKey = Some (SvTime c)"

lemma expiration_eq:
  assumes "proper_values s c"
  shows "expiration s = Returns (case expires_at (session_options_of s) (lastAccessed s) c of None \<Rightarrow> (False, 0) | Some e \<Rightarrow> (True, e))"
  using assms by (auto simp: expiration_def createdOn_def proper_values_def CalculateExpiration_def expires_at_def Let_def min_def)

lemma isExpired_eq:
  assumes "proper_values s c"
  shows "isExpired now s = Returns (case expires_at (session_options_of s) (lastAccessed s) c of None \<Rightarrow> False | Some e \<Rightarrow> e < now)"
  by (simp add: isExpired_def expiration_eq [OF assms] split: option.split)

lemma save_args_eq:
  assumes "proper_values s c" and "save_args gob s = Returns (Inr args)"
  shows "typed h0 \<Longrightarrow> typed (foldl (\<lambda>m (f, v). m(f \<mapsto> v)) h0 args)"
    and "foldl (\<lambda>m (f, v). m(f \<mapsto> v)) h0 args SessionLastAccessedField = Some (HSecs (Time_Unix (lastAccessed s)))"
    and "foldl (\<lambda>m (f, v). m(f \<mapsto> v)) h0 args sessionOptionField =
      (if isNew s then Some (HOptions (session_options_of s)) else h0 sessionOptionField)"
    and "foldl (\<lambda>m (f, v). m(f \<mapsto> v)) h0 args sessionValueField =
      (if dirty s \<or> isNew s then Some (HValues (session_values s)) else h0 sessionValueField)"
proof -
  have created: "createdOn s = Returns c" using assms(1) by (simp add: proper_values_def createdOn_def)
  obtain vs os where args: "args = vs @ os @ [(SessionLastAccessedField, HSecs (Time_Unix (lastAccessed s)))]"
    and vs: "vs = (if dirty s \<or> isNew s then [(sessionValueField, HValues (session_values s))] else [])"
    and os: "os = (if isNew s then (sessionOptionField, HOptions (session_options_of s))
         # (if opt_IdleTimeout (session_options_of s) > 0
             then [(SessionIdleTimeoutDuration, HDuration (opt_IdleTimeout (session_options_of s)))] else [])
         @ (if opt_AbsoluteTimeout (session_options_of s) > 0
             then [(SessionAbsTimeoutTime, HSecs (Time_Unix (c + opt_AbsoluteTimeout (session_options_of s))))] else []) else [])"
    using assms(2) by (auto simp: save_args_def Let_def created split: if_splits)
  let ?put = "foldl (\<lambda>m (f, v). m(f \<mapsto> v))"
  show "typed h0 \<Longrightarrow> typed (?put h0 args)" by (simp add: args vs os typed_def)
  show "?put h0 args SessionLastAccessedField = Some (HSecs (Time_Unix (lastAccessed s)))" by (simp add: args)
  show "?put h0 args sessionOptionField = (if isNew s then Some (HOptions (session_options_of s)) else h0 sessionOptionField)"
    by (simp add: args vs os)
  show "?put h0 args sessionValueField =
      (if dirty s \<or> isNew s then Some (HValues (session_values s)) else h0 sessionValueField)"
    by (simp add: args vs os)
qed

lemma live_hset: "live (do_hset d t k args) t' k =
    (case live d t k of
       None \<Rightarrow> Some (foldl (\<lambda>h (f, v). AList.update f v h) [] args, None)
     | Some (h, e) \<Rightarrow> if (case e of None \<Rightarrow> True | Some x \<Rightarrow> t' < x)
         then Some (foldl (\<lambda>h (f, v). AList.update f v h) h args, e) else None)"
  by (auto simp: live_def do_hset_def live_hash_def split: option.splits)

lemma expires_at_None: "expires_at opts x y = None \<longleftrightarrow> opt_IdleTimeout opts \<le> 0 \<and> opt_AbsoluteTimeout opts \<le> 0"
  by (auto simp: expires_at_def)

abbreviation session_key :: "'x session \<Rightarrow> string" where
  "session_key s \<equiv> GetRedisSessionKey (session_name s) (session_id s)"

lemma save_effect:
  assumes docs: "session_docs rc data" and c: "proper_values s c"
    and save: "store_Save rc gob d t0 t0 t0 s = Returns (d', s', None)"
  obtains args where "save_args gob (s\<lparr>lastAccessed := t0\<rparr>) = Returns (Inr args)"
    "data d' = (case expires_at (session_options_of s) t0 c of
        None \<Rightarrow> do_hset (data d) t0 (session_key s) args
      | Some e \<Rightarrow> do_expire (do_hset (data d) t0 (session_key s) args) t0 (session_key s) e)"
proof -
  let ?s = "s\<lparr>lastAccessed := t0\<rparr>"
  have "expiration ?s = Returns (case expires_at (session_options_of s) t0 c of None \<Rightarrow> (False, 0) | Some e \<Rightarrow> (True, e))"
    using expiration_eq [of ?s c] c by (simp add: proper_values_def)
  note ex = this
  from save have "save_session rc gob d t0 t0 ?s = Returns (d', None)"
    by (cases "save_session rc gob d t0 t0 ?s") (auto simp: store_Save_def Let_def split: if_splits)
  moreover define s0 where "s0 = ?s"
  ultimately have sv: "save_session rc gob d t0 t0 s0 = Returns (d', None)" by simp
  have key: "session_key s0 = session_key s" by (simp add: s0_def)
  from sv obtain args where args: "save_args gob s0 = Returns (Inr args)"
      and r: "(case sHSet rc d t0 (session_key s0) args of
             (d', Some err) \<Rightarrow> Returns (d', Some err)
           | (d', None) \<Rightarrow>
              and_then (expiration s0) (\<lambda>(canExpire, e).
                if canExpire then Returns (sExpireAt rc d' t0 (session_key s0) e) else Returns (d', None))) = Returns (d', None)"
    by (cases "save_args gob s0") (auto simp: save_session_def split: sum.splits)
  from r obtain d1 where h: "sHSet rc d t0 (session_key s) args = (d1, None)"
      and x: "and_then (expiration s0) (\<lambda>(canExpire, e).
                if canExpire then Returns (sExpireAt rc d1 t0 (session_key s) e) else Returns (d1, None)) = Returns (d', None)"
    unfolding key by (auto split: prod.splits option.splits)
  have "data d' = (case expires_at (session_options_of s) t0 c of
        None \<Rightarrow> do_hset (data d) t0 (session_key s) args
      | Some e \<Rightarrow> do_expire (do_hset (data d) t0 (session_key s) args) t0 (session_key s) e)"
    using x session_docsD(2) [OF docs h] session_docsD(3) [OF docs, of d1 t0 "session_key s" _ d']
    by (cases "expires_at (session_options_of s) t0 c") (auto simp: ex s0_def)
  with args show thesis unfolding s0_def by (rule that)
qed

lemma saved_hash:
  assumes docs: "session_docs rc data" and c: "proper_values s c" and st: "in_store store (data d) t0 s"
    and save: "store_Save rc gob d t0 t0 t0 s = Returns (d', s', None)"
  obtains h sent where "typed (map_of h)" "h \<noteq> []" "map_of h sessionValueField = Some (HValues (session_values s))"
    "map_of h sessionOptionField = Some (HOptions sent)"
    "if isNew s then sent = session_options_of s else gob_decode_options (store_options store) sent = session_options_of s"
    "map_of h SessionLastAccessedField = Some (HSecs (Time_Unix t0))"
    "\<And>t. live_hash (data d') t (session_key s) =
       (if (case expires_at (session_options_of s) t0 c of None \<Rightarrow> True | Some e \<Rightarrow> t < whole_seconds e) then h else [])"
proof -
  from save_effect [OF docs c save] obtain args where args: "save_args gob (s\<lparr>lastAccessed := t0\<rparr>) = Returns (Inr args)"
    and d': "data d' = (case expires_at (session_options_of s) t0 c of
        None \<Rightarrow> do_hset (data d) t0 (session_key s) args
      | Some e \<Rightarrow> do_expire (do_hset (data d) t0 (session_key s) args) t0 (session_key s) e)" by blast
  define h0 where "h0 = live_hash (data d) t0 (session_key s)"
  define h where "h = foldl (\<lambda>h (f, v). AList.update f v h) h0 args"
  have "proper_values (s\<lparr>lastAccessed := t0\<rparr>) c" using c by (simp add: proper_values_def)
  note eqs = save_args_eq [OF this args, of "map_of h0"]
  have mh: "map_of h = foldl (\<lambda>m (f, v). m(f \<mapsto> v)) (map_of h0) args" by (simp add: h_def map_of_hset)
  have typed0: "typed (map_of h0)" using st
    by (auto simp: in_store_def h0_def Let_def live_hash_def live_def typed_def split: if_splits)
  have last: "map_of h SessionLastAccessedField = Some (HSecs (Time_Unix t0))" using eqs(2) mh by simp
  then have ne: "h \<noteq> []" by auto
  have vals: "map_of h sessionValueField = Some (HValues (session_values s))"
    using eqs(4) mh st by (auto simp: in_store_def h0_def Let_def)
  obtain sent where sent: "map_of h sessionOptionField = Some (HOptions sent)"
      "if isNew s then sent = session_options_of s else gob_decode_options (store_options store) sent = session_options_of s"
    using eqs(3) mh st by (auto simp: in_store_def h0_def Let_def split: if_splits)
  have live0: "\<exists>e. live (do_hset (data d) t0 (session_key s) args) t0 (session_key s) = Some (h, e)
      \<and> (expires_at (session_options_of s) t0 c = None \<longrightarrow> e = None)
      \<and> hashes (do_hset (data d) t0 (session_key s) args) (session_key s) = Some (h, e)"
    using st expires_at_None [of "session_options_of s"]
    by (auto simp: live_hset h_def h0_def live_hash_def in_store_def Let_def do_hset_def live_def split: option.splits if_splits)
  then have live: "live_hash (data d') t (session_key s) =
       (if (case expires_at (session_options_of s) t0 c of None \<Rightarrow> True | Some e \<Rightarrow> t < whole_seconds e) then h else [])" for t
    by (auto simp: d' do_expire_def live_hash_def live_def split: option.splits)
  have "typed (map_of h)" using eqs(1) [OF typed0] mh by simp
  then show thesis using ne vals sent last live by (rule that)
qed


definition no_data :: "'x sdata" where
  "no_data = \<lparr>hashes = Map.empty, index_sets = \<lambda>_. []\<rparr>"

abbreviation sample_session :: "nat session" where
  "sample_session \<equiv> store_New (NewRedisStore []) unix_epoch unix_epoch ''1'' DefaultName"

lemma sample_session_simps:
  "session_options_of sample_session = store_options (NewRedisStore [])" "isNew sample_session" "session_id sample_session = ''1''"
  "session_name sample_session = DefaultName" "proper_values sample_session unix_epoch" "\<not> dirty sample_session"
  by (simp_all add: store_New_def readTimeoutSetting_def CreateSession_def NewSession_def NewRedisStore_def proper_values_def)

lemma mem_saves:
  assumes "proper_values s c" "session_id s \<noteq> []"
  shows "\<exists>d' s'. store_Save mem_client (\<lambda>_. None) d t0 t0 t0 s = Returns (d', s', None)"
proof -
  define s0 where "s0 = s\<lparr>lastAccessed := t0\<rparr>"
  have p: "proper_values s0 c" using assms(1) by (simp add: proper_values_def s0_def)
  then have created: "createdOn s0 = Returns c" by (simp add: proper_values_def createdOn_def)
  have "\<exists>args. save_args (\<lambda>_. None) s0 = Returns (Inr args)"
    by (cases "isNew s0"; cases "0 < opt_AbsoluteTimeout (session_options_of s0)") (simp_all add: save_args_def Let_def created)
  then obtain args where "save_args (\<lambda>_. None) s0 = Returns (Inr args)" by blast
  then have "\<exists>d'. save_session mem_client (\<lambda>_. None) d t0 t0 s0 = Returns (d', None)"
    by (auto simp: save_session_def mem_client_def expiration_eq [OF p] split: option.split)
  then show ?thesis using assms(2) by (auto simp: store_Save_def simp flip: s0_def)
qed


text \<open>A timeout of zero, which disables it, does not survive: a session that was created with a global setting of zero
  seconds has the timeout of the store once it is loaded, because zero fields are not transmitted.\<close>

lemma zero_timeout_is_lost:
  "let store = (NewRedisStore [])\<lparr>settingReader := Some (\<lambda>key. if key = globalSettingIdleTimeout then Inr 0 else Inl '''')\<rparr>;
       s = store_New store unix_epoch unix_epoch ''1'' DefaultName :: nat session
   in opt_IdleTimeout (session_options_of s) = 0
      \<and> (\<exists>d' s' x. store_Save mem_client (\<lambda>_. None) no_data unix_epoch unix_epoch unix_epoch s = Returns (d', s', None)
           \<and> load mem_client store d' unix_epoch unix_epoch ''1'' DefaultName = Returns (Inr (Some x))
           \<and> opt_IdleTimeout (session_options_of x) = 900 * second)"
proof -
  define store where "store = (NewRedisStore [])\<lparr>settingReader := Some (\<lambda>key. if key = globalSettingIdleTimeout then Inr 0 else Inl '''')\<rparr>"
  define s :: "nat session" where "s = store_New store unix_epoch unix_epoch ''1'' DefaultName"
  have s: "session_options_of s = (store_options store)\<lparr>opt_IdleTimeout := 0\<rparr>" "isNew s" "session_id s = ''1''"
      "session_name s = DefaultName" "proper_values s unix_epoch"
    by (simp_all add: s_def store_def store_New_def readTimeoutSetting_def CreateSession_def NewSession_def NewRedisStore_def
        proper_values_def globalSettingIdleTimeout_def globalSettingAbsTimeout_def)
  have opts: "store_options store = \<lparr>opt_Path = ''/'', opt_Domain = '''', opt_MaxAge = 0, opt_Secure = False, opt_HttpOnly = True,
          opt_SameSite = SameSiteNoneMode, opt_IdleTimeout = 900 * second, opt_AbsoluteTimeout = 1800 * second\<rparr>"
    by (simp add: store_def NewRedisStore_def)
  from mem_saves [OF s(5), of no_data unix_epoch] s(3) obtain d' s'
    where save: "store_Save mem_client (\<lambda>_. None) no_data unix_epoch unix_epoch unix_epoch s = Returns (d', s', None)" by auto
  have st: "in_store store no_data unix_epoch s" by (simp add: in_store_def s no_data_def)
  from saved_hash [where data = "\<lambda>d. d", OF mem_client_docs s(5) st save] obtain h sent
    where h: "typed (map_of h)" "h \<noteq> []" "map_of h sessionValueField = Some (HValues (session_values s))"
    "map_of h sessionOptionField = Some (HOptions sent)"
    "if isNew s then sent = session_options_of s else gob_decode_options (store_options store) sent = session_options_of s"
    "map_of h SessionLastAccessedField = Some (HSecs (Time_Unix unix_epoch))"
    and live: "\<And>t. live_hash d' t (session_key s) =
       (if (case expires_at (session_options_of s) unix_epoch unix_epoch of None \<Rightarrow> True | Some e \<Rightarrow> t < whole_seconds e) then h else [])"
    by blast
  have sent: "sent = session_options_of s" using h(5) s(2) by simp
  define x where "x = stored_session store (map_of h) (session_id s) (session_name s)"
  have x: "session_options_of x = store_options store" "lastAccessed x = unix_epoch" "proper_values x unix_epoch"
    using h(3,4,6) s(1,5) sent by (simp_all add: x_def stored_session_def filled_def NewSession_def proper_values_def
        gob_decode_options_def opts time_Unix_def Time_Unix_def)
  have e: "expires_at (session_options_of s) unix_epoch unix_epoch = Some (unix_epoch + 1800 * second)"
    by (simp add: expires_at_def s opts second_def)
  have "unix_epoch < whole_seconds (unix_epoch + 1800 * second)"
    by (simp add: whole_seconds_def time_Unix_def Time_Unix_def second_def)
  with live [of unix_epoch] e have "live_hash d' unix_epoch (session_key s) = h" by simp
  moreover have "isExpired unix_epoch x = Returns False"
    using isExpired_eq [OF x(3), of unix_epoch] x by (simp add: expires_at_def opts second_def)
  ultimately have "load mem_client store d' unix_epoch unix_epoch (session_id s) (session_name s) = Returns (Inr (Some x))"
    using load_spec [where data = "\<lambda>d. d", OF mem_client_docs mem_client_reads refl, of d' unix_epoch "session_name s" "session_id s" store unix_epoch] h(1,2)
    by (simp add: x_def)
  with save s x opts show ?thesis by (simp add: Let_def flip: store_def s_def)
qed

end
