(* ===== verification/Session_Control.thy ===== *)
theory Session_Control
  imports Session
begin

text \<open>
  The session middleware and the handlers of successful logins and logouts, \<^verbatim>\<open>session/manager.go\<close> and
  \<^verbatim>\<open>session/handler.go\<close>. The context of a request has the session, the authentication, the cookies that were
  set and the error with which the request was aborted. A panic with an error value is a panic of the
  call; what a panicking handler leaves in the database is not modelled.
\<close>

section \<open>The middleware\<close>

record 'x session_ctx =
  ctx_session :: "'x session option"
  ctx_auth :: "authentication option"
  cookies :: "cookie list"
  abort_error :: "string option"

text \<open>
  The session middleware up to the next handler. \<open>request_id\<close> is the value of the cookie, if the request has it; a
  context that is not mutable makes \<^verbatim>\<open>AbortWithError\<close> panic, because the error it is given is nil.
\<close>

definition session_begin ::
    "('r, 'x) session_redis \<Rightarrow> session_store \<Rightarrow> (nat \<Rightarrow> time) \<Rightarrow> string \<Rightarrow> bool \<Rightarrow> string \<Rightarrow> string option \<Rightarrow> string \<Rightarrow>
     'r \<Rightarrow> 'x session_ctx \<Rightarrow> 'x session_ctx call" where
  "session_begin rc store now newId is_mutable name request_id proto d c =
     (let ident = (case request_id of Some i \<Rightarrow> i | None \<Rightarrow> '''')
      in and_then (store_Get rc store d (now 0) (now 1) (now 2) (now 3) newId ident name) (\<lambda>r.
           case r of
             Inl err \<Rightarrow> Returns (c\<lparr>abort_error := Some err\<rparr>)
           | Inr s \<Rightarrow>
              let c = (if isNew s
                       then c\<lparr>cookies := cookies c @ [NewCookie (now 4) (session_name s) (session_id s) (session_options_of s) proto]\<rparr>
                       else c)
              in if is_mutable then Returns (c\<lparr>ctx_session := Some s\<rparr>) else Panics))"

definition saveSession ::
    "('r, 'x) session_redis \<Rightarrow> ((string \<rightharpoonup> 'x sval) \<Rightarrow> string option) \<Rightarrow> (nat \<Rightarrow> time) \<Rightarrow> 'r \<Rightarrow> 'x session_ctx \<Rightarrow>
     ('r \<times> 'x session_ctx) call" where
  "saveSession rc gob now d c =
     (case ctx_session c of
        None \<Rightarrow> Returns (d, c)
      | Some s \<Rightarrow>
         and_then (store_Save rc gob d (now 0) (now 1) (now 2) s) (\<lambda>(d', s', err).
           Returns (d', case err of None \<Rightarrow> c\<lparr>ctx_session := Some s'\<rparr>
                                  | Some e \<Rightarrow> c\<lparr>ctx_session := Some s', abort_error := Some e\<rparr>)))"

definition SessionHandlerFunc ::
    "('r, 'x) session_redis \<Rightarrow> session_store \<Rightarrow> ((string \<rightharpoonup> 'x sval) \<Rightarrow> string option) \<Rightarrow> (nat \<Rightarrow> time) \<Rightarrow> (nat \<Rightarrow> time) \<Rightarrow> string \<Rightarrow>
     bool \<Rightarrow> string \<Rightarrow> string option \<Rightarrow> string \<Rightarrow> ('r \<Rightarrow> 'x session_ctx \<Rightarrow> ('r \<times> 'x session_ctx) call) \<Rightarrow>
     'r \<Rightarrow> 'x session_ctx \<Rightarrow> ('r \<times> 'x session_ctx) call" where
  "SessionHandlerFunc rc store gob now later newId is_mutable name request_id proto nxt d c =
     and_then (session_begin rc store now newId is_mutable name request_id proto d c) (\<lambda>c.
       and_then (if abort_error c = None then nxt d c else Returns (d, c)) (\<lambda>(d, c). saveSession rc gob later d c))"

definition load_authentication :: "'x session_ctx \<Rightarrow> 'x session_ctx" where
  "load_authentication c =
     (case ctx_session c of
        None \<Rightarrow> c
      | Some s \<Rightarrow>
         (case session_get s sessionKeySecurity of
            SvAuth auth \<Rightarrow> c\<lparr>ctx_auth := Some auth\<rparr>
          | _ \<Rightarrow> c\<lparr>ctx_auth := None\<rparr>))"

definition persistAuthentication :: "'x session_ctx \<Rightarrow> 'x session_ctx" where
  "persistAuthentication c =
     (case ctx_session c of
        None \<Rightarrow> c
      | Some s \<Rightarrow> c\<lparr>ctx_session := Some (session_set s sessionKeySecurity (SvAuth (security_Get (ctx_auth c))))\<rparr>)"

definition AuthenticationPersistenceHandlerFunc ::
    "('r \<Rightarrow> 'x session_ctx \<Rightarrow> ('r \<times> 'x session_ctx) call) \<Rightarrow> 'r \<Rightarrow> 'x session_ctx \<Rightarrow> ('r \<times> 'x session_ctx) call" where
  "AuthenticationPersistenceHandlerFunc nxt d c =
     and_then (nxt d (load_authentication c)) (\<lambda>(d, c). Returns (d, persistAuthentication c))"

section \<open>Handlers\<close>

definition ChangeSessionHandler ::
    "('r, 'x) session_redis \<Rightarrow> time \<Rightarrow> time \<Rightarrow> string \<Rightarrow> string \<Rightarrow> authentication option \<Rightarrow> authentication option \<Rightarrow>
     'r \<Rightarrow> 'x session_ctx \<Rightarrow> ('r \<times> 'x session_ctx) call" where
  "ChangeSessionHandler rc t now newId proto frm to d c =
     (if \<not> IsBeingAuthenticated frm to then Returns (d, c)
      else (case ctx_session c of
              None \<Rightarrow> Returns (d, c)
            | Some s \<Rightarrow>
                if isNew s then Returns (d, c)
                else (case ChangeId rc d t newId s of
                        (d', s', None) \<Rightarrow>
                          Returns (d', c\<lparr>ctx_session := Some s', cookies := cookies c @
                            [NewCookie now (session_name s') (session_id s') (session_options_of s') proto]\<rparr>)
                      | (d', s', Some err) \<Rightarrow> Panics)))"

definition created_of :: "'x session \<Rightarrow> time" where
  "created_of s = (case createdOn s of Returns t \<Rightarrow> t | _ \<Rightarrow> 0)"

definition ConcurrentSessionHandler ::
    "('r, 'x) session_redis \<Rightarrow> session_store \<Rightarrow> int \<Rightarrow> time \<Rightarrow> authentication option \<Rightarrow> authentication option \<Rightarrow>
     'r \<Rightarrow> 'x session_ctx \<Rightarrow> 'r call" where
  "ConcurrentSessionHandler rc store maximum t frm to d c =
     (if \<not> IsBeingAuthenticated frm to then Returns d
      else (case ctx_session c of
              None \<Rightarrow> Returns d
            | Some s \<Rightarrow>
               (case GetUsername to of
                  Inl err \<Rightarrow> Panics
                | Inr p \<Rightarrow>
                   (case AddToPrincipalIndex rc d t p s of
                      (d1, Some err) \<Rightarrow> Panics
                    | (d1, None) \<Rightarrow>
                       and_then (FindByPrincipalName rc store d1 t p (session_name s)) (\<lambda>(d2, r).
                         case r of
                           Inl err \<Rightarrow> Panics
                         | Inr existing \<Rightarrow>
                             if int (length existing) \<le> maximum \<or> maximum \<le> 0 then Returns d2
                             else if list_ex (\<lambda>x. createdOn x = Panics) existing then Panics
                             else
                               let existing = SliceStable (\<lambda>x y. created_of x < created_of y) existing
                               in (case Invalidate rc d2 t (take (length existing - nat maximum) existing) of
                                     (d3, Some e) \<Rightarrow> Panics
                                   | (d3, None) \<Rightarrow> Returns d3))))))"

definition DeleteSessionOnLogoutHandler ::
    "('r, 'x) session_redis \<Rightarrow> time \<Rightarrow> authentication option \<Rightarrow> authentication option \<Rightarrow> 'r \<Rightarrow> 'x session_ctx \<Rightarrow>
     ('r \<times> 'x session_ctx) call" where
  "DeleteSessionOnLogoutHandler rc t frm to d c =
     (if \<not> IsBeingUnAuthenticated frm to then Returns (d, c)
      else (case ctx_session c of
              None \<Rightarrow> Returns (d, c\<lparr>ctx_session := None\<rparr>)
            | Some s \<Rightarrow>
               (case Invalidate rc d t [s] of
                  (d', None) \<Rightarrow> Returns (d', c\<lparr>ctx_session := None\<rparr>)
                | (d', Some e) \<Rightarrow> Panics)))"

section \<open>Effects on the database\<close>

lemma session_key_eq [simp]: "GetRedisSessionKey name x = GetRedisSessionKey name y \<longleftrightarrow> x = y"
  by (simp add: GetRedisSessionKey_def)

lemma live_simps [simp]:
  "live (do_del d k) t k' = (if k' = k then None else live d t k')"
  "live (do_srem d x ms) t k' = live d t k'" "live (do_sadd d x ms) t k' = live d t k'"
  by (simp_all add: live_def do_del_def do_srem_def do_sadd_def)

lemma live_rename:
  assumes "t \<le> t'" "k \<noteq> k'"
  shows "live (do_rename d t k k') t' k' = live d t' k" and "live (do_rename d t k k') t' k = None"
  using assms by (auto simp: live_def do_rename_def split: option.splits prod.splits)

lemma live_hash_cong: "live d t k = live d' t k' \<Longrightarrow> live_hash d t k = live_hash d' t k'"
  by (simp add: live_hash_def)

lemma load_gone:
  assumes "session_docs rc data" "reads_ok rc" "live (data d) t (GetRedisSessionKey name ident) = None"
  shows "load rc store d t now ident name = Returns (Inr None)"
  using load_spec [OF assms(1,2) refl, of d t name ident store now] assms(3) by (simp add: live_hash_def typed_def)

text \<open>All hashes have the types the store gives them.\<close>

definition typed_data :: "'x sdata \<Rightarrow> bool" where
  "typed_data d \<longleftrightarrow> (\<forall>k h e. hashes d k = Some (h, e) \<longrightarrow> typed (map_of h))"

lemma typed_empty [simp]: "typed Map.empty"
  by (simp add: typed_def)

lemma typed_live: "typed_data d \<Longrightarrow> typed (map_of (live_hash d t k))"
  by (auto simp: typed_data_def live_hash_def live_def split: option.splits)

lemma load_cong:
  assumes "session_docs rc data" "reads_ok rc" "typed_data (data d)"
    and "live (data d') t (GetRedisSessionKey name ident) = live (data d) t (GetRedisSessionKey name ident)"
  shows "load rc store d' t now ident name = load rc store d t now ident name"
proof -
  define h where "h = live_hash (data d) t (GetRedisSessionKey name ident)"
  have h': "h = live_hash (data d') t (GetRedisSessionKey name ident)"
    unfolding h_def using assms(4) by (intro live_hash_cong) simp
  have ty: "typed (map_of h)" using typed_live [OF assms(3)] by (simp add: h_def)
  show ?thesis using load_spec [OF assms(1,2) h' ty] load_spec [OF assms(1,2) h_def ty] by simp
qed

lemma Invalidate_Cons:
  assumes docs: "session_docs rc data" and inv: "Invalidate rc d t (s # ss) = (d', None)"
  obtains d2 where "Invalidate rc d2 t ss = (d', None)"
    "\<And>t' k. live (data d2) t' k = (if k = session_key s then None else live (data d) t' k)"
proof -
  from inv obtain d1 where del: "sDel rc d t (session_key s) = (d1, None)" by (auto split: prod.splits option.splits)
  have l1: "live (data d1) t' k = (if k = session_key s then None else live (data d) t' k)" for t' k
    using session_docsD(4) [OF docs del] by simp
  define d2 where "d2 = (case getPrincipalName s of
                      Inr pName \<Rightarrow> if pName \<noteq> [] then fst (RemoveFromPrincipalIndex rc d1 t pName s) else d1
                    | Inl e \<Rightarrow> d1)"
  have "live (data (fst (RemoveFromPrincipalIndex rc d1 t pName s))) t' k = live (data d1) t' k" for pName t' k
    using session_docsD(7) [OF docs, of d1 t "getRedisPrincipalIndexKey pName (session_name s)" "[session_id s]"]
    by (cases "sSRem rc d1 t (getRedisPrincipalIndexKey pName (session_name s)) [session_id s]")
      (auto simp: RemoveFromPrincipalIndex_def)
  then have "live (data d2) t' k = live (data d1) t' k" for t' k by (auto simp: d2_def split: sum.split)
  moreover have "Invalidate rc d2 t ss = (d', None)" using inv by (simp add: del d2_def Let_def)
  ultimately show thesis using l1 that by simp
qed

lemma Invalidate_live:
  assumes docs: "session_docs rc data" and "Invalidate rc d t ss = (d', None)"
  shows "live (data d') t' k = (if k \<in> session_key ` set ss then None else live (data d) t' k)"
  using assms(2)
proof (induction ss arbitrary: d)
  case (Cons s ss)
  from Invalidate_Cons [OF docs Cons.prems] obtain d2 where d2: "Invalidate rc d2 t ss = (d', None)"
    "\<And>t' k. live (data d2) t' k = (if k = session_key s then None else live (data d) t' k)" by blast
  from Cons.IH [OF d2(1)] d2(2) show ?case by simp
qed simp

section \<open>Finding the sessions of a user\<close>

lemma load_fields_keep:
  "load_fields fs s = Inr s' \<Longrightarrow> session_id s' = session_id s \<and> session_name s' = session_name s"
proof (induction fs s rule: load_fields.induct)
  case (2 k v fs s)
  from "2.prems" obtain s1 where s1: "load_field k v s = Inr s1" "load_fields fs s1 = Inr s'" by (auto split: sum.splits)
  have "session_id s1 = session_id s \<and> session_name s1 = session_name s"
    using s1(1) by (auto simp: load_field_def split: if_splits hval.splits)
  with "2.IH" [OF s1] show ?case by simp
qed simp

lemma load_Some:
  assumes "load rc store d t now ident name = Returns (Inr (Some s))"
  shows "session_id s = ident" "session_name s = name" "\<not> isNew s"
proof -
  from assms obtain fs s0 where s0: "load_fields fs ((NewSession store name)\<lparr>session_id := ident\<rparr>) = Inr s0"
      and x: "and_then (isExpired now (s0\<lparr>isNew := False\<rparr>)) (\<lambda>expired. Returns (Inr (if expired then None else Some (s0\<lparr>isNew := False\<rparr>)))) =
         Returns (Inr (Some s) :: string + _)"
    unfolding load_def Let_def by (auto split: sum.splits if_splits)
  have "s = s0\<lparr>isNew := False\<rparr>" using x by (cases "isExpired now (s0\<lparr>isNew := False\<rparr>)") (auto split: if_splits)
  with load_fields_keep [OF s0] show "session_id s = ident" "session_name s = name" "\<not> isNew s" by (simp_all add: NewSession_def)
qed

lemma scan_loop_scans: "scans rc d t key c ids \<Longrightarrow> scan_loop rc d t key c acc = Some (Inr (acc @ ids))"
proof (induction arbitrary: acc rule: scans.induct)
  case (scans_last c keys)
  then show ?case by (subst scan_loop.simps) simp
next
  case (scans_more c keys nxt ids)
  then show ?case by (subst scan_loop.simps) simp
qed

definition session_alive :: "('r, 'x) session_redis \<Rightarrow> session_store \<Rightarrow> 'r \<Rightarrow> time \<Rightarrow> string \<Rightarrow> string \<Rightarrow> bool" where
  "session_alive rc store d t name ident \<longleftrightarrow> (\<exists>s. load rc store d t t ident name = Returns (Inr (Some s)))"

lemma find_loop_found:
  "find_loop rc store d t name ids = Returns (Inr (found, expired)) \<Longrightarrow>
     map session_id found = filter (session_alive rc store d t name) ids
     \<and> (\<forall>s \<in> set found. load rc store d t t (session_id s) name = Returns (Inr (Some s)) \<and> session_name s = name)"
proof (induction ids arbitrary: found expired)
  case (Cons ident ids)
  from Cons.prems obtain r found' expired' where r: "load rc store d t t ident name = Returns (Inr r)"
      and rest: "find_loop rc store d t name ids = Returns (Inr (found', expired'))"
      and f: "found = (case r of None \<Rightarrow> found' | Some s \<Rightarrow> s # found')"
    by (cases "load rc store d t t ident name"; cases "find_loop rc store d t name ids")
      (auto split: sum.splits option.splits)
  from Cons.IH [OF rest] r f load_Some show ?case
    by (cases r) (auto simp: session_alive_def dest: load_Some)
qed simp

section \<open>Concurrent sessions\<close>

interpretation by_creation: strict_weak_order "\<lambda>x y :: 'x session. created_of x < created_of y"
  by unfold_locales auto

lemma oldest_first:
  assumes "aged = SliceStable (\<lambda>x y. created_of x < created_of y) ss" "x \<in> set (take n aged)" "y \<in> set (drop n aged)"
  shows "created_of x \<le> created_of y"
proof -
  have "sorted_wrt (\<lambda>a b. \<not> created_of b < created_of a) (take n aged @ drop n aged)"
    using by_creation.SliceStable_sorted [of ss] by (simp add: assms(1))
  then show ?thesis using assms(2,3) unfolding sorted_wrt_append by fastforce
qed

lemma kept_newest:
  assumes "distinct (map session_id ss)" "m \<le> length ss" "aged = SliceStable (\<lambda>x y. created_of x < created_of y) ss"
  shows "card (session_id ` set (drop (length aged - m) aged)) = m"
    and "session_id ` set ss - session_id ` set (take (length aged - m) aged) = session_id ` set (drop (length aged - m) aged)"
proof -
  define n where "n = length aged - m"
  have "mset (map session_id aged) = mset (map session_id ss)" by (simp add: assms(3))
  then have d: "distinct (map session_id aged)" using assms(1) by (metis mset_eq_imp_distinct_iff)
  have "map session_id aged = map session_id (take n aged) @ map session_id (drop n aged)" by (simp flip: map_append)
  with d have dis: "distinct (map session_id (drop n aged))"
      "session_id ` set (take n aged) \<inter> session_id ` set (drop n aged) = {}"
    by (metis distinct_append, metis distinct_append list.set_map)
  have "card (session_id ` set (drop n aged)) = length (drop n aged)"
    using distinct_card [OF dis(1)] by simp
  moreover have "length aged = length ss" by (simp add: assms(3))
  ultimately show "card (session_id ` set (drop (length aged - m) aged)) = m" using assms(2) by (simp add: n_def)
  have "set ss = set (take n aged) \<union> set (drop n aged)"
    using assms(3) by (metis append_take_drop_id set_SliceStable set_append)
  with dis(2) show "session_id ` set ss - session_id ` set (take (length aged - m) aged) =
      session_id ` set (drop (length aged - m) aged)"
    by (auto simp: n_def)
qed

definition scan_ok :: "('r, 'x) session_redis \<Rightarrow> bool" where
  "scan_ok rc \<longleftrightarrow> (\<forall>d t k. \<exists>ids. scans rc d t k 0 ids \<and> distinct ids)"

lemma alive_cong:
  assumes "session_docs rc data" "reads_ok rc" "typed_data (data d)" "\<And>k. live (data d') t k = live (data d) t k"
  shows "session_alive rc store d' t name x = session_alive rc store d t name x"
  using load_cong [OF assms(1-3), of d' t name x store t] assms(4) by (simp add: session_alive_def)

lemma find_spec:
  assumes docs: "session_docs rc data" "scan_ok rc"
    and find: "FindByPrincipalName rc store d t p name = Returns (d2, Inr existing)"
  shows "\<And>t' k. live (data d2) t' k = live (data d) t' k"
    and "distinct (map session_id existing)"
    and "session_id ` set existing = {x \<in> set (index_sets (data d) (getRedisPrincipalIndexKey p name)). session_alive rc store d t name x}"
    and "\<forall>s \<in> set existing. load rc store d t t (session_id s) name = Returns (Inr (Some s)) \<and> session_name s = name"
proof -
  let ?k = "getRedisPrincipalIndexKey p name"
  from docs(2) obtain ids where ids: "scans rc d t ?k 0 ids" "distinct ids" unfolding scan_ok_def by blast
  have members: "set ids = set (index_sets (data d) ?k)" using session_docsD(8) [OF docs(1) ids(1)] .
  have scan: "scan_loop rc d t ?k 0 [] = Some (Inr ids)" using scan_loop_scans [OF ids(1), of "[]"] by simp
  from find obtain expired where l: "find_loop rc store d t name ids = Returns (Inr (existing, expired))"
      and d2: "d2 = (if expired \<noteq> [] then fst (sSRem rc d t ?k expired) else d)"
    by (cases "find_loop rc store d t name ids") (auto simp: FindByPrincipalName_def scan split: sum.splits)
  note found = find_loop_found [OF l]
  show "distinct (map session_id existing)" using found ids(2) by simp
  show "session_id ` set existing = {x \<in> set (index_sets (data d) ?k). session_alive rc store d t name x}"
    using found members by (metis list.set_map set_filter)
  show "\<forall>s \<in> set existing. load rc store d t t (session_id s) name = Returns (Inr (Some s)) \<and> session_name s = name" using found by blast
  show "live (data d2) t' k = live (data d) t' k" for t' k
    using session_docsD(7) [OF docs(1), of d t ?k expired] by (cases "sSRem rc d t ?k expired") (auto simp: d2)
qed


section \<open>Session ids\<close>

text \<open>C13: A login gives a session that was saved before another id: the old id finds no session any more, the new
  id finds what the old one found, and the new id is sent to the client. A failure to rename the session ends
  the login with a panic.\<close>

theorem session_id_changes_at_login:
  assumes docs: "session_docs rc data" "reads_ok rc" and ty: "typed_data (data d)"
    and auth: "IsBeingAuthenticated frm to" "ctx_session c = Some s" "\<not> isNew s" "newId \<noteq> session_id s"
    and run: "ChangeSessionHandler rc t now newId proto frm to d c = r" and "t \<le> t'"
  shows "r = Panics \<or> (\<exists>d' c'. r = Returns (d', c')
    \<and> ctx_session c' = Some (s\<lparr>session_id := newId\<rparr>)
    \<and> (\<exists>ck. cookies c' = cookies c @ [ck] \<and> cookie_name ck = session_name s \<and> cookie_value ck = newId)
    \<and> load rc store d' t' now' (session_id s) (session_name s) = Returns (Inr None)
    \<and> map_call (map_sum id (map_option (\<lambda>x. x\<lparr>session_id := session_id s\<rparr>))) (load rc store d' t' now' newId (session_name s)) =
        load rc store d t' now' (session_id s) (session_name s))"
proof (cases "ChangeId rc d t newId s")
  case (fields d' s' err)
  show ?thesis
  proof (cases err)
    case (Some e)
    with run auth fields show ?thesis by (simp add: ChangeSessionHandler_def)
  next
    case None
    let ?name = "session_name s"
    from fields None have ren: "sRename rc d t (session_key s) (GetRedisSessionKey ?name newId) = (d', None)"
      and s': "s' = s\<lparr>session_id := newId\<rparr>"
      by (auto simp: ChangeId_def split: prod.splits option.splits)
    have data': "data d' = do_rename (data d) t (session_key s) (GetRedisSessionKey ?name newId)"
      using session_docsD(5) [OF docs(1) ren] by simp
    have ne: "session_key s \<noteq> GetRedisSessionKey ?name newId" using auth(4) by simp
    note live' = live_rename [OF \<open>t \<le> t'\<close> ne, of "data d", folded data']
    have gone: "load rc store d' t' now' (session_id s) ?name = Returns (Inr None)"
      using live'(2) by (intro load_gone [OF docs]) simp
    define h where "h = live_hash (data d) t' (session_key s)"
    have h': "h = live_hash (data d') t' (GetRedisSessionKey ?name newId)" unfolding h_def using live'(1) by (intro live_hash_cong) simp
    have tyh: "typed (map_of h)" using typed_live [OF ty] by (simp add: h_def)
    define x where "x = stored_session store (map_of h) newId ?name"
    have x: "stored_session store (map_of h) (session_id s) ?name = x\<lparr>session_id := session_id s\<rparr>"
      by (simp add: x_def stored_session_def filled_def NewSession_def split: option.split hval.split)
    have "isExpired now' (x\<lparr>session_id := session_id s\<rparr>) = isExpired now' x"
      by (cases x) (simp add: isExpired_def expiration_def createdOn_def Let_def)
    then have "map_call (map_sum id (map_option (\<lambda>x. x\<lparr>session_id := session_id s\<rparr>))) (load rc store d' t' now' newId ?name) =
        load rc store d t' now' (session_id s) ?name"
      using load_spec [OF docs h' tyh, of store now'] load_spec [OF docs h_def tyh, of store now'] x
      by (cases "isExpired now' x") (simp_all flip: x_def)
    moreover have "r = Returns (d', c\<lparr>ctx_session := Some s', cookies := cookies c @
        [NewCookie now (session_name s') (session_id s') (session_options_of s') proto]\<rparr>)"
      using run auth fields None by (simp add: ChangeSessionHandler_def)
    moreover have "cookie_name (NewCookie now nm v opts proto) = nm" "cookie_value (NewCookie now nm v opts proto) = v" for nm v opts
      by (simp_all add: NewCookie_def newCookieFromOptions_def Let_def)
    ultimately show ?thesis using gone s' by auto
  qed
qed

section \<open>Logout\<close>

text \<open>Logging out removes the session: its id finds no session afterwards, and since the context has no session any
  more the end of the request does not save it again.\<close>

lemma logout_removes_session:
  assumes docs: "session_docs rc data" "reads_ok rc"
    and auth: "IsBeingUnAuthenticated frm to" "ctx_session c = Some s"
    and run: "DeleteSessionOnLogoutHandler rc t frm to d c = Returns (d', c')"
  shows "load rc store d' t' now (session_id s) (session_name s) = Returns (Inr None)
    \<and> saveSession rc gob later d' (persistAuthentication c') = Returns (d', c')"
proof -
  from run auth have inv: "Invalidate rc d t [s] = (d', None)" and c': "c' = c\<lparr>ctx_session := None\<rparr>"
    by (auto simp: DeleteSessionOnLogoutHandler_def split: prod.splits option.splits)
  have "live (data d') t' (session_key s) = None" using Invalidate_live [OF docs(1) inv] by simp
  with load_gone [OF docs] c' show ?thesis by (simp add: saveSession_def persistAuthentication_def)
qed

text \<open>The timeouts, where there are any, end not before \<open>e\<close>.\<close>

definition later_than :: "session_options \<Rightarrow> time \<Rightarrow> time \<Rightarrow> time \<Rightarrow> bool" where
  "later_than opts accessed created e \<longleftrightarrow>
     (opt_IdleTimeout opts > 0 \<longrightarrow> e \<le> accessed + opt_IdleTimeout opts)
     \<and> (opt_AbsoluteTimeout opts > 0 \<longrightarrow> e \<le> created + opt_AbsoluteTimeout opts)"

lemma later_alive:
  assumes "later_than opts t0 created (t0 + second)"
  shows "case expires_at opts t0 created of None \<Rightarrow> True | Some e \<Rightarrow> t0 < whole_seconds e"
proof -
  have "t0 < whole_seconds e" if "t0 + second \<le> e" for e using that whole_seconds_bounds(2) [of e] by simp
  with assms show ?thesis by (auto simp: later_than_def expires_at_def min_def)
qed

lemma later_unexpired:
  assumes "later_than opts t0 created (t0 + second)"
  shows "case expires_at opts (whole_seconds t0) created of None \<Rightarrow> True | Some e \<Rightarrow> t0 \<le> e"
  using assms whole_seconds_bounds(2) [of t0] second_def by (auto simp: later_than_def expires_at_def)

text \<open>C16: A request that is being served brings a session back that another request has removed, by a logout or by the
  limit of concurrent sessions: at its end it saves the session with its authentication, without the
  options and timeouts of the session, and the id finds it again.\<close>

theorem removed_session_returns:
  assumes docs: "session_docs rc data" "reads_ok rc"
    and s: "ctx_session c = Some s" "\<not> isNew s" "proper_values s created" "session_id s \<noteq> []"
    and inv: "Invalidate rc d t [s] = (d1, None)"
    and save: "saveSession rc gob (\<lambda>_. t0) d1 (persistAuthentication c) = Returns (d2, c2)" "abort_error c2 = None" "abort_error c = None"
    and young: "later_than (session_options_of s) t0 created (t0 + second)" "later_than (store_options store) t0 created (t0 + second)"
  shows "\<exists>x. load rc store d2 t0 t0 (session_id s) (session_name s) = Returns (Inr (Some x))
    \<and> session_get x sessionKeySecurity = SvAuth (security_Get (ctx_auth c))
    \<and> session_options_of x = store_options store"
proof -
  define s2 where "s2 = session_set s sessionKeySecurity (SvAuth (security_Get (ctx_auth c)))"
  have s2: "session_key s2 = session_key s" "dirty s2" "\<not> isNew s2" "session_options_of s2 = session_options_of s"
      "session_id s2 = session_id s" "session_name s2 = session_name s"
    using s(2) by (simp_all add: s2_def session_set_def SetDirty_def)
  have pv: "proper_values s2 created" using s(3)
    by (simp add: s2_def session_set_def SetDirty_def proper_values_def sessionKeySecurity_def createdTimeKey_def)
  from save s(1) obtain s' where "store_Save rc gob d1 t0 t0 t0 s2 = Returns (d2, s', None)"
    by (cases "store_Save rc gob d1 t0 t0 t0 s2")
      (auto simp: saveSession_def persistAuthentication_def simp flip: s2_def split: prod.splits option.splits)
  from save_effect [OF docs(1) pv this] obtain args where args: "save_args gob (s2\<lparr>lastAccessed := t0\<rparr>) = Returns (Inr args)"
    and d2: "data d2 = (case expires_at (session_options_of s) t0 created of
        None \<Rightarrow> do_hset (data d1) t0 (session_key s) args
      | Some e \<Rightarrow> do_expire (do_hset (data d1) t0 (session_key s) args) t0 (session_key s) e)" unfolding s2 by blast
  define h where "h = foldl (\<lambda>h (f, v). AList.update f v h) [] args"
  have gone: "live (data d1) t0 (session_key s) = None" using Invalidate_live [OF docs(1) inv] by simp
  have "hashes (do_hset (data d1) t0 (session_key s) args) (session_key s) = Some (h, None)"
    using gone by (simp add: do_hset_def live_hash_def h_def)
  moreover from later_alive [OF young(1)] have "case expires_at (session_options_of s) t0 created of None \<Rightarrow> True | Some e \<Rightarrow> t0 < whole_seconds e" .
  ultimately have live: "h = live_hash (data d2) t0 (session_key s)"
    by (auto simp: d2 do_expire_def live_hash_def live_def split: option.splits)
  have "proper_values (s2\<lparr>lastAccessed := t0\<rparr>) created" using pv by (simp add: proper_values_def)
  note eqs = save_args_eq [OF this args, of Map.empty]
  have mh: "map_of h = foldl (\<lambda>m (f, v). m(f \<mapsto> v)) Map.empty args" by (simp add: h_def map_of_hset)
  have fields: "typed (map_of h)" "map_of h SessionLastAccessedField = Some (HSecs (Time_Unix t0))"
      "map_of h sessionOptionField = None" "map_of h sessionValueField = Some (HValues (session_values s2))"
    using eqs s2 by (simp_all add: mh)
  then have ne: "h \<noteq> []" by auto
  define x where "x = stored_session store (map_of h) (session_id s) (session_name s)"
  have x: "session_values x = session_values s2" "session_options_of x = store_options store" "lastAccessed x = whole_seconds t0"
      "proper_values x created"
    using fields pv by (simp_all add: x_def stored_session_def filled_def NewSession_def whole_seconds_def proper_values_def)
  have "isExpired t0 x = Returns False"
    using isExpired_eq [OF x(4), of t0] later_unexpired [OF young(2)] x(2,3) by (simp split: option.splits)
  then have "load rc store d2 t0 t0 (session_id s) (session_name s) = Returns (Inr (Some x))"
    using load_spec [OF docs live fields(1), of store t0] ne by (simp flip: x_def)
  moreover have "session_get x sessionKeySecurity = SvAuth (security_Get (ctx_auth c))"
    by (simp add: session_get_def x s2_def session_set_def SetDirty_def)
  ultimately show ?thesis using x(2) by blast
qed

section \<open>Types of the stored fields\<close>

lemma docs_does:
  assumes "session_docs rc data"
  shows "does data (sHSet rc d t k args) (data d) (do_hset (data d) t k args)"
    "does data (sExpireAt rc d t k e) (data d) (do_expire (data d) t k e)"
    "does data (sDel rc d t k) (data d) (do_del (data d) k)"
    "does data (sRename rc d t k k') (data d) (do_rename (data d) t k k')"
    "does data (sSAdd rc d t k ms) (data d) (do_sadd (data d) k ms)"
    "does data (sSRem rc d t k ms) (data d) (do_srem (data d) k ms)"
  using assms by (simp_all add: session_docs_def)

lemma docs_any:
  assumes "session_docs rc data"
  shows "sHSet rc d t k args = (d', err) \<Longrightarrow> data d' = do_hset (data d) t k args \<or> data d' = data d"
    and "sExpireAt rc d t k e = (d', err) \<Longrightarrow> data d' = do_expire (data d) t k e \<or> data d' = data d"
    and "sDel rc d t k = (d', err) \<Longrightarrow> data d' = do_del (data d) k \<or> data d' = data d"
    and "sRename rc d t k k' = (d', err) \<Longrightarrow> data d' = do_rename (data d) t k k' \<or> data d' = data d"
    and "sSAdd rc d t k ms = (d', err) \<Longrightarrow> data d' = do_sadd (data d) k ms \<or> data d' = data d"
    and "sSRem rc d t k ms = (d', err) \<Longrightarrow> data d' = do_srem (data d) k ms \<or> data d' = data d"
  subgoal using docs_does(1) [OF assms, of d t k args] by (auto simp: does_def)
  subgoal using docs_does(2) [OF assms, of d t k e] by (auto simp: does_def)
  subgoal using docs_does(3) [OF assms, of d t k] by (auto simp: does_def)
  subgoal using docs_does(4) [OF assms, of d t k k'] by (auto simp: does_def)
  subgoal using docs_does(5) [OF assms, of d t k ms] by (auto simp: does_def)
  subgoal using docs_does(6) [OF assms, of d t k ms] by (auto simp: does_def)
  done

lemma typed_data_simps:
  assumes "typed_data d"
  shows "typed_data (do_expire d t k e)" "typed_data (do_del d k)" "typed_data (do_rename d t k k')"
    "typed_data (do_sadd d k ms)" "typed_data (do_srem d k ms)"
  using assms
  by (auto simp: typed_data_def do_expire_def do_del_def do_rename_def do_sadd_def do_srem_def live_def split: option.splits if_splits)

lemma typed_put: "typed m \<Longrightarrow> \<forall>(f, v) \<in> set args. typed [f \<mapsto> v] \<Longrightarrow> typed (foldl (\<lambda>m (f, v). m(f \<mapsto> v)) m args)"
proof (induction args arbitrary: m)
  case (Cons a args)
  obtain f v where a: "a = (f, v)" by (cases a)
  have "typed (m(f \<mapsto> v))" using Cons.prems by (auto simp: a typed_def split: if_splits)
  from Cons.IH [OF this] Cons.prems(2) show ?case by (simp add: a)
qed simp

lemma typed_data_hset:
  assumes "typed_data d" "\<forall>(f, v) \<in> set args. typed [f \<mapsto> v]"
  shows "typed_data (do_hset d t k args)"
  using assms(1) typed_put [OF typed_live [OF assms(1)] assms(2), of t k]
  by (auto simp: typed_data_def do_hset_def map_of_hset)

lemma save_args_typed:
  assumes "save_args gob s = Returns (Inr args)"
  shows "\<forall>(f, v) \<in> set args. typed [f \<mapsto> v]"
  by (cases "createdOn s") (use assms in \<open>auto simp: save_args_def Let_def typed_def split: if_splits\<close>)

lemma Invalidate_typed:
  assumes docs: "session_docs rc data"
  shows "typed_data (data d) \<Longrightarrow> Invalidate rc d t ss = (d', err) \<Longrightarrow> typed_data (data d')"
proof (induction ss arbitrary: d)
  case (Cons s ss)
  obtain d1 e1 where del: "sDel rc d t (session_key s) = (d1, e1)" by (cases "sDel rc d t (session_key s)")
  have ty1: "typed_data (data d1)" using docs_any(3) [OF docs del] Cons.prems(1) typed_data_simps by metis
  have rem: "typed_data (data (fst (RemoveFromPrincipalIndex rc d1 t p s)))" for p
    using docs_any(6) [OF docs, of d1 t "getRedisPrincipalIndexKey p (session_name s)" "[session_id s]"] ty1 typed_data_simps(5)
    by (cases "sSRem rc d1 t (getRedisPrincipalIndexKey p (session_name s)) [session_id s]")
      (fastforce simp: RemoveFromPrincipalIndex_def)
  define d2 where "d2 = (case getPrincipalName s of
                      Inr pName \<Rightarrow> if pName \<noteq> [] then fst (RemoveFromPrincipalIndex rc d1 t pName s) else d1
                    | Inl e \<Rightarrow> d1)"
  have "typed_data (data d2)" using rem ty1 by (simp add: d2_def split: sum.split)
  from Cons.IH [OF this] Cons.prems(2) ty1 show ?case
    by (cases e1) (auto simp: del Let_def simp flip: d2_def)
qed simp

lemma Save_typed:
  assumes docs: "session_docs rc data" and ty: "typed_data (data d)"
    and save: "store_Save rc gob d now t1 t2 s = Returns (d', s', err)"
  shows "typed_data (data d')"
proof (cases "session_id s = []")
  case True
  with save ty show ?thesis by (simp add: store_Save_def)
next
  case False
  define s0 where "s0 = s\<lparr>lastAccessed := now\<rparr>"
  from save False have "save_session rc gob d t1 t2 s0 = Returns (d', err)"
    by (cases "save_session rc gob d t1 t2 s0") (auto simp: store_Save_def simp flip: s0_def)
  then consider "d' = d" | args d1 e1 where "save_args gob s0 = Returns (Inr args)" "sHSet rc d t1 (session_key s0) args = (d1, e1)"
      "d' = d1 \<or> (\<exists>e. sExpireAt rc d1 t2 (session_key s0) e = (d', err))"
    by (cases "save_args gob s0"; cases "expiration s0") (auto simp: save_session_def split: sum.splits prod.splits option.splits if_splits)
  then show ?thesis
  proof cases
    case 1
    with ty show ?thesis by simp
  next
    case 2
    have "typed_data (data d1)"
      using docs_any(1) [OF docs 2(2)] typed_data_hset [OF ty save_args_typed [OF 2(1)]] ty by metis
    with 2(3) docs_any(2) [OF docs, of d1 t2 "session_key s0" _ d' err] typed_data_simps(1) show ?thesis by metis
  qed
qed


section \<open>A store with two sessions\<close>

abbreviation joe :: authentication where
  "joe \<equiv> \<lparr>Principal = StringPrincipal ''joe'', Permissions = Map.empty, State = StateAuthenticated, Details = NilDetails\<rparr>"

definition forever_store :: session_store where
  "forever_store = \<lparr>store_options = \<lparr>opt_Path = ''/'', opt_Domain = [], opt_MaxAge = 0, opt_Secure = False, opt_HttpOnly = True,
     opt_SameSite = SameSiteNoneMode, opt_IdleTimeout = 0, opt_AbsoluteTimeout = 0\<rparr>, settingReader = None\<rparr>"

definition stored :: "string \<Rightarrow> time \<Rightarrow> nat session" where
  "stored ident created =
     \<lparr>dirty = False, lastAccessed = 0, session_id = ident, session_values = [createdTimeKey \<mapsto> SvTime created],
      session_options_of = store_options forever_store, isNew = False, session_name = DefaultName\<rparr>"

definition two_sessions :: "nat sdata" where
  "two_sessions =
     \<lparr>hashes = (\<lambda>k. if k = GetRedisSessionKey DefaultName ''1'' then Some ([(sessionValueField, HValues [createdTimeKey \<mapsto> SvTime 1])], None)
                    else if k = GetRedisSessionKey DefaultName ''2'' then Some ([(sessionValueField, HValues [createdTimeKey \<mapsto> SvTime 2])], None)
                    else None),
      index_sets = \<lambda>_. [''1'', ''2'']\<rparr>"

definition joe_ctx :: "nat session \<Rightarrow> nat session_ctx" where
  "joe_ctx s = \<lparr>ctx_session = Some s, ctx_auth = Some joe, cookies = [], abort_error = None\<rparr>"

lemma two_typed: "typed_data two_sessions"
  by (auto simp: typed_data_def two_sessions_def typed_def split: if_splits)

lemma load_two:
  assumes "hashes d (GetRedisSessionKey DefaultName ident) = Some ([(sessionValueField, HValues [createdTimeKey \<mapsto> SvTime c])], None)"
  shows "load mem_client forever_store d t now ident DefaultName = Returns (Inr (Some (stored ident c)))"
  using assms
  by (simp add: load_def mem_client_def live_hash_def live_def load_field_def isExpired_def expiration_def
      NewSession_def forever_store_def CalculateExpiration_def stored_def)

lemma mem_Invalidate: "\<exists>d'. Invalidate mem_client d t ss = (d', None)"
  by (induction ss arbitrary: d) (auto simp: mem_client_def Let_def)

lemma mem_scan_ok: "scan_ok mem_client"
  by (simp add: scan_ok_def mem_scans)

lemma being_joe: "IsBeingAuthenticated None (Some joe)" "IsBeingUnAuthenticated (Some joe) None" "GetUsername (Some joe) = Inr ''joe''"
  by (simp_all add: IsBeingAuthenticated_def IsBeingUnAuthenticated_def GetUsername_def less_auth_state_def)


lemma stored_simps [simp]:
  "session_id (stored i x) = i" "session_name (stored i x) = DefaultName" "\<not> isNew (stored i x)" "proper_values (stored i x) x"
  "session_options_of (stored i x) = store_options forever_store"
  by (simp_all add: stored_def proper_values_def)

theorem session_id_changes_at_login_witness:
  "\<exists>d' c'. ChangeSessionHandler mem_client 0 0 ''3'' [] None (Some joe) two_sessions (joe_ctx (stored ''2'' 2)) = Returns (d', c')
     \<and> load mem_client forever_store d' 0 0 ''2'' DefaultName = Returns (Inr None)"
proof -
  have "ChangeSessionHandler mem_client 0 0 ''3'' [] None (Some joe) two_sessions (joe_ctx (stored ''2'' 2)) \<noteq> Panics"
    by (simp add: ChangeSessionHandler_def being_joe joe_ctx_def ChangeId_def mem_client_def live_def two_sessions_def)
  then show ?thesis
    using session_id_changes_at_login [where data = "\<lambda>d. d" and t = 0 and t' = 0 and now = 0 and now' = 0 and store = forever_store and proto = "[]",
        OF mem_client_docs mem_client_reads two_typed being_joe(1) _ _ _ refl, of "joe_ctx (stored ''2'' 2)" "stored ''2'' 2" "''3''"]
    by (auto simp: joe_ctx_def)
qed

theorem removed_session_returns_witness:
  "\<exists>d1 d2 c2 x. Invalidate mem_client two_sessions 0 [stored ''2'' 2] = (d1, None)
     \<and> load mem_client forever_store d1 0 0 ''2'' DefaultName = Returns (Inr None)
     \<and> saveSession mem_client (\<lambda>_. None) (\<lambda>_. 0) d1 (persistAuthentication (joe_ctx (stored ''2'' 2))) = Returns (d2, c2)
     \<and> load mem_client forever_store d2 0 0 ''2'' DefaultName = Returns (Inr (Some x))
     \<and> session_get x sessionKeySecurity = SvAuth joe"
proof -
  let ?c = "joe_ctx (stored ''2'' 2)" and ?s2 = "session_set (stored ''2'' 2) sessionKeySecurity (SvAuth joe)"
  obtain d1 where inv: "Invalidate mem_client two_sessions 0 [stored ''2'' 2] = (d1, None)" using mem_Invalidate by blast
  have gone: "load mem_client forever_store d1 0 0 ''2'' DefaultName = Returns (Inr None)"
    using Invalidate_live [where data = "\<lambda>d. d", OF mem_client_docs inv]
    by (intro load_gone [where data = "\<lambda>d. d", OF mem_client_docs mem_client_reads]) simp
  have "proper_values ?s2 2" "session_id ?s2 \<noteq> []"
    by (simp_all add: session_set_def SetDirty_def proper_values_def stored_def sessionKeySecurity_def createdTimeKey_def)
  from mem_saves [OF this, of d1 0] obtain d2 c2
    where save: "saveSession mem_client (\<lambda>_. None) (\<lambda>_. 0) d1 (persistAuthentication ?c) = Returns (d2, c2)" and e: "abort_error c2 = None"
    by (auto simp: saveSession_def persistAuthentication_def joe_ctx_def security_Get_def)
  have l: "later_than (store_options forever_store) 0 2 (0 + second)" by (simp add: later_than_def forever_store_def)
  have "\<exists>x. load mem_client forever_store d2 0 0 ''2'' DefaultName = Returns (Inr (Some x)) \<and> session_get x sessionKeySecurity = SvAuth joe"
    using removed_session_returns [where data = "\<lambda>d. d", OF mem_client_docs mem_client_reads _ _ _ _ inv save e, of 2 forever_store] l
    by (simp add: joe_ctx_def security_Get_def) blast
  with inv gone save show ?thesis by blast
qed


end
