(* ===== verification/Account.thy ===== *)
theory Account
  imports Security_Context
begin

text \<open>
  Accounts, \<^verbatim>\<open>pkg/security/account.go\<close> and \<^verbatim>\<open>account_default.go\<close>. An account is the record of the
  fields of \<^verbatim>\<open>AcctDetails\<close>; the two flags \<open>is_history\<close> and \<open>is_updater\<close> tell whether the dynamic type
  of the account implements \<^verbatim>\<open>AccountHistory\<close> and \<^verbatim>\<open>AccountUpdater\<close> (\<^verbatim>\<open>DefaultAccount\<close> implements both).
  The locking rule and the password policy of an account come from the account store and are records
  of their own. Times count from Go's zero time, so the zero time is 0. A panic is \<open>None\<close>.
\<close>

section \<open>Account types\<close>

datatype account_type = AccountTypeUnknown | AccountTypeDefault | AccountTypeApp | AccountTypeFederated
  | AccountTypeSystem

fun AccountType_String :: "account_type \<Rightarrow> string" where
  "AccountType_String AccountTypeDefault = ''user''"
| "AccountType_String AccountTypeApp = ''app''"
| "AccountType_String AccountTypeFederated = ''fed''"
| "AccountType_String AccountTypeSystem = ''system''"
| "AccountType_String AccountTypeUnknown = []"

datatype type_value = TypeValue account_type | TypeString string | TypeOther nat

text \<open>
  \<^verbatim>\<open>ParseAccountType\<close> switches over the flag \<^verbatim>\<open>ok\<close> of the conversion to a string: a case is taken when its
  comparison equals that flag. A failed conversion leaves the empty string.
\<close>

definition switch_type :: "bool \<Rightarrow> string \<Rightarrow> account_type" where
  "switch_type ok v =
     (if (''user'' = strings_ToLower v) = ok then AccountTypeDefault
      else if (''app'' = strings_ToLower v) = ok then AccountTypeApp
      else if (''fed'' = strings_ToLower v) = ok then AccountTypeFederated
      else if (''system'' = strings_ToLower v) = ok then AccountTypeSystem
      else AccountTypeUnknown)"

fun ParseAccountType :: "type_value \<Rightarrow> account_type" where
  "ParseAccountType (TypeValue t) = t"
| "ParseAccountType (TypeString s) = switch_type True s"
| "ParseAccountType (TypeOther n) = switch_type False []"

section \<open>Accounts and their rules\<close>

datatype credential = NilCredentials | StringCredentials string | OtherCredentials nat

record account =
  acct_id :: string
  acct_type :: account_type
  acct_username :: string
  acct_credentials :: credential
  acct_permissions :: "string list"
  acct_disabled :: bool
  acct_locked :: bool
  acct_useMFA :: bool
  DefaultDesignatedTenantId :: string
  DesignatedTenantIds :: "string list"
  acct_tenantId :: string
  LastLoginTime :: time
  LoginFailures :: "time list"
  SerialFailedAttempts :: int
  LockoutTime :: time
  PwdChangedTime :: time
  GracefulAuthCount :: int
  PolicyName :: string
  is_history :: bool
  is_updater :: bool

record locking_rule =
  LockoutEnabled :: bool
  LockoutDuration :: duration
  LockoutFailuresLimit :: int
  LockoutFailuresInterval :: duration

record pwd_aging_rule =
  PwdAgingRuleEnforced :: bool
  PwdMaxAge :: duration
  PwdExpiryWarningPeriod :: duration
  GracefulAuthLimit :: int

definition Time_IsZero :: "time \<Rightarrow> bool" where
  "Time_IsZero t = (t = 0)"

section \<open>Updates\<close>

definition IncrementGracefulAuthCount :: "account \<Rightarrow> account" where
  "IncrementGracefulAuthCount a = a\<lparr>GracefulAuthCount := GracefulAuthCount a + 1\<rparr>"

definition ResetGracefulAuthCount :: "account \<Rightarrow> account" where
  "ResetGracefulAuthCount a = a\<lparr>GracefulAuthCount := 0\<rparr>"

definition LockAccount :: "time \<Rightarrow> account \<Rightarrow> account" where
  "LockAccount now a =
     (let a = (if \<not> acct_locked a then a\<lparr>LockoutTime := now\<rparr> else a)
      in a\<lparr>acct_locked := True\<rparr>)"

definition UnlockAccount :: "account \<Rightarrow> account" where
  "UnlockAccount a = a\<lparr>acct_locked := False\<rparr>"

text \<open>The slice expression of \<^verbatim>\<open>RecordFailure\<close> panics when its lower bound exceeds the length.\<close>

definition RecordFailure :: "time \<Rightarrow> int \<Rightarrow> account \<Rightarrow> account option" where
  "RecordFailure failureTime limit a =
     (let failures = LoginFailures a @ [failureTime];
          len = int (length failures)
      in if len > limit \<and> len - limit > len then None
         else let failures = (if len > limit then drop (nat (len - limit)) failures else failures)
              in Some (a\<lparr>LoginFailures := failures, SerialFailedAttempts := int (length failures)\<rparr>))"

definition RecordSuccess :: "time \<Rightarrow> account \<Rightarrow> account" where
  "RecordSuccess loginTime a = a\<lparr>LastLoginTime := loginTime\<rparr>"

definition ResetFailedAttempts :: "account \<Rightarrow> account" where
  "ResetFailedAttempts a = a\<lparr>SerialFailedAttempts := 0, LoginFailures := []\<rparr>"

definition CacheableCopy :: "account \<Rightarrow> account" where
  "CacheableCopy a = a\<lparr>acct_credentials := NilCredentials\<rparr>"

lemmas account_updates [passwd_simps] =
  IncrementGracefulAuthCount_def ResetGracefulAuthCount_def LockAccount_def UnlockAccount_def
  RecordSuccess_def ResetFailedAttempts_def CacheableCopy_def

section \<open>Failure records\<close>

lemma RecordFailure_Some:
  assumes "0 \<le> limit"
  shows "RecordFailure t limit a =
    Some (let failures = drop (Suc (length (LoginFailures a)) - nat limit) (LoginFailures a @ [t])
          in a\<lparr>LoginFailures := failures, SerialFailedAttempts := int (length failures)\<rparr>)"
proof -
  have "nat (int (Suc (length (LoginFailures a))) - limit) = Suc (length (LoginFailures a)) - nat limit"
    using assms by linarith
  with assms show ?thesis by (auto simp: RecordFailure_def Let_def)
qed

fun record_failures :: "time list \<Rightarrow> int \<Rightarrow> account \<Rightarrow> account option" where
  "record_failures [] limit a = Some a"
| "record_failures (t # ts) limit a = Option.bind (RecordFailure t limit a) (record_failures ts limit)"


lemma window_step:
  fixes xs :: "'a list"
  assumes "length xs \<le> n"
  shows "drop (length (drop (Suc (length xs) - n) (xs @ [x]) @ ys) - n) (drop (Suc (length xs) - n) (xs @ [x]) @ ys)
       = drop (Suc (length xs) + length ys - n) (xs @ x # ys)"
proof (cases "length xs < n")
  case True
  then show ?thesis by simp
next
  case False
  with assms have n: "n = length xs" by simp
  show ?thesis
    by (cases xs) (auto simp: n)
qed

lemma record_failures_window:
  assumes "0 \<le> limit" and "int (length (LoginFailures a)) \<le> limit"
  shows "\<exists>b. record_failures ts limit a = Some b
    \<and> LoginFailures b = drop (length (LoginFailures a @ ts) - nat limit) (LoginFailures a @ ts)
    \<and> (ts \<noteq> [] \<longrightarrow> SerialFailedAttempts b = int (length (LoginFailures b)))
    \<and> acct_locked b = acct_locked a \<and> LockoutTime b = LockoutTime a"
  using assms(2)
proof (induction ts arbitrary: a)
  case Nil
  then show ?case by simp
next
  case (Cons t ts)
  obtain c where c: "RecordFailure t limit a = Some c"
    and fc: "LoginFailures c = drop (Suc (length (LoginFailures a)) - nat limit) (LoginFailures a @ [t])"
    and sc: "SerialFailedAttempts c = int (length (LoginFailures c))"
    and lc: "acct_locked c = acct_locked a" "LockoutTime c = LockoutTime a"
    using RecordFailure_Some [OF assms(1), of t a] by (simp add: Let_def)
  have "int (length (LoginFailures c)) \<le> limit" using assms(1) by (simp add: fc)
  then obtain b where b: "record_failures ts limit c = Some b"
      "LoginFailures b = drop (length (LoginFailures c @ ts) - nat limit) (LoginFailures c @ ts)"
      "ts \<noteq> [] \<longrightarrow> SerialFailedAttempts b = int (length (LoginFailures b))"
      "acct_locked b = acct_locked c" "LockoutTime b = LockoutTime c"
    using Cons.IH by blast
  have "length (LoginFailures a) \<le> nat limit" using Cons.prems by linarith
  from window_step [OF this, of t ts] b(2) fc
  have "LoginFailures b = drop (length (LoginFailures a @ t # ts) - nat limit) (LoginFailures a @ t # ts)"
    by simp
  moreover have "SerialFailedAttempts b = int (length (LoginFailures b))"
    using b(1,3) sc by (cases ts) auto
  moreover have "record_failures (t # ts) limit a = Some b" using c b(1) by simp
  moreover have "acct_locked b = acct_locked a" "LockoutTime b = LockoutTime a" using b(4,5) lc by simp_all
  ultimately show ?case by blast
qed

text \<open>Whatever failures are recorded, the account keeps exactly the last \<^verbatim>\<open>limit\<close> of them in order, its
  counter is their number, and its lock is unaffected. A negative limit panics.\<close>

lemma failures_are_a_window:
  "(0 \<le> limit \<and> int (length (LoginFailures a)) \<le> limit \<longrightarrow>
      (\<exists>b. record_failures (t # ts) limit a = Some b
         \<and> LoginFailures b = rev (take (nat limit) (rev (LoginFailures a @ t # ts)))
         \<and> SerialFailedAttempts b = int (length (LoginFailures b))
         \<and> acct_locked b = acct_locked a))
   \<and> (limit < 0 \<longrightarrow> RecordFailure t limit a = None)"
proof (intro conjI impI)
  have window: "rev (take n (rev xs)) = drop (length xs - n) xs" for n and xs :: "time list"
    by (simp add: rev_take)
  assume "0 \<le> limit \<and> int (length (LoginFailures a)) \<le> limit"
  then show "\<exists>b. record_failures (t # ts) limit a = Some b
         \<and> LoginFailures b = rev (take (nat limit) (rev (LoginFailures a @ t # ts)))
         \<and> SerialFailedAttempts b = int (length (LoginFailures b))
         \<and> acct_locked b = acct_locked a"
    unfolding window using record_failures_window [of limit a "t # ts"] by blast
qed (simp add: RecordFailure_def Let_def)

definition sample_account :: account where
  "sample_account = \<lparr>acct_id = ''u1'', acct_type = AccountTypeDefault, acct_username = ''joe'',
     acct_credentials = StringCredentials ''secret'', acct_permissions = [''read''], acct_disabled = False,
     acct_locked = False, acct_useMFA = False, DefaultDesignatedTenantId = [], DesignatedTenantIds = [],
     acct_tenantId = [], LastLoginTime = 0, LoginFailures = [], SerialFailedAttempts = 0, LockoutTime = 0,
     PwdChangedTime = 0, GracefulAuthCount = 0, PolicyName = [], is_history = True, is_updater = True\<rparr>"

text \<open>The name of every account type parses back to it, in any letter case, and other strings parse to the
  unknown type. A value that is no string at all is not unknown but parses to the default type, because the
  switch compares its cases with the failed conversion.\<close>

lemma parse_account_type:
  "ParseAccountType (TypeString (AccountType_String t)) = t
   \<and> ParseAccountType (TypeString (strings_ToLower s)) = ParseAccountType (TypeString s)
   \<and> (ParseAccountType (TypeString s) = AccountTypeUnknown \<longleftrightarrow>
        strings_ToLower s \<notin> {''user'', ''app'', ''fed'', ''system''})
   \<and> ParseAccountType (TypeOther n) = AccountTypeDefault"
proof -
  have idem: "strings_ToLower (strings_ToLower s) = strings_ToLower s"
  proof -
    have "to_lower (to_lower c) = to_lower c" for c
      by (auto simp: to_lower_def Let_def)
    then show ?thesis by (simp add: strings_ToLower_def)
  qed
  have names: "strings_ToLower (AccountType_String t) = AccountType_String t"
    by (cases t) (simp_all add: strings_ToLower_def to_lower_def)
  have "ParseAccountType (TypeString (AccountType_String t)) = t"
    by (cases t) (use names in \<open>simp_all add: switch_type_def\<close>)
  moreover have "strings_ToLower [] = []" by (simp add: strings_ToLower_def)
  ultimately show ?thesis by (simp add: idem switch_type_def eq_commute)
qed

end
