(* ===== verification/Passwd.thy ===== *)
theory Passwd
  imports Account Otp Order
begin

text \<open>
  Password authentication, \<^verbatim>\<open>pkg/security/passwd\<close>: candidates and authentications (\<^verbatim>\<open>context.go\<close>), decision
  makers (\<^verbatim>\<open>decision.go\<close>), post-processors (\<^verbatim>\<open>post_process.go\<close>), the password authenticator and the two
  passcode authenticators, and their assembly (\<^verbatim>\<open>builder.go\<close>).

  The account store and the password encoder are arguments: a store is a record of operations on a
  state \<open>'st\<close>, whose lookups depend on the state and the account only. An authenticator runs on a
  \<open>world\<close>, the states of the account store, of the passcode manager and of the event listeners. The
  clock is read at named places, \<open>now\<close> gives the time of each. \<open>None\<close> is a panic. Formatted values in
  messages are left out. \<open>a\<close> is the address of the errors made.
\<close>

section \<open>Candidates and authentications\<close>

definition SpecialPermissionMFAPending :: string where "SpecialPermissionMFAPending = ''MFAPending''"
definition SpecialPermissionOtpId :: string where "SpecialPermissionOtpId = ''OtpId''"

definition MessageUserNotFound :: string where "MessageUserNotFound = ''Mismatched Username and Password''"
definition MessageBadCredential :: string where "MessageBadCredential = ''Mismatched Username and Password''"
definition MessageOtpNotAvailable :: string where "MessageOtpNotAvailable = ''MFA required but temprorily unavailable''"
definition MessageAccountStatus :: string where "MessageAccountStatus = ''Inactive Account''"
definition MessageInvalidPasscode :: string where "MessageInvalidPasscode = ''Bad Verification Code''"
definition MessagePasscodeExpired :: string where "MessagePasscodeExpired = ''Verification Code Expired''"
definition MessageCannotRefresh :: string where "MessageCannotRefresh = ''Unable to Refresh''"
definition MessageMaxAttemptsReached :: string where
  "MessageMaxAttemptsReached = ''No More Verification Attempts Allowed''"
definition MessageMaxRefreshAttemptsReached :: string where
  "MessageMaxRefreshAttemptsReached = ''No More Resend Attempts Allowed''"
definition MessageInvalidAccountStatus :: string where
  "MessageInvalidAccountStatus = ''Issue with current account status''"
definition MessageAccountDisabled :: string where "MessageAccountDisabled = ''Account Disabled''"
definition MessageAccountLocked :: string where "MessageAccountLocked = ''Account Locked''"
definition MessagePasswordLoginNotAllowed :: string where
  "MessagePasswordLoginNotAllowed = ''Password Login not Allowed''"
definition MessageLockedDueToBadCredential :: string where
  "MessageLockedDueToBadCredential =
     ''Mismatched Username and Password. Account locked due to too many failed attempts''"
definition MessagePasswordExpired :: string where "MessagePasswordExpired = ''User credentials have expired''"

definition errorBadCredentials :: goerr where
  "errorBadCredentials = NewBadCredentialsError 30 (TextItem ''bad creds'') []"
definition errorCredentialsExpired :: goerr where
  "errorCredentialsExpired = NewCredentialsExpiredError 32 (TextItem ''cred exp'') []"
definition errorMaxAttemptsReached :: goerr where
  "errorMaxAttemptsReached = NewMaxAttemptsReachedError 34 (TextItem ''max attempts'') []"

text \<open>\<^verbatim>\<open>errors.Is\<close> of an error that may be nil.\<close>

definition err_Is :: "goerr option \<Rightarrow> goerr \<Rightarrow> bool" where
  "err_Is e target = (case e of None \<Rightarrow> False | Some err \<Rightarrow> errors_Is err target)"

record usernamePasswordAuthentication =
  Acct :: account
  Perms :: "string \<rightharpoonup> perm_value"
  AuthDetails :: "(string \<rightharpoonup> detail_value) option"

definition IsMFAPending :: "usernamePasswordAuthentication \<Rightarrow> bool" where
  "IsMFAPending auth = (case Perms auth SpecialPermissionOtpId of Some (PermString v) \<Rightarrow> True | _ \<Rightarrow> False)"

definition OTPIdentifier :: "usernamePasswordAuthentication \<Rightarrow> string" where
  "OTPIdentifier auth = (case Perms auth SpecialPermissionOtpId of Some (PermString v) \<Rightarrow> v | _ \<Rightarrow> [])"

definition upa_State :: "usernamePasswordAuthentication \<Rightarrow> auth_state" where
  "upa_State auth = (if IsMFAPending auth then StatePrincipalKnown else StateAuthenticated)"

definition upa_Username :: "usernamePasswordAuthentication \<Rightarrow> string" where
  "upa_Username auth = acct_username (Acct auth)"

text \<open>The authentication as the rest of the framework sees it.\<close>

definition as_authentication :: "usernamePasswordAuthentication \<Rightarrow> authentication" where
  "as_authentication auth =
     \<lparr>Principal = AccountPrincipal (upa_Username auth), Permissions = Perms auth, State = upa_State auth,
      Details = DetailsMap (case AuthDetails auth of None \<Rightarrow> Map.empty | Some d \<Rightarrow> d)\<rparr>"

definition IsSamePrincipal :: "string \<Rightarrow> authentication option \<Rightarrow> bool" where
  "IsSamePrincipal username currentAuth =
     (case currentAuth of
        None \<Rightarrow> False
      | Some auth \<Rightarrow>
         if State auth < StatePrincipalKnown then False
         else (case Principal auth of
                 AccountPrincipal u \<Rightarrow> username = u
               | StringPrincipal u \<Rightarrow> username = u
               | _ \<Rightarrow> False))"

datatype MFAMode = MFAModeSkip | MFAModeOptional | MFAModeMust

datatype candidate =
    UsernamePasswordPair (Username: string) (Password: string) (PairDetails: "(string \<rightharpoonup> detail_value) option")
      (EnforceMFA: MFAMode)
  | MFAOtpVerification "usernamePasswordAuthentication option" string
  | MFAOtpRefresh "usernamePasswordAuthentication option"
  | OtherCandidate nat

section \<open>The environment of an authenticator\<close>

datatype clock_site = AtUnlock | AtPolicy | AtWarning | AtAuthTime | AtSuccess | AtFailure | AtCounting | AtLock
  | AtOtp nat

type_synonym clock = "clock_site \<Rightarrow> time"

record 'st account_store =
  LoadAccountByUsername :: "'st \<Rightarrow> string \<Rightarrow> goerr + account"
  LoadLockingRules :: "'st \<Rightarrow> account \<Rightarrow> goerr + locking_rule option"
  LoadPwdAgingRules :: "'st \<Rightarrow> account \<Rightarrow> goerr + pwd_aging_rule option"
  SaveAccount :: "'st \<Rightarrow> account \<Rightarrow> 'st \<times> goerr option"

record 'o otp_manager =
  mgr_New :: "(nat \<Rightarrow> time) \<Rightarrow> 'o \<Rightarrow> 'o \<times> (goerr + timeBasedOtp)"
  mgr_Verify :: "(nat \<Rightarrow> time) \<Rightarrow> 'o \<Rightarrow> string \<Rightarrow> string \<Rightarrow> 'o \<times> otp_result"
  mgr_Refresh :: "(nat \<Rightarrow> time) \<Rightarrow> 'o \<Rightarrow> string \<Rightarrow> 'o \<times> otp_result"

datatype MFAEvent = MFAEventOtpCreate | MFAEventOtpRefresh | MFAEventVerificationSuccess | MFAEventVerificationFailure

type_synonym 'l listener = "MFAEvent \<Rightarrow> timeBasedOtp option \<Rightarrow> account \<Rightarrow> 'l \<Rightarrow> 'l"

record ('st, 'o, 'l) world =
  accounts :: 'st
  otps :: 'o
  listened :: 'l

definition broadcastMFAEvent ::
    "MFAEvent \<Rightarrow> timeBasedOtp option \<Rightarrow> account \<Rightarrow> 'l listener list \<Rightarrow> 'l \<Rightarrow> 'l" where
  "broadcastMFAEvent event otp acct listeners l = fold (\<lambda>listener. listener event otp acct) listeners l"

section \<open>Decision makers\<close>

type_synonym decision = "account option \<times> usernamePasswordAuthentication option \<times> goerr option"
type_synonym decider = "candidate \<Rightarrow> account option \<Rightarrow> usernamePasswordAuthentication option \<Rightarrow> decision option"
type_synonym decider_condition = "candidate \<Rightarrow> account option \<Rightarrow> usernamePasswordAuthentication option \<Rightarrow> bool"

definition ConditionalDecide :: "decider option \<Rightarrow> decider_condition option \<Rightarrow> decider" where
  "ConditionalDecide delegate condition c acct auth =
     (case delegate of
        None \<Rightarrow> Some (acct, auth, None)
      | Some d \<Rightarrow>
         (case condition of
            None \<Rightarrow> d c acct auth
          | Some cond \<Rightarrow> if \<not> cond c acct auth then Some (acct, auth, None) else d c acct auth))"

definition isPreCredentialsCheck :: decider_condition where
  "isPreCredentialsCheck c acct auth = (auth = None)"

definition isPostCredentialsCheck :: decider_condition where
  "isPostCredentialsCheck c acct auth = (auth \<noteq> None)"

definition isFinalStage :: decider_condition where
  "isFinalStage c acct auth = (case auth of None \<Rightarrow> False | Some x \<Rightarrow> upa_State x \<ge> StateAuthenticated)"

definition PreCredentialsCheck :: "decider \<Rightarrow> decider" where
  "PreCredentialsCheck d = ConditionalDecide (Some d) (Some isPreCredentialsCheck)"

definition PostCredentialsCheck :: "decider \<Rightarrow> decider" where
  "PostCredentialsCheck d = ConditionalDecide (Some d) (Some isPostCredentialsCheck)"

definition FinalCheck :: "decider \<Rightarrow> decider" where
  "FinalCheck d = ConditionalDecide (Some d) (Some isFinalStage)"

text \<open>The decision makers may change the account and the authentication, which the loop hands on.\<close>

fun makeDecision :: "decider list \<Rightarrow> decider" where
  "makeDecision [] can acct auth = Some (acct, auth, None)"
| "makeDecision (checker # checkers) can acct auth =
     (case checker can acct auth of
        None \<Rightarrow> None
      | Some (acct', auth', Some err) \<Rightarrow> Some (acct', auth', Some err)
      | Some (acct', auth', None) \<Rightarrow> makeDecision checkers can acct' auth')"

definition decideAutoUnlock ::
    "'st account_store \<Rightarrow> 'st \<Rightarrow> nat \<Rightarrow> clock \<Rightarrow> account \<Rightarrow> account \<times> goerr option" where
  "decideAutoUnlock store st a now acct =
     (if \<not> acct_locked acct then (acct, None)
      else
        let err = NewAccountStatusError a (TextItem MessageAccountLocked) []
        in if \<not> is_history acct \<or> \<not> is_updater acct \<or> Time_IsZero (LockoutTime acct) then (acct, Some err)
           else (case LoadLockingRules store st acct of
                   Inr (Some rules) \<Rightarrow>
                     if \<not> LockoutEnabled rules \<or> LockoutDuration rules \<le> 0 then (acct, Some err)
                     else
                       let acct' = (if now AtUnlock > LockoutTime acct + LockoutDuration rules
                                    then UnlockAccount acct else acct)
                       in if \<not> acct_locked acct' then (acct', None) else (acct', Some err)
                 | _ \<Rightarrow> (acct, Some err)))"

definition AccountStatusChecker_Decide :: "'st account_store \<Rightarrow> 'st \<Rightarrow> nat \<Rightarrow> clock \<Rightarrow> decider" where
  "AccountStatusChecker_Decide store st a now c acct auth =
     (case acct of
        None \<Rightarrow> Some (acct, auth, None)
      | Some u \<Rightarrow>
          if acct_disabled u then
            Some (acct, auth, Some (NewAccountStatusError a (TextItem MessageAccountDisabled) []))
          else if acct_type u = AccountTypeFederated then
            Some (acct, auth, Some (NewAccountStatusError a (TextItem MessagePasswordLoginNotAllowed) []))
          else if acct_locked u then
            (case decideAutoUnlock store st a now u of (u', err) \<Rightarrow> Some (Some u', auth, err))
          else Some (acct, auth, None))"

text \<open>\<^verbatim>\<open>addWarning\<close> needs an authentication; it appends to the warnings of its details, if it has details.\<close>

definition addWarning ::
    "usernamePasswordAuthentication \<Rightarrow> detail_value \<Rightarrow> usernamePasswordAuthentication" where
  "addWarning auth warning =
     (case AuthDetails auth of
        None \<Rightarrow> auth
      | Some details \<Rightarrow>
          let existing = (case details DetailsKeyAuthWarning of
                            None \<Rightarrow> []
                          | Some (DetailList ws) \<Rightarrow> ws
                          | Some w \<Rightarrow> [w]);
              warnings = (case warning of DetailList ws \<Rightarrow> existing @ ws | w \<Rightarrow> existing @ [w])
          in auth\<lparr>AuthDetails := Some (details(DetailsKeyAuthWarning \<mapsto> DetailList warnings))\<rparr>)"

definition decideNonExpiredPassword ::
    "clock \<Rightarrow> pwd_aging_rule \<Rightarrow> account \<Rightarrow> usernamePasswordAuthentication option \<Rightarrow> decision option" where
  "decideNonExpiredPassword now policy acct auth =
     (let acct' = ResetGracefulAuthCount acct;
          toExpire = PwdMaxAge policy - (now AtWarning - PwdChangedTime acct')
      in if toExpire \<ge> 0 \<and> toExpire < PwdExpiryWarningPeriod policy then
           (case auth of
              None \<Rightarrow> None
            | Some x \<Rightarrow> Some (Some acct', Some (addWarning x (DetailText ''Password is expring in'')), None))
         else Some (Some acct', auth, None))"

definition decideExpiredPassword ::
    "nat \<Rightarrow> pwd_aging_rule \<Rightarrow> account \<Rightarrow> usernamePasswordAuthentication option \<Rightarrow> decision option" where
  "decideExpiredPassword a policy acct auth =
     (let remaining = GracefulAuthLimit policy - GracefulAuthCount acct
      in if remaining \<le> 0 then
           Some (Some acct, auth, Some (NewCredentialsExpiredError a (TextItem MessagePasswordExpired) []))
         else
           (case auth of
              None \<Rightarrow> None
            | Some x \<Rightarrow>
                Some (Some (IncrementGracefulAuthCount acct),
                      Some (addWarning x (if remaining = 1 then DetailText ''Last Graceful Login''
                                          else DetailText ''Graceful Login Left'')),
                      None)))"

definition PasswordPolicyChecker_Decide :: "'st account_store \<Rightarrow> 'st \<Rightarrow> nat \<Rightarrow> clock \<Rightarrow> decider" where
  "PasswordPolicyChecker_Decide store st a now c acct auth =
     (case acct of
        None \<Rightarrow> Some (acct, auth, None)
      | Some u \<Rightarrow>
          if \<not> is_history u \<or> \<not> is_updater u then Some (acct, auth, None)
          else (case LoadPwdAgingRules store st u of
                  Inr (Some policy) \<Rightarrow>
                    if \<not> PwdAgingRuleEnforced policy \<or> PwdMaxAge policy \<le> 0 then Some (acct, auth, None)
                    else if PwdChangedTime u + PwdMaxAge policy < now AtPolicy
                    then decideExpiredPassword a policy u auth
                    else decideNonExpiredPassword now policy u auth
                | _ \<Rightarrow> Some (acct, auth, None)))"

section \<open>Post-processors\<close>

record auth_result =
  rCandidate :: candidate
  rAuth :: "usernamePasswordAuthentication option"
  rError :: "goerr option"

type_synonym 'st processing = "'st \<times> account option \<times> auth_result"

record 'st post_processor =
  pp_order :: int
  Process :: "'st processing \<Rightarrow> 'st processing option"

fun applyPostAuthenticationProcessors :: "'st post_processor list \<Rightarrow> 'st processing \<Rightarrow> 'st processing option" where
  "applyPostAuthenticationProcessors [] r = Some r"
| "applyPostAuthenticationProcessors (p # ps) r =
     Option.bind (Process p r) (applyPostAuthenticationProcessors ps)"

definition isPasswordAuth :: "auth_result \<Rightarrow> bool" where
  "isPasswordAuth r = (case rCandidate r of UsernamePasswordPair u p d m \<Rightarrow> True | _ \<Rightarrow> False)"

definition isMfaVerify :: "auth_result \<Rightarrow> bool" where
  "isMfaVerify r = (case rCandidate r of MFAOtpVerification c p \<Rightarrow> True | _ \<Rightarrow> False)"

definition PersistAccount_Process :: "'st account_store \<Rightarrow> 'st processing \<Rightarrow> 'st processing option" where
  "PersistAccount_Process store = (\<lambda>(st, acct, r).
     case acct of
       None \<Rightarrow> Some (st, acct, r)
     | Some u \<Rightarrow> Some (fst (SaveAccount store st u), acct, r))"

definition AccountStatus_Process :: "'st account_store \<Rightarrow> clock \<Rightarrow> 'st processing \<Rightarrow> 'st processing option" where
  "AccountStatus_Process store now = (\<lambda>(st, acct, r).
     case acct of
       None \<Rightarrow> Some (st, acct, r)
     | Some u \<Rightarrow>
         if \<not> is_updater u then Some (st, acct, r)
         else if rError r = None \<and> (case rAuth r of None \<Rightarrow> False | Some x \<Rightarrow> upa_State x \<ge> StateAuthenticated) then
           Some (st, Some (ResetFailedAttempts (RecordSuccess (now AtSuccess) u)), r)
         else if err_Is (rError r) errorBadCredentials \<and> isPasswordAuth r then
           let limit = (case LoadLockingRules store st u of
                          Inr (Some rules) \<Rightarrow> if LockoutEnabled rules then LockoutFailuresLimit rules else 5
                        | _ \<Rightarrow> 5)
           in map_option (\<lambda>u'. (st, Some u', r)) (RecordFailure (now AtFailure) limit u)
         else Some (st, acct, r))"

definition count_failures :: "locking_rule \<Rightarrow> time \<Rightarrow> account \<Rightarrow> int" where
  "count_failures rules now u =
     foldl (\<lambda>count t. if now - t \<le> LockoutFailuresInterval rules \<and> t > LockoutTime u then count + 1 else count)
       0 (LoginFailures u)"

definition AccountLocking_Process :: "'st account_store \<Rightarrow> nat \<Rightarrow> clock \<Rightarrow> 'st processing \<Rightarrow> 'st processing option" where
  "AccountLocking_Process store a now = (\<lambda>(st, acct, r).
     case acct of
       None \<Rightarrow> Some (st, acct, r)
     | Some u \<Rightarrow>
         if \<not> is_updater u \<or> \<not> err_Is (rError r) errorBadCredentials \<or> \<not> isPasswordAuth r then Some (st, acct, r)
         else (case LoadLockingRules store st u of
                 Inr (Some rules) \<Rightarrow>
                   if \<not> is_history u \<or> \<not> LockoutEnabled rules then Some (st, acct, r)
                   else if count_failures rules (now AtCounting) u \<ge> LockoutFailuresLimit rules then
                     Some (st, Some (LockAccount (now AtLock) u),
                           r\<lparr>rError := Some (NewAccountStatusError a (TextItem MessageLockedDueToBadCredential)
                                              [item_of (rError r)])\<rparr>)
                   else Some (st, acct, r)
               | _ \<Rightarrow> Some (st, acct, r)))"

text \<open>Writing into details that are a nil map panics.\<close>

definition AdditionalDetails_Process :: "'st processing \<Rightarrow> 'st processing option" where
  "AdditionalDetails_Process = (\<lambda>(st, acct, r).
     if rError r \<noteq> None then Some (st, acct, r)
     else (case rAuth r of
             None \<Rightarrow> Some (st, acct, r)
           | Some x \<Rightarrow>
              (case AuthDetails x of
                 None \<Rightarrow> None
               | Some details \<Rightarrow>
                  let details = details(DetailsKeyAuthMethod \<mapsto> DetailText AuthMethodPassword);
                      details = (if isMfaVerify r then details(DetailsKeyMFAApplied \<mapsto> DetailBool True) else details)
                  in Some (st, acct, r\<lparr>rAuth := Some (x\<lparr>AuthDetails := Some details\<rparr>)\<rparr>))))"

definition preparePostProcessors :: "'st account_store \<Rightarrow> nat \<Rightarrow> clock \<Rightarrow> 'st post_processor list" where
  "preparePostProcessors store a now =
     [\<lparr>pp_order = Highest, Process = PersistAccount_Process store\<rparr>,
      \<lparr>pp_order = Highest + 1, Process = AdditionalDetails_Process\<rparr>,
      \<lparr>pp_order = Lowest, Process = AccountStatus_Process store now\<rparr>,
      \<lparr>pp_order = 0, Process = AccountLocking_Process store a now\<rparr>]"

definition prepareDecisionMakers :: "'st account_store \<Rightarrow> 'st \<Rightarrow> nat \<Rightarrow> clock \<Rightarrow> decider list" where
  "prepareDecisionMakers store st a now =
     [PreCredentialsCheck (AccountStatusChecker_Decide store st a now),
      FinalCheck (PasswordPolicyChecker_Decide store st a now)]"

section \<open>The password authenticator\<close>

record ('st, 'o, 'l) authenticator =
  accountStore :: "'st account_store"
  passwdMatches :: "string \<Rightarrow> string \<Rightarrow> bool"
  otpManager :: "'o otp_manager option"
  mfaEventListeners :: "'l listener list"
  checkers :: "decider list"
  postProcessors :: "'st post_processor list"

definition noop_Matches :: "string \<Rightarrow> string \<Rightarrow> bool" where
  "noop_Matches raw encoded = (raw = encoded)"

text \<open>\<^verbatim>\<open>NewAuthenticator\<close> sorts the checkers, none of which is ordered, and the post-processors in reverse.\<close>

definition unordered :: ordered_obj where "unordered = \<lparr>PriorityOrder = None, OrderValue = None\<rparr>"

definition pp_view :: "'st post_processor \<Rightarrow> ordered_obj" where
  "pp_view p = \<lparr>PriorityOrder = None, OrderValue = Some (pp_order p)\<rparr>"

definition NewAuthenticator :: "('st, 'o, 'l) authenticator \<Rightarrow> ('st, 'o, 'l) authenticator" where
  "NewAuthenticator options =
     options\<lparr>checkers := SortStable (\<lambda>c. unordered) OrderedFirstCompare (checkers options),
             postProcessors := SortStable pp_view OrderedFirstCompareReverse (postProcessors options)\<rparr>"

definition translate_password :: "nat \<Rightarrow> goerr \<Rightarrow> goerr" where
  "translate_password a err =
     (if errors_Is err ErrorTypeSecurity then err
      else NewAccountStatusError a (TextItem MessageAccountStatus) [ErrItem err])"

definition grant_all :: "string list \<Rightarrow> string \<rightharpoonup> perm_value" where
  "grant_all ps = foldl (\<lambda>m p. m(p \<mapsto> PermTrue)) Map.empty ps"

definition CreateSuccessAuthentication ::
    "('st, 'o, 'l) authenticator \<Rightarrow> nat \<Rightarrow> clock \<Rightarrow> ('st, 'o, 'l) world \<Rightarrow> candidate \<Rightarrow> account \<Rightarrow>
     ('st, 'o, 'l) world \<times> (goerr + usernamePasswordAuthentication)" where
  "CreateSuccessAuthentication au a now w c acct =
     (let details = (case PairDetails c of None \<Rightarrow> Map.empty | Some d \<Rightarrow> d);
          unavailable = NewInternalAuthenticationError a (TextItem MessageOtpNotAvailable) []
      in if EnforceMFA c = MFAModeMust \<or> EnforceMFA c \<noteq> MFAModeSkip \<and> acct_useMFA acct then
           (case otpManager au of
              None \<Rightarrow> (w, Inl unavailable)
            | Some om \<Rightarrow>
               (case mgr_New om (\<lambda>i. now (AtOtp i)) (otps w) of
                  (os, Inl err) \<Rightarrow> (w\<lparr>otps := os\<rparr>, Inl unavailable)
                | (os, Inr otp) \<Rightarrow>
                    (w\<lparr>otps := os,
                       listened := broadcastMFAEvent MFAEventOtpCreate (Some otp) acct (mfaEventListeners au) (listened w)\<rparr>,
                     Inr \<lparr>Acct = CacheableCopy acct,
                          Perms = [SpecialPermissionMFAPending \<mapsto> PermTrue,
                                   SpecialPermissionOtpId \<mapsto> PermString (Identifier otp)],
                          AuthDetails = Some details\<rparr>)))
         else
           (w, Inr \<lparr>Acct = CacheableCopy acct, Perms = grant_all (acct_permissions acct),
                    AuthDetails = Some (details(DetailsKeyAuthTime \<mapsto> DetailTime (now AtAuthTime)))\<rparr>))"

type_synonym ('st, 'o, 'l) attempt =
  "('st, 'o, 'l) world \<times> account option \<times> usernamePasswordAuthentication option \<times> goerr option"

text \<open>The body of \<^verbatim>\<open>Authenticate\<close> up to its return; the deferred post-processing follows.\<close>

definition password_attempt ::
    "('st, 'o, 'l) authenticator \<Rightarrow> nat \<Rightarrow> clock \<Rightarrow> ('st, 'o, 'l) world \<Rightarrow> candidate \<Rightarrow> ('st, 'o, 'l) attempt option" where
  "password_attempt au a now w c =
     (case LoadAccountByUsername (accountStore au) (accounts w) (Username c) of
        Inl e \<Rightarrow> Some (w, None, None, Some (NewUsernameNotFoundError a (TextItem MessageUserNotFound) [ErrItem e]))
      | Inr user \<Rightarrow>
         (case makeDecision (checkers au) c (Some user) None of
            None \<Rightarrow> None
          | Some (acct, _, Some e) \<Rightarrow> Some (w, acct, None, Some (translate_password a e))
          | Some (None, _, None) \<Rightarrow> None
          | Some (Some user, _, None) \<Rightarrow>
              if \<not> (case acct_credentials user of
                      StringCredentials password \<Rightarrow>
                        Username c = acct_username user \<and> passwdMatches au (Password c) password
                    | _ \<Rightarrow> False)
              then Some (w, Some user, None, Some (NewBadCredentialsError a (TextItem MessageBadCredential) []))
              else
                (case CreateSuccessAuthentication au a now w c user of
                   (w', Inl e) \<Rightarrow> Some (w', Some user, None, Some (translate_password a e))
                 | (w', Inr newAuth) \<Rightarrow>
                    (case makeDecision (checkers au) c (Some user) (Some newAuth) of
                       None \<Rightarrow> None
                     | Some (acct, _, Some e) \<Rightarrow> Some (w', acct, None, Some (translate_password a e))
                     | Some (acct, auth, None) \<Rightarrow> Some (w', acct, auth, None)))))"

definition post_process ::
    "('st, 'o, 'l) authenticator \<Rightarrow> candidate \<Rightarrow> ('st, 'o, 'l) attempt \<Rightarrow>
     (('st, 'o, 'l) world \<times> account option \<times> usernamePasswordAuthentication option \<times> goerr option) option" where
  "post_process au c = (\<lambda>(w, acct, auth, err).
     map_option (\<lambda>(st, acct', r). (w\<lparr>accounts := st\<rparr>, acct', rAuth r, rError r))
       (applyPostAuthenticationProcessors (postProcessors au)
          (accounts w, acct, \<lparr>rCandidate = c, rAuth = auth, rError = err\<rparr>)))"

type_synonym ('st, 'o, 'l) authenticated =
  "(('st, 'o, 'l) world \<times> usernamePasswordAuthentication option \<times> goerr option) option"

definition Authenticate_password ::
    "('st, 'o, 'l) authenticator \<Rightarrow> nat \<Rightarrow> clock \<Rightarrow> ('st, 'o, 'l) world \<Rightarrow> candidate \<Rightarrow> ('st, 'o, 'l) authenticated" where
  "Authenticate_password au a now w c =
     (case c of
        UsernamePasswordPair u p d m \<Rightarrow>
          map_option (\<lambda>(w', acct, auth, err). (w', auth, err))
            (Option.bind (password_attempt au a now w c) (post_process au c))
      | _ \<Rightarrow> Some (w, None, None))"

section \<open>The passcode authenticators\<close>

definition checkCurrentAuth ::
    "'st account_store \<Rightarrow> 'st \<Rightarrow> nat \<Rightarrow> usernamePasswordAuthentication option \<Rightarrow> goerr + account" where
  "checkCurrentAuth store st a currentAuth =
     (case currentAuth of
        None \<Rightarrow> Inl (NewUsernameNotFoundError a (TextItem MessageInvalidAccountStatus) [])
      | Some auth \<Rightarrow>
         (case LoadAccountByUsername store st (upa_Username auth) of
            Inl err \<Rightarrow> Inl (NewUsernameNotFoundError a (TextItem MessageInvalidAccountStatus) [ErrItem err])
          | Inr user \<Rightarrow> Inr user))"

definition translate_otp :: "string \<Rightarrow> string \<Rightarrow> nat \<Rightarrow> goerr \<Rightarrow> bool \<Rightarrow> goerr" where
  "translate_otp failed exhausted a err chances =
     (if chances then NewBadCredentialsError a (TextItem failed) [ErrItem err]
      else if errors_Is err errorCredentialsExpired then
        NewCredentialsExpiredError a (TextItem MessagePasscodeExpired) [ErrItem err]
      else if errors_Is err errorMaxAttemptsReached then
        NewMaxAttemptsReachedError a (TextItem exhausted) [ErrItem err]
      else NewMaxAttemptsReachedError a (TextItem failed) [ErrItem err])"

definition translate_verify :: "nat \<Rightarrow> goerr \<Rightarrow> bool \<Rightarrow> goerr" where
  "translate_verify = translate_otp MessageInvalidPasscode MessageMaxAttemptsReached"

definition translate_refresh :: "nat \<Rightarrow> goerr \<Rightarrow> bool \<Rightarrow> goerr" where
  "translate_refresh = translate_otp MessageCannotRefresh MessageMaxRefreshAttemptsReached"

text \<open>
  The details of the current authentication are a map; when it is nil, the code puts the nil map itself
  under the key \<^verbatim>\<open>Literal\<close> of a new one.
\<close>

definition CreateVerifiedAuthentication ::
    "clock \<Rightarrow> usernamePasswordAuthentication \<Rightarrow> account \<Rightarrow> usernamePasswordAuthentication" where
  "CreateVerifiedAuthentication now currentAuth acct =
     (let details = (case AuthDetails currentAuth of
                       Some d \<Rightarrow> d
                     | None \<Rightarrow> [''Literal'' \<mapsto> DetailNilMap])
      in \<lparr>Acct = acct, Perms = grant_all (acct_permissions acct),
          AuthDetails = Some (details(DetailsKeyAuthTime \<mapsto> DetailTime (now AtAuthTime)))\<rparr>)"

text \<open>
  The two passcode authenticators differ in the operation of the passcode manager, the events, the
  authentication they return, and the translation of errors; the manager is never nil where they are built.
\<close>

definition otp_attempt ::
    "('st, 'o, 'l) authenticator \<Rightarrow> nat \<Rightarrow> ('st, 'o, 'l) world \<Rightarrow> candidate \<Rightarrow>
     usernamePasswordAuthentication option \<Rightarrow> (nat \<Rightarrow> goerr \<Rightarrow> bool \<Rightarrow> goerr) \<Rightarrow>
     ('o \<Rightarrow> string \<Rightarrow> 'o \<times> otp_result) \<Rightarrow> MFAEvent option \<Rightarrow> MFAEvent \<Rightarrow>
     (usernamePasswordAuthentication \<Rightarrow> account \<Rightarrow> usernamePasswordAuthentication) \<Rightarrow> ('st, 'o, 'l) attempt option" where
  "otp_attempt au a w c currentAuth translate oper onFailure onSuccess create =
     (case checkCurrentAuth (accountStore au) (accounts w) a currentAuth of
        Inl err \<Rightarrow> Some (w, None, None, Some err)
      | Inr user \<Rightarrow>
         (case makeDecision (checkers au) c (Some user) None of
            None \<Rightarrow> None
          | Some (acct, _, Some e) \<Rightarrow> Some (w, acct, None, Some (translate a e True))
          | Some (None, _, None) \<Rightarrow> None
          | Some (Some user, _, None) \<Rightarrow>
             (case currentAuth of
                None \<Rightarrow> None
              | Some current \<Rightarrow>
                 (case oper (otps w) (OTPIdentifier current) of
                    (os, otp, chances, Some e) \<Rightarrow>
                      Some (w\<lparr>otps := os,
                              listened := (case onFailure of
                                             None \<Rightarrow> listened w
                                           | Some ev \<Rightarrow> broadcastMFAEvent ev otp user (mfaEventListeners au) (listened w))\<rparr>,
                            Some user, None, Some (translate a e chances))
                  | (os, otp, chances, None) \<Rightarrow>
                      let w' = w\<lparr>otps := os, listened := broadcastMFAEvent onSuccess otp user (mfaEventListeners au) (listened w)\<rparr>
                      in (case makeDecision (checkers au) c (Some user) (Some (create current user)) of
                            None \<Rightarrow> None
                          | Some (acct, _, Some e) \<Rightarrow> Some (w', acct, None, Some e)
                          | Some (acct, auth, None) \<Rightarrow> Some (w', acct, auth, None))))))"

text \<open>
  A verified authentication refers to the loaded account itself, not to a copy, so it shows the changes
  made to the account by the checks and the post-processors.
\<close>

definition Authenticate_verify ::
    "('st, 'o, 'l) authenticator \<Rightarrow> 'o otp_manager \<Rightarrow> nat \<Rightarrow> clock \<Rightarrow> ('st, 'o, 'l) world \<Rightarrow> candidate \<Rightarrow>
     ('st, 'o, 'l) authenticated" where
  "Authenticate_verify au om a now w c =
     (case c of
        MFAOtpVerification currentAuth passcode \<Rightarrow>
          map_option (\<lambda>(w', acct, auth, err).
              (w', (case acct of None \<Rightarrow> auth | Some u \<Rightarrow> map_option (\<lambda>x. x\<lparr>Acct := u\<rparr>) auth), err))
            (Option.bind
              (otp_attempt au a w c currentAuth translate_verify
                (\<lambda>os ident. mgr_Verify om (\<lambda>i. now (AtOtp i)) os ident passcode)
                (Some MFAEventVerificationFailure) MFAEventVerificationSuccess (CreateVerifiedAuthentication now))
              (post_process au c))
      | _ \<Rightarrow> Some (w, None, None))"

definition Authenticate_refresh ::
    "('st, 'o, 'l) authenticator \<Rightarrow> 'o otp_manager \<Rightarrow> nat \<Rightarrow> clock \<Rightarrow> ('st, 'o, 'l) world \<Rightarrow> candidate \<Rightarrow>
     ('st, 'o, 'l) authenticated" where
  "Authenticate_refresh au om a now w c =
     (case c of
        MFAOtpRefresh currentAuth \<Rightarrow>
          map_option (\<lambda>(w', acct, auth, err). (w', auth, err))
            (Option.bind
              (otp_attempt au a w c currentAuth translate_refresh
                (\<lambda>os ident. mgr_Refresh om (\<lambda>i. now (AtOtp i)) os ident)
                None MFAEventOtpRefresh (\<lambda>current acct. current))
              (post_process au c))
      | _ \<Rightarrow> Some (w, None, None))"

section \<open>Assembly\<close>

text \<open>
  What \<^verbatim>\<open>AuthenticatorBuilder.Build\<close> makes: the three authenticators share the account store, the passcode
  manager, the listeners, and the slices of checkers and post-processors, which \<^verbatim>\<open>NewAuthenticator\<close> sorts
  in place before the other two are made. Without MFA there is no passcode manager.
\<close>

definition build_options ::
    "'st account_store \<Rightarrow> (string \<Rightarrow> string \<Rightarrow> bool) option \<Rightarrow> 'o otp_manager option \<Rightarrow> 'l listener list \<Rightarrow>
     'st \<Rightarrow> nat \<Rightarrow> clock \<Rightarrow> ('st, 'o, 'l) authenticator" where
  "build_options store encoder om listeners st a now =
     \<lparr>accountStore = store,
      passwdMatches = (case encoder of None \<Rightarrow> noop_Matches | Some e \<Rightarrow> e),
      otpManager = om, mfaEventListeners = listeners,
      checkers = prepareDecisionMakers store st a now,
      postProcessors = preparePostProcessors store a now\<rparr>"

text \<open>The account store of the feature, or the default one; it is an error to have neither.\<close>

definition choose_store :: "'st account_store option \<Rightarrow> 'st account_store option \<Rightarrow> string + 'st account_store" where
  "choose_store fstore dflt =
     (case fstore of
        Some s \<Rightarrow> Inr s
      | None \<Rightarrow>
         (case dflt of
            Some s \<Rightarrow> Inr s
          | None \<Rightarrow> Inl ''unable to create password authenticator: account accountStore is not set''))"

definition password_authenticator ::
    "'st account_store \<Rightarrow> (string \<Rightarrow> string \<Rightarrow> bool) option \<Rightarrow> 'o otp_manager option \<Rightarrow> 'l listener list \<Rightarrow>
     'st \<Rightarrow> nat \<Rightarrow> clock \<Rightarrow> ('st, 'o, 'l) authenticator" where
  "password_authenticator store encoder om listeners st a now =
     NewAuthenticator (build_options store encoder om listeners st a now)"

record PasswordAuthFeature =
  mfaEnabled :: bool
  otpTTL :: duration
  otpVerifyLimit :: "64 word"
  otpRefreshLimit :: "64 word"
  otpLength :: "64 word"
  otpSecretSize :: "64 word"

text \<open>\<^verbatim>\<open>mfaOptions\<close> replaces unset and too small values and makes the passcode manager.\<close>

definition mfaOptions :: "PasswordAuthFeature \<Rightarrow> totpManager option" where
  "mfaOptions f =
     (if \<not> mfaEnabled f then None
      else
        let f = (if otpTTL f \<le> 0 then f\<lparr>otpTTL := 10 * 60 * second\<rparr> else f);
            f = (if otpVerifyLimit f \<le> 0 then f\<lparr>otpVerifyLimit := 3\<rparr> else f);
            f = (if otpRefreshLimit f \<le> 0 then f\<lparr>otpRefreshLimit := 3\<rparr> else f);
            f = (if otpLength f \<le> 3 then f\<lparr>otpLength := 3\<rparr> else f);
            f = (if otpSecretSize f \<le> 5 then f\<lparr>otpSecretSize := 5\<rparr> else f)
        in Some (newTotpManager
                  (newTotpFactory [\<lambda>factory. factory\<lparr>digits := sint (otpLength f), secretSize := sint (otpSecretSize f)\<rparr>])
                  [\<lambda>s. s\<lparr>mgr_ttl := otpTTL f, maxVerifyLimit := otpVerifyLimit f, maxRefreshLimit := otpRefreshLimit f\<rparr>]))"

text \<open>The passcode manager of \<^verbatim>\<open>otp_store.go\<close> behind the interface the authenticators use.\<close>

definition totp_ops ::
    "totp_lib \<Rightarrow> (goerr \<Rightarrow> string \<Rightarrow> goerr) \<Rightarrow> nat \<Rightarrow> 's otp_store \<Rightarrow> totpManager \<Rightarrow> goerr + string \<Rightarrow>
     (nat \<Rightarrow> goerr + byte list) \<Rightarrow> 's otp_manager" where
  "totp_ops lib wrapf a st m uuid rand =
     \<lparr>mgr_New = (\<lambda>now. otp_New lib wrapf a st m uuid rand (now 0)),
      mgr_Verify = (\<lambda>now. otp_Verify lib a st m now),
      mgr_Refresh = (\<lambda>now. otp_Refresh lib a st m now)\<rparr>"

end
