(* ===== verification/Passwd_Login.thy ===== *)
theory Passwd_Login
  imports Passwd
begin

text \<open>
  What the password authenticator guarantees: when a login is granted and what it grants, that it never
  panics, and when accounts are locked and unlocked. \<open>login\<close> is one call of the assembled authenticator.
\<close>

definition login ::
    "'st account_store \<Rightarrow> (string \<Rightarrow> string \<Rightarrow> bool) option \<Rightarrow> 'o otp_manager option \<Rightarrow> 'l listener list \<Rightarrow> nat \<Rightarrow>
     clock \<Rightarrow> ('st, 'o, 'l) world \<Rightarrow> candidate \<Rightarrow> ('st, 'o, 'l) authenticated" where
  "login store enc om ls a now w c =
     Authenticate_password (password_authenticator store enc om ls (accounts w) a now) a now w c"

section \<open>The assembled authenticator\<close>

lemma SortStable_unordered: "SortStable (\<lambda>c. unordered) OrderedFirstCompare xs = xs"
proof -
  have "shift_back (\<lambda>a b. OrderedFirstCompare unordered unordered) x acc = x # acc" for x :: 'a and acc
    by (cases acc) (simp_all add: unordered_def order_simps)
  then have "insertion_loop (\<lambda>a b. OrderedFirstCompare unordered unordered) acc xs = rev xs @ acc" for acc
    by (induction xs arbitrary: acc) simp_all
  then show ?thesis by (simp add: SortStable_def SliceStable_def)
qed

lemma sorted_post_processors:
  "SortStable pp_view OrderedFirstCompareReverse (preparePostProcessors store a now) =
     [\<lparr>pp_order = Lowest, Process = AccountStatus_Process store now\<rparr>,
      \<lparr>pp_order = 0, Process = AccountLocking_Process store a now\<rparr>,
      \<lparr>pp_order = Highest + 1, Process = AdditionalDetails_Process\<rparr>,
      \<lparr>pp_order = Highest, Process = PersistAccount_Process store\<rparr>]"
  by (simp add: preparePostProcessors_def SortStable_def SliceStable_def pp_view_def order_simps Lowest_eq Highest_eq)

lemma apply_four:
  "applyPostAuthenticationProcessors [p, q, s, t] r =
     Option.bind (Process p r) (\<lambda>r. Option.bind (Process q r) (\<lambda>r. Option.bind (Process s r) (Process t)))"
proof -
  have "applyPostAuthenticationProcessors [] = (Some :: 'a processing \<Rightarrow> _)" by (rule ext) simp
  then have one: "applyPostAuthenticationProcessors [t] = Process t" by (intro ext) simp
  have two: "applyPostAuthenticationProcessors [s, t] = (\<lambda>r. Option.bind (Process s r) (Process t))"
    by (rule ext) (simp add: one)
  have "applyPostAuthenticationProcessors [q, s, t] =
      (\<lambda>r. Option.bind (Process q r) (\<lambda>r. Option.bind (Process s r) (Process t)))"
    by (rule ext) (simp add: two)
  then show ?thesis by simp
qed

lemma password_authenticator_eq:
  "password_authenticator store enc om ls st a now =
     (build_options store enc om ls st a now)\<lparr>postProcessors :=
        [\<lparr>pp_order = Lowest, Process = AccountStatus_Process store now\<rparr>,
         \<lparr>pp_order = 0, Process = AccountLocking_Process store a now\<rparr>,
         \<lparr>pp_order = Highest + 1, Process = AdditionalDetails_Process\<rparr>,
         \<lparr>pp_order = Highest, Process = PersistAccount_Process store\<rparr>]\<rparr>"
  by (simp add: password_authenticator_def NewAuthenticator_def build_options_def SortStable_unordered
      sorted_post_processors)

definition post_steps :: "'st account_store \<Rightarrow> nat \<Rightarrow> clock \<Rightarrow> 'st processing \<Rightarrow> 'st processing option" where
  "post_steps store a now r =
     Option.bind (AccountStatus_Process store now r) (\<lambda>r.
     Option.bind (AccountLocking_Process store a now r) (\<lambda>r.
     Option.bind (AdditionalDetails_Process r) (PersistAccount_Process store)))"

lemma authenticator_fields [simp]:
  "accountStore (password_authenticator store enc om ls st a now) = store"
  "otpManager (password_authenticator store enc om ls st a now) = om"
  "mfaEventListeners (password_authenticator store enc om ls st a now) = ls"
  "checkers (password_authenticator store enc om ls st a now) = prepareDecisionMakers store st a now"
  "passwdMatches (password_authenticator store enc om ls st a now) = (case enc of None \<Rightarrow> noop_Matches | Some e \<Rightarrow> e)"
  "applyPostAuthenticationProcessors (postProcessors (password_authenticator store enc om ls st a now)) r =
     post_steps store a now r"
  by (simp_all add: password_authenticator_eq build_options_def post_steps_def apply_four
      del: applyPostAuthenticationProcessors.simps)

lemma pre_check [simp]:
  "makeDecision (prepareDecisionMakers store st a now) c acct None =
     AccountStatusChecker_Decide store st a now c acct None"
proof -
  have "\<exists>acct' e. AccountStatusChecker_Decide store st a now c acct None = Some (acct', None, e)"
    by (auto simp: AccountStatusChecker_Decide_def split: option.split prod.split)
  then show ?thesis
    by (auto simp: prepareDecisionMakers_def PreCredentialsCheck_def FinalCheck_def ConditionalDecide_def
        isPreCredentialsCheck_def isFinalStage_def split: option.split)
qed

lemma post_check [simp]:
  "makeDecision (prepareDecisionMakers store st a now) c acct (Some x) =
     (if IsMFAPending x then Some (acct, Some x, None) else PasswordPolicyChecker_Decide store st a now c acct (Some x))"
  by (simp add: prepareDecisionMakers_def PreCredentialsCheck_def FinalCheck_def ConditionalDecide_def
      isPreCredentialsCheck_def isFinalStage_def upa_State_def state_order split: option.split prod.split)

section \<open>Account status\<close>

definition auto_unlocks :: "'st account_store \<Rightarrow> 'st \<Rightarrow> clock \<Rightarrow> account \<Rightarrow> bool" where
  "auto_unlocks store st now u \<longleftrightarrow> is_history u \<and> is_updater u \<and> LockoutTime u \<noteq> 0
     \<and> (\<exists>rules. LoadLockingRules store st u = Inr (Some rules) \<and> LockoutEnabled rules \<and> LockoutDuration rules > 0
          \<and> now AtUnlock > LockoutTime u + LockoutDuration rules)"

definition status_ok :: "'st account_store \<Rightarrow> 'st \<Rightarrow> clock \<Rightarrow> account \<Rightarrow> bool" where
  "status_ok store st now u \<longleftrightarrow> \<not> acct_disabled u \<and> acct_type u \<noteq> AccountTypeFederated
     \<and> (acct_locked u \<longrightarrow> auto_unlocks store st now u)"

lemma unlock_unlocked: "\<not> acct_locked u \<Longrightarrow> UnlockAccount u = u"
  by (simp add: UnlockAccount_def)

lemma auto_unlock_accepts:
  assumes "acct_locked u" and "auto_unlocks store st now u"
  shows "decideAutoUnlock store st a now u = (UnlockAccount u, None)"
proof -
  from assms obtain rules where "is_history u" "is_updater u" "LockoutTime u \<noteq> 0"
      "LoadLockingRules store st u = Inr (Some rules)" "LockoutEnabled rules" "\<not> LockoutDuration rules \<le> 0"
      "now AtUnlock > LockoutTime u + LockoutDuration rules"
    unfolding auto_unlocks_def by (auto simp: not_le)
  with assms(1) show ?thesis by (simp add: decideAutoUnlock_def Time_IsZero_def UnlockAccount_def)
qed

lemma auto_unlock_rejects:
  assumes "acct_locked u" and "\<not> auto_unlocks store st now u"
  shows "decideAutoUnlock store st a now u = (u, Some (NewAccountStatusError a (TextItem MessageAccountLocked) []))"
proof (cases "is_history u \<and> is_updater u \<and> LockoutTime u \<noteq> 0")
  case True
  have late: "\<not> now AtUnlock > LockoutTime u + LockoutDuration rules"
    if "LoadLockingRules store st u = Inr (Some rules)" "LockoutEnabled rules" "\<not> LockoutDuration rules \<le> 0" for rules
    using assms(2) True that unfolding auto_unlocks_def by (simp add: not_le)
  show ?thesis
  proof (cases "LoadLockingRules store st u")
    case (Inr r)
    then show ?thesis
      using True late assms(1) by (cases r) (simp_all add: decideAutoUnlock_def Time_IsZero_def Let_def)
  qed (use True assms(1) in \<open>simp add: decideAutoUnlock_def Time_IsZero_def\<close>)
qed (use assms(1) in \<open>auto simp: decideAutoUnlock_def Time_IsZero_def\<close>)

lemma status_accepts:
  assumes "status_ok store st now u"
  shows "AccountStatusChecker_Decide store st a now c (Some u) auth = Some (Some (UnlockAccount u), auth, None)"
proof (cases "acct_locked u")
  case True
  with assms auto_unlock_accepts [of u store st now a] show ?thesis
    by (simp add: status_ok_def AccountStatusChecker_Decide_def)
next
  case False
  with assms show ?thesis by (simp add: status_ok_def AccountStatusChecker_Decide_def unlock_unlocked)
qed

lemma status_rejects:
  assumes "\<not> status_ok store st now u"
  shows "\<exists>msg. AccountStatusChecker_Decide store st a now c (Some u) auth =
     Some (Some u, auth, Some (NewAccountStatusError a (TextItem msg) []))"
proof (cases "acct_disabled u \<or> acct_type u = AccountTypeFederated")
  case True
  then show ?thesis by (auto simp: AccountStatusChecker_Decide_def)
next
  case False
  with assms auto_unlock_rejects [of u store st now a] show ?thesis
    by (auto simp: status_ok_def AccountStatusChecker_Decide_def)
qed

section \<open>Password policy\<close>

definition policy_ok :: "'st account_store \<Rightarrow> 'st \<Rightarrow> clock \<Rightarrow> account \<Rightarrow> bool" where
  "policy_ok store st now u \<longleftrightarrow>
     (\<forall>policy. is_history u \<and> is_updater u \<and> LoadPwdAgingRules store st u = Inr (Some policy)
        \<and> PwdAgingRuleEnforced policy \<and> PwdMaxAge policy > 0 \<and> PwdChangedTime u + PwdMaxAge policy < now AtPolicy
        \<longrightarrow> GracefulAuthCount u < GracefulAuthLimit policy)"

lemma addWarning_keeps [simp]:
  "Perms (addWarning x v) = Perms x" "Acct (addWarning x v) = Acct x"
  "AuthDetails (addWarning x v) = None \<longleftrightarrow> AuthDetails x = None"
  by (simp_all add: addWarning_def Let_def split: option.split)

definition same_grant :: "usernamePasswordAuthentication \<Rightarrow> usernamePasswordAuthentication \<Rightarrow> bool" where
  "same_grant x y \<longleftrightarrow> Perms x = Perms y \<and> Acct x = Acct y \<and> (AuthDetails x = None \<longleftrightarrow> AuthDetails y = None)"

definition same_status :: "account \<Rightarrow> account \<Rightarrow> bool" where
  "same_status u v \<longleftrightarrow> (\<exists>g. v = u\<lparr>GracefulAuthCount := g\<rparr>)"

lemma same_status_simps [simp]:
  "same_status u u" "same_status u (ResetGracefulAuthCount u)" "same_status u (IncrementGracefulAuthCount u)"
proof -
  show "same_status u u" unfolding same_status_def by (rule exI [of _ "GracefulAuthCount u"]) simp
qed (auto simp: same_status_def account_updates)

lemma same_grant_simps [simp]: "same_grant x x" "same_grant x (addWarning x v)"
  by (simp_all add: same_grant_def)

lemma policy_accepts:
  assumes "policy_ok store st now u"
  shows "\<exists>v y. PasswordPolicyChecker_Decide store st a now c (Some u) (Some x) = Some (Some v, Some y, None)
     \<and> same_grant x y \<and> same_status u v"
proof (cases "is_history u \<and> is_updater u")
  case True
  have grace: "\<not> PwdAgingRuleEnforced policy \<or> PwdMaxAge policy \<le> 0
      \<or> \<not> PwdChangedTime u + PwdMaxAge policy < now AtPolicy \<or> GracefulAuthCount u < GracefulAuthLimit policy"
    if "LoadPwdAgingRules store st u = Inr (Some policy)" for policy
    using assms that True unfolding policy_ok_def by (auto simp: not_le)
  show ?thesis
  proof (cases "LoadPwdAgingRules store st u")
    case (Inr p)
    then show ?thesis
      using True grace
      by (cases p) (auto simp: PasswordPolicyChecker_Decide_def decideExpiredPassword_def decideNonExpiredPassword_def
          Let_def)
  qed (simp add: PasswordPolicyChecker_Decide_def)
qed (auto simp: PasswordPolicyChecker_Decide_def)

lemma policy_rejects:
  assumes "\<not> policy_ok store st now u"
  shows "PasswordPolicyChecker_Decide store st a now c (Some u) (Some x) =
     Some (Some u, Some x, Some (NewCredentialsExpiredError a (TextItem MessagePasswordExpired) []))"
proof -
  from assms obtain policy where "is_history u" "is_updater u" "LoadPwdAgingRules store st u = Inr (Some policy)"
      "PwdAgingRuleEnforced policy" "PwdMaxAge policy > 0" "PwdChangedTime u + PwdMaxAge policy < now AtPolicy"
      "\<not> GracefulAuthCount u < GracefulAuthLimit policy"
    unfolding policy_ok_def by blast
  then show ?thesis by (simp add: PasswordPolicyChecker_Decide_def decideExpiredPassword_def)
qed

section \<open>Errors\<close>

lemma bad_credentials_iff [passwd_simps]:
  "errors_Is (NewBadCredentialsError p v cs) errorBadCredentials"
  "\<not> errors_Is (NewAccountStatusError p v cs) errorBadCredentials"
  "\<not> errors_Is (NewUsernameNotFoundError p v cs) errorBadCredentials"
  "\<not> errors_Is (NewCredentialsExpiredError p v cs) errorBadCredentials"
  "\<not> errors_Is (NewInternalAuthenticationError p v cs) errorBadCredentials"
  by (simp_all add: errorBadCredentials_def ctor_defs error_simps code_values)

lemma security_errors [passwd_simps]:
  "translate_password a (NewAccountStatusError p v cs) = NewAccountStatusError p v cs"
  "translate_password a (NewCredentialsExpiredError p v cs) = NewCredentialsExpiredError p v cs"
  "translate_password a (NewInternalAuthenticationError p v cs) = NewInternalAuthenticationError p v cs"
  by (simp_all add: translate_password_def target_defs ctor_defs error_simps code_values mask_values)

section \<open>Post-processing\<close>

definition saved :: "'st account_store \<Rightarrow> 'st \<Rightarrow> account option \<Rightarrow> 'st" where
  "saved store st acct = (case acct of None \<Rightarrow> st | Some u \<Rightarrow> fst (SaveAccount store st u))"

lemma post_reject:
  assumes "\<not> errors_Is e errorBadCredentials"
  shows "post_steps store a now (st, acct, \<lparr>rCandidate = c, rAuth = auth, rError = Some e\<rparr>) =
    Some (saved store st acct, acct, \<lparr>rCandidate = c, rAuth = auth, rError = Some e\<rparr>)"
  using assms
  by (cases acct) (simp_all add: post_steps_def AccountStatus_Process_def AccountLocking_Process_def
      AdditionalDetails_Process_def PersistAccount_Process_def err_Is_def saved_def)

definition recorded_success :: "clock \<Rightarrow> usernamePasswordAuthentication \<Rightarrow> account \<Rightarrow> account" where
  "recorded_success now x u =
     (if is_updater u \<and> \<not> IsMFAPending x then ResetFailedAttempts (RecordSuccess (now AtSuccess) u) else u)"

lemma post_success:
  assumes "AuthDetails x \<noteq> None"
  shows "\<exists>d. post_steps store a now (st, Some u, \<lparr>rCandidate = c, rAuth = Some x, rError = None\<rparr>) =
    Some (fst (SaveAccount store st (recorded_success now x u)), Some (recorded_success now x u),
      \<lparr>rCandidate = c, rAuth = Some (x\<lparr>AuthDetails := Some d\<rparr>), rError = None\<rparr>)"
proof -
  have s: "AccountStatus_Process store now (st, Some u, \<lparr>rCandidate = c, rAuth = Some x, rError = None\<rparr>) =
      Some (st, Some (recorded_success now x u), \<lparr>rCandidate = c, rAuth = Some x, rError = None\<rparr>)"
    by (simp add: AccountStatus_Process_def recorded_success_def upa_State_def state_order err_Is_def)
  have l: "AccountLocking_Process store a now (st, Some v, \<lparr>rCandidate = c, rAuth = Some x, rError = None\<rparr>) =
      Some (st, Some v, \<lparr>rCandidate = c, rAuth = Some x, rError = None\<rparr>)" for v
    by (simp add: AccountLocking_Process_def err_Is_def)
  obtain d0 where "AuthDetails x = Some d0" using assms by auto
  then obtain d where "AdditionalDetails_Process (st, Some v, \<lparr>rCandidate = c, rAuth = Some x, rError = None\<rparr>) =
      Some (st, Some v, \<lparr>rCandidate = c, rAuth = Some (x\<lparr>AuthDetails := Some d\<rparr>), rError = None\<rparr>)" for v
    by (auto simp: AdditionalDetails_Process_def Let_def)
  with s l show ?thesis by (auto simp: post_steps_def PersistAccount_Process_def)
qed

definition failure_limit :: "'st account_store \<Rightarrow> 'st \<Rightarrow> account \<Rightarrow> int" where
  "failure_limit store st u =
     (case LoadLockingRules store st u of
        Inr (Some rules) \<Rightarrow> if LockoutEnabled rules then LockoutFailuresLimit rules else 5
      | _ \<Rightarrow> 5)"

definition locks :: "'st account_store \<Rightarrow> 'st \<Rightarrow> clock \<Rightarrow> account \<Rightarrow> bool" where
  "locks store st now u =
     (is_history u \<and> (case LoadLockingRules store st u of
        Inr (Some rules) \<Rightarrow> LockoutEnabled rules \<and> count_failures rules (now AtCounting) u \<ge> LockoutFailuresLimit rules
      | _ \<Rightarrow> False))"

lemma RecordFailure_flags:
  "RecordFailure t limit u = Some v \<Longrightarrow> is_updater v = is_updater u \<and> is_history v = is_history u
     \<and> acct_username v = acct_username u \<and> acct_locked v = acct_locked u \<and> LockoutTime v = LockoutTime u"
  by (auto simp: RecordFailure_def Let_def split: if_splits)

lemma post_bad_credentials:
  assumes "errors_Is e errorBadCredentials" and "isPasswordAuth \<lparr>rCandidate = c, rAuth = None, rError = Some e\<rparr>"
    and "is_updater u" and "RecordFailure (now AtFailure) (failure_limit store st u) u = Some v"
  shows "post_steps store a now (st, Some u, \<lparr>rCandidate = c, rAuth = None, rError = Some e\<rparr>) =
    (if locks store st now v then
       Some (fst (SaveAccount store st (LockAccount (now AtLock) v)), Some (LockAccount (now AtLock) v),
         \<lparr>rCandidate = c, rAuth = None,
          rError = Some (NewAccountStatusError a (TextItem MessageLockedDueToBadCredential) [ErrItem e])\<rparr>)
     else Some (fst (SaveAccount store st v), Some v, \<lparr>rCandidate = c, rAuth = None, rError = Some e\<rparr>))"
proof -
  let ?r = "\<lparr>rCandidate = c, rAuth = None, rError = Some e\<rparr> :: auth_result"
  have s: "AccountStatus_Process store now (st, Some u, ?r) = Some (st, Some v, ?r)"
    using assms by (simp add: AccountStatus_Process_def err_Is_def failure_limit_def Let_def)
  have l: "AccountLocking_Process store a now (st, Some v, ?r) =
      (if locks store st now v then
         Some (st, Some (LockAccount (now AtLock) v), ?r\<lparr>rError :=
           Some (NewAccountStatusError a (TextItem MessageLockedDueToBadCredential) [ErrItem e])\<rparr>)
       else Some (st, Some v, ?r))"
    using assms RecordFailure_flags [OF assms(4)]
    by (cases "LoadLockingRules store st v")
      (auto simp: AccountLocking_Process_def err_Is_def locks_def item_of_def isPasswordAuth_def split: option.split)
  show ?thesis by (simp add: post_steps_def s l AdditionalDetails_Process_def PersistAccount_Process_def)
qed

section \<open>Attempts\<close>

definition password_ok :: "(string \<Rightarrow> string \<Rightarrow> bool) option \<Rightarrow> candidate \<Rightarrow> account \<Rightarrow> bool" where
  "password_ok enc c u =
     (case acct_credentials u of
        StringCredentials password \<Rightarrow>
          Username c = acct_username u \<and> (case enc of None \<Rightarrow> noop_Matches | Some e \<Rightarrow> e) (Password c) password
      | _ \<Rightarrow> False)"

definition mfa_required :: "candidate \<Rightarrow> account \<Rightarrow> bool" where
  "mfa_required c u \<longleftrightarrow> EnforceMFA c = MFAModeMust \<or> EnforceMFA c = MFAModeOptional \<and> acct_useMFA u"

definition new_otp :: "'o otp_manager option \<Rightarrow> clock \<Rightarrow> 'o \<Rightarrow> timeBasedOtp option" where
  "new_otp om now os =
     (case om of
        None \<Rightarrow> None
      | Some m \<Rightarrow> (case snd (mgr_New m (\<lambda>i. now (AtOtp i)) os) of Inl e \<Rightarrow> None | Inr otp \<Rightarrow> Some otp))"

text \<open>When the account \<open>u\<close> may log in, and with what permissions.\<close>

definition may_login ::
    "'st account_store \<Rightarrow> (string \<Rightarrow> string \<Rightarrow> bool) option \<Rightarrow> 'o otp_manager option \<Rightarrow> clock \<Rightarrow> ('st, 'o, 'l) world \<Rightarrow>
     candidate \<Rightarrow> account \<Rightarrow> bool" where
  "may_login store enc om now w c u \<longleftrightarrow> status_ok store (accounts w) now u \<and> password_ok enc c u
     \<and> (if mfa_required c u then new_otp om now (otps w) \<noteq> None else policy_ok store (accounts w) now (UnlockAccount u))"

definition granted_permissions :: "'o otp_manager option \<Rightarrow> clock \<Rightarrow> 'o \<Rightarrow> candidate \<Rightarrow> account \<Rightarrow> string \<rightharpoonup> perm_value" where
  "granted_permissions om now os c u =
     (if mfa_required c u then
        [SpecialPermissionMFAPending \<mapsto> PermTrue,
         SpecialPermissionOtpId \<mapsto> PermString (Identifier (the (new_otp om now os)))]
      else (\<lambda>p. if p \<in> set (acct_permissions u) then Some PermTrue else None))"

lemma grant_all_eq: "grant_all ps = (\<lambda>p. if p \<in> set ps then Some PermTrue else None)"
proof -
  have "foldl (\<lambda>m p. m(p \<mapsto> PermTrue)) m ps = (\<lambda>p. if p \<in> set ps then Some PermTrue else m p)" for m
    by (induction ps arbitrary: m) (auto simp: fun_eq_iff)
  then show ?thesis by (simp add: grant_all_def)
qed

lemma unlock_fields [simp]:
  "acct_credentials (UnlockAccount u) = acct_credentials u" "acct_username (UnlockAccount u) = acct_username u"
  "acct_permissions (UnlockAccount u) = acct_permissions u" "acct_useMFA (UnlockAccount u) = acct_useMFA u"
  "LoginFailures (UnlockAccount u) = LoginFailures u" "is_updater (UnlockAccount u) = is_updater u"
  "is_history (UnlockAccount u) = is_history u" "LockoutTime (UnlockAccount u) = LockoutTime u"
  "\<not> acct_locked (UnlockAccount u)"
  by (simp_all add: UnlockAccount_def)

lemma pending_iff:
  assumes "Perms x = granted_permissions om now os c u"
  shows "IsMFAPending x \<longleftrightarrow> mfa_required c u"
  using assms by (simp add: IsMFAPending_def granted_permissions_def SpecialPermissionMFAPending_def SpecialPermissionOtpId_def)

abbreviation the_authenticator where
  "the_authenticator store enc om ls a now w \<equiv> password_authenticator store enc om ls (accounts w) a now"

definition otps_after :: "'o otp_manager option \<Rightarrow> clock \<Rightarrow> 'o \<Rightarrow> candidate \<Rightarrow> account \<Rightarrow> 'o" where
  "otps_after om now os c u = (if mfa_required c u then fst (mgr_New (the om) (\<lambda>i. now (AtOtp i)) os) else os)"

lemma create_success:
  assumes "mfa_required c u \<Longrightarrow> new_otp om now (otps w) \<noteq> None"
  shows "\<exists>w' x. CreateSuccessAuthentication (the_authenticator store enc om ls a now w) a now w c (UnlockAccount u) = (w', Inr x)
    \<and> accounts w' = accounts w \<and> otps w' = otps_after om now (otps w) c u \<and> Perms x = granted_permissions om now (otps w) c u
    \<and> Acct x = CacheableCopy (UnlockAccount u) \<and> AuthDetails x \<noteq> None"
proof (cases "mfa_required c u")
  case True
  with assms obtain m where m: "om = Some m" by (cases om) (auto simp: new_otp_def)
  obtain os r where r: "mgr_New m (\<lambda>i. now (AtOtp i)) (otps w) = (os, r)" by (cases "mgr_New m (\<lambda>i. now (AtOtp i)) (otps w)")
  from True assms m r obtain otp where "r = Inr otp" by (cases r) (auto simp: new_otp_def)
  with True m r show ?thesis
    by (cases "EnforceMFA c") (simp_all add: CreateSuccessAuthentication_def Let_def mfa_required_def
        granted_permissions_def new_otp_def otps_after_def)
next
  case False
  then show ?thesis
    by (cases "EnforceMFA c") (simp_all add: CreateSuccessAuthentication_def Let_def mfa_required_def
        granted_permissions_def grant_all_eq otps_after_def)
qed

lemma create_failure:
  assumes "mfa_required c u" and "new_otp om now (otps w) = None"
  shows "\<exists>w'. CreateSuccessAuthentication (the_authenticator store enc om ls a now w) a now w c (UnlockAccount u) =
      (w', Inl (NewInternalAuthenticationError a (TextItem MessageOtpNotAvailable) [])) \<and> accounts w' = accounts w"
proof (cases om)
  case None
  with assms(1) show ?thesis
    by (cases "EnforceMFA c") (simp_all add: CreateSuccessAuthentication_def Let_def mfa_required_def)
next
  case (Some m)
  obtain os r where r: "mgr_New m (\<lambda>i. now (AtOtp i)) (otps w) = (os, r)" by (cases "mgr_New m (\<lambda>i. now (AtOtp i)) (otps w)")
  with assms(2) Some obtain e where "r = Inl e" by (cases r) (auto simp: new_otp_def)
  with assms(1) Some r show ?thesis
    by (cases "EnforceMFA c") (simp_all add: CreateSuccessAuthentication_def Let_def mfa_required_def)
qed

lemma attempt_granted:
  assumes "LoadAccountByUsername store (accounts w) (Username c) = Inr u" and "may_login store enc om now w c u"
  shows "\<exists>w' v x. password_attempt (the_authenticator store enc om ls a now w) a now w c = Some (w', Some v, Some x, None)
    \<and> accounts w' = accounts w \<and> otps w' = otps_after om now (otps w) c u
    \<and> same_status (UnlockAccount u) v \<and> (mfa_required c u \<longrightarrow> v = UnlockAccount u) \<and> Perms x = granted_permissions om now (otps w) c u
    \<and> Acct x = CacheableCopy (UnlockAccount u) \<and> AuthDetails x \<noteq> None"
proof -
  let ?au = "the_authenticator store enc om ls a now w"
  from assms(2) have st: "status_ok store (accounts w) now u" and pw: "password_ok enc c u"
    and rest: "if mfa_required c u then new_otp om now (otps w) \<noteq> None else policy_ok store (accounts w) now (UnlockAccount u)"
    by (simp_all add: may_login_def)
  obtain w' x where cr: "CreateSuccessAuthentication ?au a now w c (UnlockAccount u) = (w', Inr x)"
      and x: "accounts w' = accounts w" "Perms x = granted_permissions om now (otps w) c u"
        "Acct x = CacheableCopy (UnlockAccount u)" "AuthDetails x \<noteq> None" "otps w' = otps_after om now (otps w) c u"
    using create_success [of c u om now w store enc ls a] rest by (metis (full_types))
  obtain v y where fin: "makeDecision (checkers ?au) c (Some (UnlockAccount u)) (Some x) = Some (Some v, Some y, None)"
      "same_grant x y" "same_status (UnlockAccount u) v" "mfa_required c u \<longrightarrow> v = UnlockAccount u"
  proof (cases "mfa_required c u")
    case True
    with pending_iff [OF x(2)] show ?thesis using that [of "UnlockAccount u" x] by simp
  next
    case False
    with rest have "policy_ok store (accounts w) now (UnlockAccount u)" by simp
    from policy_accepts [OF this, of a c x] that show ?thesis using False pending_iff [OF x(2)] by auto
  qed
  have "password_attempt ?au a now w c = Some (w', Some v, Some y, None)"
    using assms(1) pw cr fin(1) by (simp add: password_attempt_def status_accepts [OF st] password_ok_def split: credential.splits)
  with x fin show ?thesis by (auto simp: same_grant_def)
qed

lemma attempt_status_rejected:
  assumes "LoadAccountByUsername store (accounts w) (Username c) = Inr u" and "\<not> status_ok store (accounts w) now u"
  shows "\<exists>msg. password_attempt (the_authenticator store enc om ls a now w) a now w c =
    Some (w, Some u, None, Some (NewAccountStatusError a (TextItem msg) []))"
  using status_rejects [OF assms(2), of a c None] assms(1) by (auto simp: password_attempt_def passwd_simps)

lemma attempt_bad_password:
  assumes "LoadAccountByUsername store (accounts w) (Username c) = Inr u" and "status_ok store (accounts w) now u"
    and "\<not> password_ok enc c u"
  shows "password_attempt (the_authenticator store enc om ls a now w) a now w c =
    Some (w, Some (UnlockAccount u), None, Some (NewBadCredentialsError a (TextItem MessageBadCredential) []))"
  using assms(1,3)
  by (cases "acct_credentials u") (auto simp: password_attempt_def status_accepts [OF assms(2)] password_ok_def)

lemma attempt_refused:
  assumes "LoadAccountByUsername store (accounts w) (Username c) = Inr u" and "status_ok store (accounts w) now u"
    and "password_ok enc c u" and "\<not> may_login store enc om now w c u"
  shows "\<exists>w' e. password_attempt (the_authenticator store enc om ls a now w) a now w c =
      Some (w', Some (UnlockAccount u), None, Some e)
    \<and> accounts w' = accounts w \<and> \<not> errors_Is e errorBadCredentials"
proof (cases "mfa_required c u")
  case True
  with assms have "new_otp om now (otps w) = None" by (simp add: may_login_def)
  from create_failure [OF True this, of store enc ls a] assms(1,3) show ?thesis
    by (auto simp: password_attempt_def status_accepts [OF assms(2)] password_ok_def passwd_simps split: credential.splits)
next
  case False
  with assms have pol: "\<not> policy_ok store (accounts w) now (UnlockAccount u)" by (simp add: may_login_def)
  from create_success [of c u om now w store enc ls a] False obtain w' x
    where cr: "CreateSuccessAuthentication (the_authenticator store enc om ls a now w) a now w c (UnlockAccount u) = (w', Inr x)"
      and x: "accounts w' = accounts w" "Perms x = granted_permissions om now (otps w) c u" by auto
  have "\<not> IsMFAPending x" using pending_iff [OF x(2)] False by simp
  with cr x(1) policy_rejects [OF pol, of a c x] assms(1,3) show ?thesis
    by (simp add: password_attempt_def status_accepts [OF assms(2)] password_ok_def passwd_simps split: credential.splits)
qed

section \<open>Logins\<close>

lemma login_eq:
  "login store enc om ls a now w (UsernamePasswordPair name pw d m) =
     map_option (\<lambda>(w', acct, auth, err). (w', auth, err))
       (Option.bind (password_attempt (the_authenticator store enc om ls a now w) a now w (UsernamePasswordPair name pw d m))
          (\<lambda>(w', acct, auth, err).
             map_option (\<lambda>(st, acct', r). (w'\<lparr>accounts := st\<rparr>, acct', rAuth r, rError r))
               (post_steps store a now (accounts w', acct,
                  \<lparr>rCandidate = UsernamePasswordPair name pw d m, rAuth = auth, rError = err\<rparr>))))"
  by (simp add: login_def Authenticate_password_def post_process_def)

lemma login_granted:
  assumes "LoadAccountByUsername store (accounts w) name = Inr u"
    and "may_login store enc om now w (UsernamePasswordPair name pw d m) u"
  shows "\<exists>w' x. login store enc om ls a now w (UsernamePasswordPair name pw d m) = Some (w', Some x, None)
    \<and> Perms x = granted_permissions om now (otps w) (UsernamePasswordPair name pw d m) u
    \<and> Acct x = CacheableCopy (UnlockAccount u)
    \<and> otps w' = otps_after om now (otps w) (UsernamePasswordPair name pw d m) u
    \<and> (\<exists>v. same_status (UnlockAccount u) v
         \<and> (mfa_required (UsernamePasswordPair name pw d m) u \<longrightarrow> v = UnlockAccount u)
         \<and> accounts w' = fst (SaveAccount store (accounts w) (recorded_success now x v)))"
proof -
  obtain w' v x where at: "password_attempt (the_authenticator store enc om ls a now w) a now w
        (UsernamePasswordPair name pw d m) = Some (w', Some v, Some x, None)"
      and x: "accounts w' = accounts w" "Perms x = granted_permissions om now (otps w) (UsernamePasswordPair name pw d m) u"
        "Acct x = CacheableCopy (UnlockAccount u)" "AuthDetails x \<noteq> None" "same_status (UnlockAccount u) v"
        "mfa_required (UsernamePasswordPair name pw d m) u \<longrightarrow> v = UnlockAccount u"
        "otps w' = otps_after om now (otps w) (UsernamePasswordPair name pw d m) u"
    using attempt_granted [of store w "UsernamePasswordPair name pw d m" u enc om now ls a] assms by auto
  from post_success [OF x(4), of store a now "accounts w" v "UsernamePasswordPair name pw d m"] obtain d'
    where "post_steps store a now (accounts w, Some v, \<lparr>rCandidate = UsernamePasswordPair name pw d m, rAuth = Some x, rError = None\<rparr>) =
      Some (fst (SaveAccount store (accounts w) (recorded_success now x v)), Some (recorded_success now x v),
        \<lparr>rCandidate = UsernamePasswordPair name pw d m, rAuth = Some (x\<lparr>AuthDetails := Some d'\<rparr>), rError = None\<rparr>)" by blast
  moreover have "recorded_success now (x\<lparr>AuthDetails := Some d'\<rparr>) v = recorded_success now x v"
    by (simp add: recorded_success_def IsMFAPending_def)
  ultimately show ?thesis using at x(1,2,3,5,6,7) by (auto simp: login_eq)
qed

lemma login_rejected:
  assumes "password_attempt (the_authenticator store enc om ls a now w) a now w (UsernamePasswordPair name pw d m) =
      Some (w', acct, None, Some e)"
    and "accounts w' = accounts w" and "\<not> errors_Is e errorBadCredentials"
  shows "login store enc om ls a now w (UsernamePasswordPair name pw d m) =
    Some (w'\<lparr>accounts := saved store (accounts w) acct\<rparr>, None, Some e)"
  using assms by (simp add: login_eq post_reject)

definition after_failure :: "'st account_store \<Rightarrow> 'st \<Rightarrow> clock \<Rightarrow> account \<Rightarrow> account" where
  "after_failure store st now v = (if locks store st now v then LockAccount (now AtLock) v else v)"

lemma post_bad_cases:
  assumes "errors_Is e errorBadCredentials" and "isPasswordAuth \<lparr>rCandidate = c, rAuth = None, rError = Some e\<rparr>"
  shows "post_steps store a now (st, Some u, \<lparr>rCandidate = c, rAuth = None, rError = Some e\<rparr>) =
    (if is_updater u then
       (case RecordFailure (now AtFailure) (failure_limit store st u) u of
          None \<Rightarrow> None
        | Some v \<Rightarrow>
            Some (fst (SaveAccount store st (after_failure store st now v)), Some (after_failure store st now v),
              \<lparr>rCandidate = c, rAuth = None,
               rError = Some (if locks store st now v
                 then NewAccountStatusError a (TextItem MessageLockedDueToBadCredential) [ErrItem e] else e)\<rparr>))
     else Some (fst (SaveAccount store st u), Some u, \<lparr>rCandidate = c, rAuth = None, rError = Some e\<rparr>))"
proof (cases "is_updater u")
  case True
  show ?thesis
  proof (cases "RecordFailure (now AtFailure) (failure_limit store st u) u")
    case None
    with True assms show ?thesis
      by (simp add: post_steps_def AccountStatus_Process_def err_Is_def failure_limit_def Let_def)
  next
    case (Some v)
    with post_bad_credentials [OF assms True, of now store st v a] True show ?thesis
      by (simp add: after_failure_def)
  qed
next
  case False
  then show ?thesis
    by (simp add: post_steps_def AccountStatus_Process_def AccountLocking_Process_def AdditionalDetails_Process_def
        PersistAccount_Process_def)
qed

lemma login_bad_cases:
  assumes "LoadAccountByUsername store (accounts w) name = Inr u" and "status_ok store (accounts w) now u"
    and "\<not> password_ok enc (UsernamePasswordPair name pw d m) u"
  shows "login store enc om ls a now w (UsernamePasswordPair name pw d m) =
    (if is_updater u \<and> RecordFailure (now AtFailure) (failure_limit store (accounts w) (UnlockAccount u)) (UnlockAccount u) = None
     then None
     else
       let v = (if is_updater u then after_failure store (accounts w) now
                  (the (RecordFailure (now AtFailure) (failure_limit store (accounts w) (UnlockAccount u)) (UnlockAccount u)))
                else UnlockAccount u)
       in Some (w\<lparr>accounts := fst (SaveAccount store (accounts w) v)\<rparr>, None,
            Some (if is_updater u \<and> locks store (accounts w) now
                 (the (RecordFailure (now AtFailure) (failure_limit store (accounts w) (UnlockAccount u)) (UnlockAccount u)))
               then NewAccountStatusError a (TextItem MessageLockedDueToBadCredential)
                 [ErrItem (NewBadCredentialsError a (TextItem MessageBadCredential) [])]
               else NewBadCredentialsError a (TextItem MessageBadCredential) [])))"
proof -
  let ?e = "NewBadCredentialsError a (TextItem MessageBadCredential) []"
  let ?c = "UsernamePasswordPair name pw d m"
  have b: "errors_Is ?e errorBadCredentials" by (simp add: passwd_simps)
  have p: "isPasswordAuth \<lparr>rCandidate = ?c, rAuth = None, rError = Some ?e\<rparr>" by (simp add: isPasswordAuth_def)
  from attempt_bad_password [of store w ?c u now enc om ls a] assms
  show ?thesis
    by (cases "RecordFailure (now AtFailure) (failure_limit store (accounts w) (UnlockAccount u)) (UnlockAccount u)")
      (simp_all add: login_eq post_bad_cases [OF b p] Let_def)
qed

lemma login_refused:
  assumes "LoadAccountByUsername store (accounts w) name = Inr u" and "\<not> may_login store enc om now w c u"
    and "c = UsernamePasswordPair name pw d m"
  shows "(\<exists>w' e. login store enc om ls a now w c = Some (w', None, Some e))
    \<or> login store enc om ls a now w c = None \<and> failure_limit store (accounts w) (UnlockAccount u) < 0"
proof (cases "status_ok store (accounts w) now u")
  case st: True
  show ?thesis
  proof (cases "password_ok enc c u")
    case True
    with attempt_refused [of store w c u now enc om ls a] st assms show ?thesis
      by (auto dest!: login_rejected)
  next
    case False
    have "0 \<le> failure_limit store (accounts w) (UnlockAccount u) \<Longrightarrow>
        RecordFailure (now AtFailure) (failure_limit store (accounts w) (UnlockAccount u)) (UnlockAccount u) \<noteq> None"
      by (simp add: RecordFailure_Some)
    with False login_bad_cases [of store w name u now enc pw d m om ls a] st assms show ?thesis
      by (force simp: Let_def split: if_splits)
  qed
next
  case False
  with attempt_status_rejected [of store w c u now enc om ls a] assms show ?thesis
    by (auto dest!: login_rejected simp: passwd_simps)
qed

lemma login_unknown:
  assumes "LoadAccountByUsername store (accounts w) name = Inl e"
  shows "\<exists>w' err. login store enc om ls a now w (UsernamePasswordPair name pw d m) = Some (w', None, Some err)"
proof -
  have at: "password_attempt (the_authenticator store enc om ls a now w) a now w (UsernamePasswordPair name pw d m) =
      Some (w, None, None, Some (NewUsernameNotFoundError a (TextItem MessageUserNotFound) [ErrItem e]))"
    using assms by (simp add: password_attempt_def)
  from login_rejected [OF at] show ?thesis by (simp add: passwd_simps)
qed

text \<open>C3: A login with user name and password is granted exactly when the account exists, is neither disabled nor
  federated, is not locked or its lockout time has passed, the password matches, and then a passcode
  could be issued if a second factor is required, or the password policy allows the login if not. The
  authentication never carries the credentials. With a second factor it is not fully authenticated and
  has none of the permissions of the account; without, it has exactly these.\<close>

theorem password_login:
  assumes "login store enc om ls a now w c = Some (w', auth, err)" and "c = UsernamePasswordPair name pw d m"
  shows "(err = None \<longleftrightarrow> (\<exists>u. LoadAccountByUsername store (accounts w) name = Inr u \<and> may_login store enc om now w c u))
    \<and> (auth = None \<longleftrightarrow> err \<noteq> None)
    \<and> (\<forall>u x. LoadAccountByUsername store (accounts w) name = Inr u \<and> auth = Some x \<longrightarrow>
         acct_username (Acct x) = acct_username u \<and> acct_credentials (Acct x) = NilCredentials
         \<and> Perms x = granted_permissions om now (otps w) c u
         \<and> upa_State x = (if mfa_required c u then StatePrincipalKnown else StateAuthenticated))"
proof (cases "LoadAccountByUsername store (accounts w) name")
  case (Inl e)
  with login_unknown [of store w name e enc om ls a now pw d m] assms show ?thesis by auto
next
  case (Inr u)
  show ?thesis
  proof (cases "may_login store enc om now w c u")
    case True
    from login_granted [of store w name u enc om now pw d m ls a] Inr True assms
    have x: "err = None" "auth \<noteq> None" "\<forall>x. auth = Some x \<longrightarrow> Perms x = granted_permissions om now (otps w) c u
        \<and> Acct x = CacheableCopy (UnlockAccount u)" by auto
    then have "upa_State x = (if mfa_required c u then StatePrincipalKnown else StateAuthenticated)" if "auth = Some x" for x
      using that pending_iff [of x om now "otps w" c u] by (simp add: upa_State_def)
    with x Inr True show ?thesis by (auto simp: CacheableCopy_def)
  next
    case False
    with login_refused [OF Inr False assms(2), of ls a] assms(1) Inr show ?thesis by auto
  qed
qed

text \<open>An account store in memory, with one locking rule and one password policy for all accounts.\<close>

definition map_store :: "locking_rule \<Rightarrow> pwd_aging_rule option \<Rightarrow> (string \<rightharpoonup> account) account_store" where
  "map_store rule pol =
     \<lparr>LoadAccountByUsername = (\<lambda>st name. case st name of Some u \<Rightarrow> Inr u | None \<Rightarrow> Inl (PlainError 0 ''not found'')),
      LoadLockingRules = (\<lambda>st u. Inr (Some rule)), LoadPwdAgingRules = (\<lambda>st u. Inr pol),
      SaveAccount = (\<lambda>st u. (st(acct_username u \<mapsto> u), None))\<rparr>"

definition sample_rule :: locking_rule where
  "sample_rule = \<lparr>LockoutEnabled = True, LockoutDuration = 100, LockoutFailuresLimit = 2, LockoutFailuresInterval = 50\<rparr>"

definition sample_world :: "(string \<rightharpoonup> account, unit, unit) world" where
  "sample_world = \<lparr>accounts = [''joe'' \<mapsto> sample_account], otps = (), listened = ()\<rparr>"

theorem password_login_witness:
  "\<exists>w' x. login (map_store sample_rule None) None None [] 0 (\<lambda>_. 10) sample_world
       (UsernamePasswordPair ''joe'' ''secret'' None MFAModeSkip) = Some (w', Some x, None)
     \<and> Perms x = [''read'' \<mapsto> PermTrue] \<and> upa_State x = StateAuthenticated"
proof -
  let ?c = "UsernamePasswordPair ''joe'' ''secret'' None MFAModeSkip"
  have load: "LoadAccountByUsername (map_store sample_rule None) (accounts sample_world) ''joe'' = Inr sample_account"
    by (simp add: map_store_def sample_world_def)
  have mfa: "\<not> mfa_required ?c sample_account" by (simp add: mfa_required_def)
  have may: "may_login (map_store sample_rule None) None (None :: unit otp_manager option) (\<lambda>_. 10) sample_world ?c sample_account"
    using mfa by (simp add: may_login_def status_ok_def password_ok_def policy_ok_def map_store_def sample_account_def noop_Matches_def)
  from login_granted [OF load may, of "[]" 0] obtain w' x
    where l: "login (map_store sample_rule None) None None [] 0 (\<lambda>_. 10) sample_world ?c = Some (w', Some x, None)" by blast
  from password_login [OF l refl] load mfa
  have "Perms x = granted_permissions None (\<lambda>_. 10) (otps sample_world) ?c sample_account" "upa_State x = StateAuthenticated"
    by auto
  moreover have "granted_permissions None (\<lambda>_. 10) (otps sample_world) ?c sample_account = [''read'' \<mapsto> PermTrue]"
    using mfa by (auto simp: granted_permissions_def sample_account_def fun_eq_iff)
  ultimately show ?thesis using l by auto
qed



end
