(* ===== verification/Lockout.thy ===== *)
theory Lockout
  imports Passwd_Login
begin

text \<open>
  Account lockout over sequences of logins: failures up to the limit within the interval lock the account, a
  locked account rejects every login until the lockout time has passed, and then unlocks by itself.
  The documented behaviour of the account store used here is that it returns what was saved.
\<close>

definition account_docs :: "'st account_store \<Rightarrow> ('st \<Rightarrow> string \<rightharpoonup> account) \<Rightarrow> locking_rule \<Rightarrow> bool" where
  "account_docs store contents rule \<longleftrightarrow>
     (\<forall>st name u. contents st name = Some u \<longrightarrow> LoadAccountByUsername store st name = Inr u)
   \<and> (\<forall>st u. contents (fst (SaveAccount store st u)) = (contents st)(acct_username u \<mapsto> u))
   \<and> (\<forall>st u. LoadLockingRules store st u = Inr (Some rule))"

lemma map_store_docs: "account_docs (map_store rule pol) (\<lambda>st. st) rule"
  by (simp add: account_docs_def map_store_def)

type_synonym login_event = "clock \<times> candidate"

fun login_run ::
    "'st account_store \<Rightarrow> (string \<Rightarrow> string \<Rightarrow> bool) option \<Rightarrow> 'o otp_manager option \<Rightarrow> 'l listener list \<Rightarrow> nat \<Rightarrow>
     login_event list \<Rightarrow> ('st, 'o, 'l) world \<Rightarrow>
     (('st, 'o, 'l) world \<times> (usernamePasswordAuthentication option \<times> goerr option) list) option" where
  "login_run store enc om ls a [] w = Some (w, [])"
| "login_run store enc om ls a ((now, c) # evs) w =
     Option.bind (login store enc om ls a now w c) (\<lambda>(w', auth, err).
       map_option (\<lambda>(w'', rs). (w'', (auth, err) # rs)) (login_run store enc om ls a evs w'))"

section \<open>One failure\<close>

definition counted :: "locking_rule \<Rightarrow> time \<Rightarrow> account \<Rightarrow> nat" where
  "counted rule now u =
     length (filter (\<lambda>t. now - t \<le> LockoutFailuresInterval rule \<and> t > LockoutTime u) (LoginFailures u))"

lemma count_failures_eq: "count_failures rule now u = int (counted rule now u)"
proof -
  have "foldl (\<lambda>count t. if P t then count + 1 else count) k ts = k + int (length (filter P ts))" for P k and ts :: "time list"
    by (induction ts arbitrary: k) auto
  then show ?thesis by (simp add: count_failures_def counted_def)
qed

lemma locks_docs:
  assumes "account_docs store contents rule" and "is_history u" and "LockoutEnabled rule"
  shows "locks store st now u \<longleftrightarrow> LockoutFailuresLimit rule \<le> int (counted rule (now AtCounting) u)"
  using assms by (simp add: locks_def account_docs_def count_failures_eq)

definition open_account :: "string \<Rightarrow> account \<Rightarrow> bool" where
  "open_account name u \<longleftrightarrow> acct_username u = name \<and> is_updater u \<and> is_history u \<and> \<not> acct_disabled u
     \<and> acct_type u \<noteq> AccountTypeFederated \<and> \<not> acct_locked u"

definition with_failures :: "time list \<Rightarrow> account \<Rightarrow> account" where
  "with_failures ts u = u\<lparr>LoginFailures := ts, SerialFailedAttempts := int (length ts)\<rparr>"

lemma with_failures_simps [simp]:
  "LoginFailures (with_failures ts u) = ts" "LockoutTime (with_failures ts u) = LockoutTime u"
  "acct_username (with_failures ts u) = acct_username u" "is_history (with_failures ts u) = is_history u"
  "acct_locked (with_failures ts u) = acct_locked u"
  "open_account name (with_failures ts u) = open_account name u"
  "password_ok enc c (with_failures ts u) = password_ok enc c u"
  "with_failures ts (with_failures ss u) = with_failures ts u"
  by (simp_all add: with_failures_def open_account_def password_ok_def split: credential.split)

lemma wrong_password_step:
  fixes now :: clock
  assumes docs: "account_docs store contents rule" and rule: "LockoutEnabled rule" "LockoutFailuresLimit rule = int n"
    and u: "contents (accounts w) name = Some u" "open_account name u" "length (LoginFailures u) < n"
    and wrong: "\<not> password_ok enc (UsernamePasswordPair name pw d m) u"
  defines "v \<equiv> with_failures (LoginFailures u @ [now AtFailure]) u"
  defines "v' \<equiv> (if n \<le> counted rule (now AtCounting) v then LockAccount (now AtLock) v else v)"
  shows "\<exists>w' e. login store enc om ls a now w (UsernamePasswordPair name pw d m) = Some (w', None, Some e)
    \<and> contents (accounts w') = (contents (accounts w))(name \<mapsto> v')"
proof -
  have load: "LoadAccountByUsername store (accounts w) name = Inr u" using docs u(1) by (simp add: account_docs_def)
  have ok: "status_ok store (accounts w) now u" using u(2) by (simp add: status_ok_def open_account_def)
  have un: "UnlockAccount u = u" using u(2) by (simp add: unlock_unlocked open_account_def)
  have lim: "failure_limit store (accounts w) u = int n" using docs rule by (simp add: failure_limit_def account_docs_def)
  have "RecordFailure (now AtFailure) (int n) u = Some v"
    using u(3) by (simp add: RecordFailure_Some v_def with_failures_def)
  moreover have "locks store (accounts w) now v \<longleftrightarrow> n \<le> counted rule (now AtCounting) v"
    using locks_docs [OF docs] rule u(2) by (simp add: v_def open_account_def)
  moreover have "acct_username v' = name"
    using u(2) by (simp add: v'_def v_def open_account_def LockAccount_def Let_def)
  ultimately show ?thesis
    using login_bad_cases [OF load ok wrong, of om ls a] un lim u(2) docs
    by (auto simp: Let_def open_account_def after_failure_def v'_def account_docs_def)
qed

section \<open>Sequences\<close>

definition wrong_logins :: "(string \<Rightarrow> string \<Rightarrow> bool) option \<Rightarrow> string \<Rightarrow> account \<Rightarrow> login_event list \<Rightarrow> bool" where
  "wrong_logins enc name u evs \<longleftrightarrow>
     (\<forall>(now, c) \<in> set evs. \<exists>pw d m. c = UsernamePasswordPair name pw d m \<and> \<not> password_ok enc c u)"

text \<open>All failures, past and future, fall into one interval after the last lockout.\<close>

definition burst :: "locking_rule \<Rightarrow> account \<Rightarrow> login_event list \<Rightarrow> bool" where
  "burst rule u evs \<longleftrightarrow>
     (\<forall>t \<in> set (LoginFailures u) \<union> {now AtFailure |now c. (now, c) \<in> set evs}. LockoutTime u < t
        \<and> (\<forall>(now, c) \<in> set evs. now AtCounting - t \<le> LockoutFailuresInterval rule))"

lemma burst_step:
  assumes "burst rule u ((now, c) # evs)"
  shows "burst rule (with_failures (LoginFailures u @ [now AtFailure]) u) evs"
    and "counted rule (now AtCounting) (with_failures (LoginFailures u @ [now AtFailure]) u) = Suc (length (LoginFailures u))"
proof -
  show "burst rule (with_failures (LoginFailures u @ [now AtFailure]) u) evs"
    using assms by (auto simp: burst_def)
  have "filter (\<lambda>t. now AtCounting - t \<le> LockoutFailuresInterval rule \<and> LockoutTime u < t) (LoginFailures u @ [now AtFailure]) =
      LoginFailures u @ [now AtFailure]"
    by (rule filter_True) (use assms in \<open>auto simp: burst_def\<close>)
  then show "counted rule (now AtCounting) (with_failures (LoginFailures u @ [now AtFailure]) u) = Suc (length (LoginFailures u))"
    by (simp add: counted_def)
qed

lemma lockout_run:
  assumes docs: "account_docs store contents rule" and rule: "LockoutEnabled rule" "LockoutFailuresLimit rule = int n"
  shows "contents (accounts w) name = Some u \<Longrightarrow> open_account name u \<Longrightarrow> evs \<noteq> [] \<Longrightarrow>
    length (LoginFailures u) + length evs \<le> n \<Longrightarrow> wrong_logins enc name u evs \<Longrightarrow> burst rule u evs \<Longrightarrow>
    \<exists>w' rs v. login_run store enc om ls a evs w = Some (w', rs) \<and> list_all (\<lambda>(auth, err). auth = None \<and> err \<noteq> None) rs
      \<and> contents (accounts w') name = Some v
      \<and> (if length (LoginFailures u) + length evs = n
         then acct_locked v \<and> LockoutTime v = fst (last evs) AtLock \<and> v\<lparr>acct_locked := False, LockoutTime := LockoutTime u\<rparr> =
           with_failures (LoginFailures u @ map (\<lambda>(now, c). now AtFailure) evs) u
         else v = with_failures (LoginFailures u @ map (\<lambda>(now, c). now AtFailure) evs) u)"
proof (induction evs arbitrary: w u)
  case (Cons ev evs)
  obtain now c where ev: "ev = (now, c)" by (cases ev)
  from Cons.prems(5) ev obtain pw d m where c: "c = UsernamePasswordPair name pw d m" "\<not> password_ok enc c u"
    by (auto simp: wrong_logins_def)
  let ?v = "with_failures (LoginFailures u @ [now AtFailure]) u"
  note burst = burst_step [OF Cons.prems(6) [unfolded ev]]
  have len: "length (LoginFailures u) < n" using Cons.prems(4) by simp
  from wrong_password_step [OF docs rule Cons.prems(1,2) len c(2) [unfolded c(1)], where now = now and om = om and ls = ls and a = a] burst(2)
  obtain w' e where l: "login store enc om ls a now w c = Some (w', None, Some e)"
    and w': "contents (accounts w') name = Some (if n \<le> Suc (length (LoginFailures u)) then LockAccount (now AtLock) ?v else ?v)"
    by (auto simp: c(1))
  show ?case
  proof (cases "evs = []")
    case True
    then show ?thesis
      using l w' Cons.prems(2,4) by (auto simp: ev LockAccount_def open_account_def Let_def with_failures_def)
  next
    case False
    then have "length (LoginFailures u) + 1 < n" using Cons.prems(4) by (cases evs) auto
    then have w'v: "contents (accounts w') name = Some ?v" using w' by simp
    have wrong: "wrong_logins enc name ?v evs" using Cons.prems(5) by (auto simp: wrong_logins_def)
    from Cons.IH [OF w'v _ False _ wrong burst(1)] Cons.prems(2,4)
    obtain w'' rs v where "login_run store enc om ls a evs w' = Some (w'', rs)"
        "list_all (\<lambda>(auth, err). auth = None \<and> err \<noteq> None) rs" "contents (accounts w'') name = Some v"
        "if length (LoginFailures ?v) + length evs = n
         then acct_locked v \<and> LockoutTime v = fst (last evs) AtLock \<and> v\<lparr>acct_locked := False, LockoutTime := LockoutTime ?v\<rparr> =
           with_failures (LoginFailures ?v @ map (\<lambda>(now, c). now AtFailure) evs) ?v
         else v = with_failures (LoginFailures ?v @ map (\<lambda>(now, c). now AtFailure) evs) ?v"
      by auto
    with l False show ?thesis by (auto simp: ev)
  qed
qed simp

lemma locked_login:
  assumes docs: "account_docs store contents rule" and "contents (accounts w) name = Some u" and "acct_locked u"
    and "now AtUnlock \<le> LockoutTime u + LockoutDuration rule"
  shows "\<exists>w' e. login store enc om ls a now w (UsernamePasswordPair name pw d m) = Some (w', None, Some e)
    \<and> contents (accounts w') = (contents (accounts w))(acct_username u \<mapsto> u)"
proof -
  have load: "LoadAccountByUsername store (accounts w) name = Inr u" using assms by (simp add: account_docs_def)
  have "\<not> status_ok store (accounts w) now u"
    using assms by (auto simp: status_ok_def auto_unlocks_def account_docs_def)
  from attempt_status_rejected [of store w "UsernamePasswordPair name pw d m" u now enc om ls a, OF _ this] load obtain msg
    where "password_attempt (the_authenticator store enc om ls a now w) a now w (UsernamePasswordPair name pw d m) =
      Some (w, Some u, None, Some (NewAccountStatusError a (TextItem msg) []))" by auto
  from login_rejected [OF this] docs show ?thesis by (simp add: passwd_simps saved_def account_docs_def)
qed

section \<open>Properties\<close>

text \<open>C6: As many logins with a wrong password as the locking rule allows, within its interval and after the last
  lockout, are all rejected and lock the account, and fewer do not lock it. From then on every login is
  rejected, with the right password too, until the lockout duration has passed.\<close>

theorem lockout_after_failures:
  assumes "account_docs store contents rule" and "LockoutEnabled rule" and "LockoutFailuresLimit rule = int (length evs)"
    and "evs \<noteq> []" and "contents (accounts w) name = Some u" and "open_account name u" and "LoginFailures u = []"
    and "wrong_logins enc name u evs" and "burst rule u evs"
  shows "\<exists>w' rs v. login_run store enc om ls a evs w = Some (w', rs)
    \<and> list_all (\<lambda>(auth, err). auth = None \<and> err \<noteq> None) rs
    \<and> contents (accounts w') name = Some v \<and> acct_locked v \<and> LockoutTime v = fst (last evs) AtLock
    \<and> (\<forall>now pw d m. now AtUnlock \<le> fst (last evs) AtLock + LockoutDuration rule \<longrightarrow>
         (\<exists>w'' e. login store enc om ls a now w' (UsernamePasswordPair name pw d m) = Some (w'', None, Some e)))
    \<and> (\<forall>k < length evs. \<exists>w'' rs' v'. login_run store enc om ls a (take k evs) w = Some (w'', rs')
         \<and> contents (accounts w'') name = Some v' \<and> \<not> acct_locked v')"
proof -
  note run = lockout_run [OF assms(1,2,3,5,6), where enc = enc and om = om and ls = ls and a = a]
  from run [of evs] assms(4,7,8,9) obtain w' rs v where w': "login_run store enc om ls a evs w = Some (w', rs)"
      "list_all (\<lambda>(auth, err). auth = None \<and> err \<noteq> None) rs" "contents (accounts w') name = Some v"
      "acct_locked v" "LockoutTime v = fst (last evs) AtLock" by auto
  have locked: "\<exists>w'' e. login store enc om ls a now w' (UsernamePasswordPair name pw d m) = Some (w'', None, Some e)"
    if "now AtUnlock \<le> fst (last evs) AtLock + LockoutDuration rule" for now pw d m
    using locked_login [OF assms(1) w'(3,4), of now enc om ls a pw d m] that w'(5) by auto
  have unlocked: "\<exists>w'' rs' v'. login_run store enc om ls a (take k evs) w = Some (w'', rs')
      \<and> contents (accounts w'') name = Some v' \<and> \<not> acct_locked v'" if k: "k < length evs" for k
  proof (cases "take k evs = []")
    case True
    show ?thesis unfolding True using assms(5,6) by (simp add: open_account_def)
  next
    case False
    have "wrong_logins enc name u (take k evs)" using assms(8) by (auto simp: wrong_logins_def dest: in_set_takeD)
    moreover have "burst rule u (take k evs)" using assms(9) unfolding burst_def by (fastforce dest: in_set_takeD)
    ultimately show ?thesis
      using run [of "take k evs"] False k assms(6,7) by (auto simp: open_account_def)
  qed
  show ?thesis using w' locked unlocked by blast
qed

theorem lockout_after_failures_witness:
  "\<exists>w' rs v. login_run (map_store sample_rule None) None None [] 0
      [(\<lambda>_. 10, UsernamePasswordPair ''joe'' ''x'' None MFAModeSkip), (\<lambda>_. 20, UsernamePasswordPair ''joe'' ''y'' None MFAModeSkip)]
      sample_world = Some (w', rs) \<and> accounts w' ''joe'' = Some v \<and> acct_locked v \<and> LockoutTime v = 20
    \<and> (\<exists>w'' e. login (map_store sample_rule None) None None [] 0 (\<lambda>_. 120) w'
         (UsernamePasswordPair ''joe'' ''secret'' None MFAModeSkip) = Some (w'', None, Some e))"
proof -
  let ?evs = "[(\<lambda>_. 10, UsernamePasswordPair ''joe'' ''x'' None MFAModeSkip),
    (\<lambda>_. 20, UsernamePasswordPair ''joe'' ''y'' None MFAModeSkip)] :: login_event list"
  have "LockoutEnabled sample_rule" "LockoutFailuresLimit sample_rule = int (length ?evs)" "?evs \<noteq> []"
      "accounts sample_world ''joe'' = Some sample_account" "open_account ''joe'' sample_account"
      "LoginFailures sample_account = []" "wrong_logins None ''joe'' sample_account ?evs" "burst sample_rule sample_account ?evs"
    by (auto simp: sample_rule_def sample_world_def sample_account_def open_account_def wrong_logins_def burst_def
        password_ok_def noop_Matches_def)
  from lockout_after_failures [where contents = "\<lambda>st. st" and w = sample_world and om = None and ls = "[]" and a = 0,
      OF map_store_docs [of sample_rule None] this] obtain w' rs v
    where w': "login_run (map_store sample_rule None) None None [] 0 ?evs sample_world = Some (w', rs)"
      "accounts w' ''joe'' = Some v" "acct_locked v" "LockoutTime v = 20"
      and l: "\<And>now pw d m. now AtUnlock \<le> 20 + LockoutDuration sample_rule \<Longrightarrow>
        \<exists>w'' e. login (map_store sample_rule None) None None [] 0 now w' (UsernamePasswordPair ''joe'' pw d m) = Some (w'', None, Some e)"
    by auto
  from l [of "\<lambda>_. 120" "''secret''" None MFAModeSkip] w' show ?thesis by (auto simp: sample_rule_def)
qed



end
