(* ===== verification/Mfa.thy ===== *)
theory Mfa
  imports Lockout
begin

text \<open>
  Second factor: what the passcode authenticator grants, and a login with password and passcode through the
  real passcode manager. \<open>verify_login\<close> and \<open>refresh_login\<close> are calls of the assembled authenticators.
\<close>

definition verify_login ::
    "'st account_store \<Rightarrow> (string \<Rightarrow> string \<Rightarrow> bool) option \<Rightarrow> 'o otp_manager \<Rightarrow> 'l listener list \<Rightarrow> nat \<Rightarrow>
     clock \<Rightarrow> ('st, 'o, 'l) world \<Rightarrow> candidate \<Rightarrow> ('st, 'o, 'l) authenticated" where
  "verify_login store enc om ls a now w c =
     Authenticate_verify (password_authenticator store enc (Some om) ls (accounts w) a now) om a now w c"

definition refresh_login ::
    "'st account_store \<Rightarrow> (string \<Rightarrow> string \<Rightarrow> bool) option \<Rightarrow> 'o otp_manager \<Rightarrow> 'l listener list \<Rightarrow> nat \<Rightarrow>
     clock \<Rightarrow> ('st, 'o, 'l) world \<Rightarrow> candidate \<Rightarrow> ('st, 'o, 'l) authenticated" where
  "refresh_login store enc om ls a now w c =
     Authenticate_refresh (password_authenticator store enc (Some om) ls (accounts w) a now) om a now w c"

section \<open>Passcode attempts\<close>

lemma post_reject_otp:
  assumes "\<not> isPasswordAuth \<lparr>rCandidate = c, rAuth = None, rError = Some e\<rparr>"
  shows "post_steps store a now (st, acct, \<lparr>rCandidate = c, rAuth = None, rError = Some e\<rparr>) =
    Some (saved store st acct, acct, \<lparr>rCandidate = c, rAuth = None, rError = Some e\<rparr>)"
  using assms
  by (cases acct) (simp_all add: post_steps_def AccountStatus_Process_def AccountLocking_Process_def
      AdditionalDetails_Process_def PersistAccount_Process_def isPasswordAuth_def saved_def)

definition verified :: "'o otp_manager \<Rightarrow> clock \<Rightarrow> 'o \<Rightarrow> string \<Rightarrow> string \<Rightarrow> bool" where
  "verified om now os ident passcode \<longleftrightarrow> snd (snd (snd (mgr_Verify om (\<lambda>i. now (AtOtp i)) os ident passcode))) = None"

abbreviation verify_attempt where
  "verify_attempt store enc om ls a now w cur passcode \<equiv>
     otp_attempt (password_authenticator store enc (Some om) ls (accounts w) a now) a w (MFAOtpVerification cur passcode) cur
       translate_verify (\<lambda>os ident. mgr_Verify om (\<lambda>i. now (AtOtp i)) os ident passcode)
       (Some MFAEventVerificationFailure) MFAEventVerificationSuccess (CreateVerifiedAuthentication now)"

lemma verified_not_pending: "\<not> IsMFAPending (CreateVerifiedAuthentication now x u)"
  by (simp add: IsMFAPending_def CreateVerifiedAuthentication_def grant_all_eq)

definition may_verify ::
    "'st account_store \<Rightarrow> 'o otp_manager \<Rightarrow> clock \<Rightarrow> ('st, 'o, 'l) world \<Rightarrow> usernamePasswordAuthentication \<Rightarrow> string \<Rightarrow>
     account \<Rightarrow> bool" where
  "may_verify store om now w x passcode u \<longleftrightarrow> LoadAccountByUsername store (accounts w) (upa_Username x) = Inr u
     \<and> status_ok store (accounts w) now u \<and> verified om now (otps w) (OTPIdentifier x) passcode
     \<and> policy_ok store (accounts w) now (UnlockAccount u)"

lemma verify_attempt_accepts:
  assumes "may_verify store om now w x passcode u"
  shows "\<exists>w' v y. verify_attempt store enc om ls a now w (Some x) passcode = Some (w', Some v, Some y, None)
    \<and> accounts w' = accounts w \<and> same_status (UnlockAccount u) v
    \<and> same_grant (CreateVerifiedAuthentication now x (UnlockAccount u)) y"
proof -
  have load: "LoadAccountByUsername store (accounts w) (upa_Username x) = Inr u" and st: "status_ok store (accounts w) now u"
    and ver: "verified om now (otps w) (OTPIdentifier x) passcode"
    and pol: "policy_ok store (accounts w) now (UnlockAccount u)"
    using assms by (simp_all add: may_verify_def)
  obtain os otp ch where o: "mgr_Verify om (\<lambda>i. now (AtOtp i)) (otps w) (OTPIdentifier x) passcode = (os, otp, ch, None)"
    using ver by (cases "mgr_Verify om (\<lambda>i. now (AtOtp i)) (otps w) (OTPIdentifier x) passcode") (auto simp: verified_def)
  from policy_accepts [OF pol, of a "MFAOtpVerification (Some x) passcode" "CreateVerifiedAuthentication now x (UnlockAccount u)"]
  show ?thesis
    using load o verified_not_pending [of now x "UnlockAccount u"]
    by (auto simp: otp_attempt_def checkCurrentAuth_def status_accepts [OF st] Let_def)
qed

lemma verify_attempt_rejects:
  assumes "\<And>x u. cur = Some x \<Longrightarrow> \<not> may_verify store om now w x passcode u"
  shows "\<exists>w' acct e. verify_attempt store enc om ls a now w cur passcode = Some (w', acct, None, Some e) \<and> accounts w' = accounts w
    \<and> (\<forall>v. acct = Some v \<longrightarrow> (\<exists>u. (v = u \<or> v = UnlockAccount u)
         \<and> (\<exists>x. cur = Some x \<and> LoadAccountByUsername store (accounts w) (upa_Username x) = Inr u)))"
proof (cases cur)
  case None
  then show ?thesis by (simp add: otp_attempt_def checkCurrentAuth_def)
next
  case (Some x)
  show ?thesis
  proof (cases "LoadAccountByUsername store (accounts w) (upa_Username x)")
    case (Inl e)
    with Some show ?thesis by (simp add: otp_attempt_def checkCurrentAuth_def)
  next
    case (Inr u)
    obtain os otp ch err where o: "mgr_Verify om (\<lambda>i. now (AtOtp i)) (otps w) (OTPIdentifier x) passcode = (os, otp, ch, err)"
      by (cases "mgr_Verify om (\<lambda>i. now (AtOtp i)) (otps w) (OTPIdentifier x) passcode") auto
    consider "\<not> status_ok store (accounts w) now u" | e where "status_ok store (accounts w) now u" "err = Some e"
      | "status_ok store (accounts w) now u" "err = None" "\<not> policy_ok store (accounts w) now (UnlockAccount u)"
      using assms [OF Some, of u] Inr o by (cases err) (auto simp: may_verify_def verified_def)
    then show ?thesis
    proof cases
      case 1
      from status_rejects [OF 1, of a "MFAOtpVerification cur passcode" None] Some Inr show ?thesis
        by (auto simp: otp_attempt_def checkCurrentAuth_def)
    next
      case 2
      with Some Inr o show ?thesis
        by (auto simp: otp_attempt_def checkCurrentAuth_def status_accepts [OF 2(1)] Let_def)
    next
      case 3
      from policy_rejects [OF 3(3), of a "MFAOtpVerification cur passcode" "CreateVerifiedAuthentication now x (UnlockAccount u)"]
        3 Some Inr o verified_not_pending [of now x "UnlockAccount u"] show ?thesis
        by (auto simp: otp_attempt_def checkCurrentAuth_def status_accepts [OF 3(1)] Let_def)
    qed
  qed
qed

lemma verify_login_eq:
  "verify_login store enc om ls a now w (MFAOtpVerification cur passcode) =
     map_option (\<lambda>(w', acct, auth, err).
         (w', (case acct of None \<Rightarrow> auth | Some u \<Rightarrow> map_option (\<lambda>x. x\<lparr>Acct := u\<rparr>) auth), err))
       (Option.bind (verify_attempt store enc om ls a now w cur passcode)
          (\<lambda>(w', acct, auth, err).
             map_option (\<lambda>(st, acct', r). (w'\<lparr>accounts := st\<rparr>, acct', rAuth r, rError r))
               (post_steps store a now (accounts w', acct,
                  \<lparr>rCandidate = MFAOtpVerification cur passcode, rAuth = auth, rError = err\<rparr>))))"
  by (simp add: verify_login_def Authenticate_verify_def post_process_def)

lemma verify_login_accepts:
  assumes "may_verify store om now w x passcode u"
  shows "\<exists>w' y. verify_login store enc om ls a now w (MFAOtpVerification (Some x) passcode) = Some (w', Some y, None)
    \<and> Perms y = grant_all (acct_permissions u) \<and> upa_State y = StateAuthenticated
    \<and> acct_username (Acct y) = acct_username u \<and> acct_credentials (Acct y) = acct_credentials u"
proof -
  from verify_attempt_accepts [OF assms, of enc ls a] obtain w' v y
    where at: "verify_attempt store enc om ls a now w (Some x) passcode = Some (w', Some v, Some y, None)"
      and w': "accounts w' = accounts w" and v: "same_status (UnlockAccount u) v"
      and y: "same_grant (CreateVerifiedAuthentication now x (UnlockAccount u)) y" by blast
  have y': "AuthDetails y \<noteq> None" "Perms y = grant_all (acct_permissions u)"
    using y by (auto simp: same_grant_def CreateVerifiedAuthentication_def Let_def)
  from post_success [OF y'(1), of store a now "accounts w" v "MFAOtpVerification (Some x) passcode"] obtain d
    where "post_steps store a now (accounts w, Some v, \<lparr>rCandidate = MFAOtpVerification (Some x) passcode, rAuth = Some y, rError = None\<rparr>) =
      Some (fst (SaveAccount store (accounts w) (recorded_success now y v)), Some (recorded_success now y v),
        \<lparr>rCandidate = MFAOtpVerification (Some x) passcode, rAuth = Some (y\<lparr>AuthDetails := Some d\<rparr>), rError = None\<rparr>)" by blast
  then have l: "verify_login store enc om ls a now w (MFAOtpVerification (Some x) passcode) =
      Some (w'\<lparr>accounts := fst (SaveAccount store (accounts w) (recorded_success now y v))\<rparr>,
        Some (y\<lparr>AuthDetails := Some d, Acct := recorded_success now y v\<rparr>), None)"
    using at w' by (simp add: verify_login_eq)
  let ?z = "y\<lparr>AuthDetails := Some d, Acct := recorded_success now y v\<rparr>"
  have "Perms ?z = grant_all (acct_permissions u)" using y'(2) by simp
  moreover from this have "upa_State ?z = StateAuthenticated" by (simp add: upa_State_def IsMFAPending_def grant_all_eq)
  moreover from v have "acct_username (Acct ?z) = acct_username u" "acct_credentials (Acct ?z) = acct_credentials u"
    by (auto simp: same_status_def recorded_success_def account_updates)
  ultimately show ?thesis using l by blast
qed

lemma verify_login_rejects:
  assumes "\<And>x u. cur = Some x \<Longrightarrow> \<not> may_verify store om now w x passcode u"
  shows "\<exists>w' acct e. verify_login store enc om ls a now w (MFAOtpVerification cur passcode) = Some (w', None, Some e)
    \<and> accounts w' = saved store (accounts w) acct
    \<and> (\<forall>v. acct = Some v \<longrightarrow> (\<exists>u. (v = u \<or> v = UnlockAccount u)
         \<and> (\<exists>x. cur = Some x \<and> LoadAccountByUsername store (accounts w) (upa_Username x) = Inr u)))"
proof -
  from verify_attempt_rejects [OF assms, where enc = enc and ls = ls and a = a] obtain w' acct e
    where at: "verify_attempt store enc om ls a now w cur passcode = Some (w', acct, None, Some e)" "accounts w' = accounts w"
      and v: "\<forall>v. acct = Some v \<longrightarrow> (\<exists>u. (v = u \<or> v = UnlockAccount u)
         \<and> (\<exists>x. cur = Some x \<and> LoadAccountByUsername store (accounts w) (upa_Username x) = Inr u))" by blast
  have "\<not> isPasswordAuth \<lparr>rCandidate = MFAOtpVerification cur passcode, rAuth = None, rError = Some e\<rparr>"
    by (simp add: isPasswordAuth_def)
  note p = post_reject_otp [OF this, of store a now "accounts w" acct]
  have "verify_login store enc om ls a now w (MFAOtpVerification cur passcode) =
      Some (w'\<lparr>accounts := saved store (accounts w) acct\<rparr>, None, Some e)"
    using at p by (cases acct) (simp_all add: verify_login_eq)
  moreover have "accounts (w'\<lparr>accounts := saved store (accounts w) acct\<rparr>) = saved store (accounts w) acct" by simp
  ultimately show ?thesis using v by blast
qed

section \<open>Properties\<close>

lemma pending_login:
  assumes "login store enc (Some om) ls a now w c = Some (w', Some x, None)" and "c = UsernamePasswordPair name pw d MFAModeMust"
    and "LoadAccountByUsername store (accounts w) name = Inr u"
  shows "\<exists>otp. mgr_New om (\<lambda>i. now (AtOtp i)) (otps w) = (otps w', Inr otp) \<and> IsMFAPending x \<and> OTPIdentifier x = Identifier otp
    \<and> upa_Username x = acct_username u \<and> accounts w' = fst (SaveAccount store (accounts w) (UnlockAccount u))"
proof -
  have mfa: "mfa_required c u" using assms(2) by (simp add: mfa_required_def)
  have may: "may_login store enc (Some om) now w c u"
    using login_refused [OF assms(3) _ assms(2), of enc "Some om" now ls a] assms(1) by fastforce
  from login_granted [OF assms(3) may [unfolded assms(2)], of ls a] assms(1,2) obtain v
    where x: "Perms x = granted_permissions (Some om) now (otps w) c u" "Acct x = CacheableCopy (UnlockAccount u)"
      "otps w' = otps_after (Some om) now (otps w) c u"
      "mfa_required c u \<longrightarrow> v = UnlockAccount u" "accounts w' = fst (SaveAccount store (accounts w) (recorded_success now x v))"
    by auto
  have pend: "IsMFAPending x" using pending_iff [OF x(1)] mfa by simp
  obtain otp where otp: "new_otp (Some om) now (otps w) = Some otp" using may mfa by (auto simp: may_login_def)
  then have "mgr_New om (\<lambda>i. now (AtOtp i)) (otps w) = (otps w', Inr otp)"
    using x(3) mfa by (cases "mgr_New om (\<lambda>i. now (AtOtp i)) (otps w)") (auto simp: new_otp_def otps_after_def split: sum.splits)
  moreover have "OTPIdentifier x = Identifier otp"
    using x(1) mfa otp by (simp add: OTPIdentifier_def granted_permissions_def SpecialPermissionMFAPending_def SpecialPermissionOtpId_def)
  moreover have "upa_Username x = acct_username u" using x(2) by (simp add: upa_Username_def CacheableCopy_def)
  moreover have "accounts w' = fst (SaveAccount store (accounts w) (UnlockAccount u))"
    using x(4,5) mfa pend by (simp add: recorded_success_def)
  ultimately show ?thesis using pend by blast
qed

text \<open>C8: The passcode authenticator returns, and grants the login exactly when the account of the pending
  authentication exists, its status allows a login, the passcode manager accepts the passcode for the
  passcode id of that authentication, and the password policy allows the login. What it grants is full: the
  state is authenticated and the permissions are exactly those of the account. Unlike a password login, it carries the account with
  its credentials. A wrong passcode does not
  change the failure records of the account.\<close>

theorem mfa_verification:
  "\<exists>w' auth err. verify_login store enc om ls a now w (MFAOtpVerification cur passcode) = Some (w', auth, err)
    \<and> (err = None \<longleftrightarrow> (\<exists>x u. cur = Some x \<and> may_verify store om now w x passcode u))
    \<and> (auth = None \<longleftrightarrow> err \<noteq> None)
    \<and> (\<forall>x u y. cur = Some x \<and> LoadAccountByUsername store (accounts w) (upa_Username x) = Inr u \<and> auth = Some y \<longrightarrow>
         upa_State y = StateAuthenticated \<and> dom (Perms y) = set (acct_permissions u)
         \<and> acct_credentials (Acct y) = acct_credentials u)
    \<and> (err \<noteq> None \<longrightarrow> (\<exists>acct. accounts w' = saved store (accounts w) acct
         \<and> (\<forall>v. acct = Some v \<longrightarrow> (\<exists>x u. cur = Some x \<and> LoadAccountByUsername store (accounts w) (upa_Username x) = Inr u
              \<and> LoginFailures v = LoginFailures u))))"
proof (cases "\<exists>x u. cur = Some x \<and> may_verify store om now w x passcode u")
  case True
  then obtain x u where cur: "cur = Some x" and m: "may_verify store om now w x passcode u" by blast
  have load: "LoadAccountByUsername store (accounts w) (upa_Username x) = Inr u" using m by (simp add: may_verify_def)
  have perms: "dom (grant_all (acct_permissions u)) = set (acct_permissions u)"
    by (auto simp: grant_all_eq dom_def)
  from verify_login_accepts [OF m, of enc ls a] obtain w' y
    where "verify_login store enc om ls a now w (MFAOtpVerification cur passcode) = Some (w', Some y, None)"
      "Perms y = grant_all (acct_permissions u)" "upa_State y = StateAuthenticated" "acct_credentials (Acct y) = acct_credentials u"
    using cur by blast
  with perms show ?thesis using True cur load by (intro exI [of _ w'] exI [of _ "Some y"] exI [of _ None]) simp
next
  case False
  then have "\<And>x u. cur = Some x \<Longrightarrow> \<not> may_verify store om now w x passcode u" by blast
  from verify_login_rejects [OF this, where enc = enc and ls = ls and a = a] obtain w' acct e
    where l: "verify_login store enc om ls a now w (MFAOtpVerification cur passcode) = Some (w', None, Some e)"
      and s: "accounts w' = saved store (accounts w) acct"
      and v: "\<forall>v. acct = Some v \<longrightarrow> (\<exists>u. (v = u \<or> v = UnlockAccount u)
         \<and> (\<exists>x. cur = Some x \<and> LoadAccountByUsername store (accounts w) (upa_Username x) = Inr u))" by blast
  have "\<exists>acct. accounts w' = saved store (accounts w) acct
      \<and> (\<forall>v. acct = Some v \<longrightarrow> (\<exists>x u. cur = Some x \<and> LoadAccountByUsername store (accounts w) (upa_Username x) = Inr u
           \<and> LoginFailures v = LoginFailures u))"
    by (rule exI [of _ acct]) (use s v in force)
  with l False show ?thesis by (intro exI [of _ w'] exI [of _ None] exI [of _ "Some e"]) simp
qed


section \<open>Refresh\<close>

abbreviation refresh_attempt where
  "refresh_attempt store enc om ls a now w cur \<equiv>
     otp_attempt (password_authenticator store enc (Some om) ls (accounts w) a now) a w (MFAOtpRefresh cur) cur
       translate_refresh (\<lambda>os ident. mgr_Refresh om (\<lambda>i. now (AtOtp i)) os ident) None MFAEventOtpRefresh (\<lambda>current acct. current)"

lemma refresh_attempt_cases:
  "\<exists>w' acct. (\<exists>e. refresh_attempt store enc om ls a now w cur = Some (w', acct, None, Some e))
     \<or> (\<exists>x y v. cur = Some x \<and> same_grant x y \<and> refresh_attempt store enc om ls a now w cur = Some (w', Some v, Some y, None))"
proof (cases "checkCurrentAuth store (accounts w) a cur")
  case (Inl e)
  then show ?thesis by (simp add: otp_attempt_def)
next
  case (Inr u)
  then obtain x where x: "cur = Some x" by (cases cur) (auto simp: checkCurrentAuth_def)
  obtain os otp ch err where o: "mgr_Refresh om (\<lambda>i. now (AtOtp i)) (otps w) (OTPIdentifier x) = (os, otp, ch, err)"
    by (cases "mgr_Refresh om (\<lambda>i. now (AtOtp i)) (otps w) (OTPIdentifier x)") auto
  show ?thesis
  proof (cases "status_ok store (accounts w) now u")
    case False
    from status_rejects [OF this, of a "MFAOtpRefresh cur" None] Inr show ?thesis by (auto simp: otp_attempt_def)
  next
    case True
    note pre = status_accepts [OF True, of a "MFAOtpRefresh cur" None]
    let ?post = "PasswordPolicyChecker_Decide store (accounts w) a now (MFAOtpRefresh cur) (Some (UnlockAccount u)) (Some x)"
    have "\<exists>v y. same_grant x y \<and> ?post = Some (Some v, Some y, None) \<or> (\<exists>acct e. ?post = Some (acct, Some x, Some e))"
      using policy_accepts [of store "accounts w" now "UnlockAccount u" a "MFAOtpRefresh cur" x]
        policy_rejects [of store "accounts w" now "UnlockAccount u" a "MFAOtpRefresh cur" x] by blast
    with pre Inr x o show ?thesis
      by (cases err; cases "IsMFAPending x") (auto simp: otp_attempt_def Let_def)
  qed
qed

lemma post_panic:
  assumes "AuthDetails x = None"
  shows "post_steps store a now (st, Some u, \<lparr>rCandidate = c, rAuth = Some x, rError = None\<rparr>) = None"
  using assms by (simp add: post_steps_def AccountStatus_Process_def AccountLocking_Process_def
      AdditionalDetails_Process_def err_Is_def)

lemma refresh_login_cases:
  "(\<exists>w' e. refresh_login store enc om ls a now w (MFAOtpRefresh cur) = Some (w', None, Some e))
   \<or> (\<exists>x y d w'. cur = Some x \<and> same_grant x y
         \<and> refresh_login store enc om ls a now w (MFAOtpRefresh cur) = Some (w', Some (y\<lparr>AuthDetails := Some d\<rparr>), None))
   \<or> (\<exists>x. cur = Some x \<and> AuthDetails x = None \<and> refresh_login store enc om ls a now w (MFAOtpRefresh cur) = None)"
proof -
  let ?c = "MFAOtpRefresh cur"
  have eq: "refresh_login store enc om ls a now w ?c =
      map_option (\<lambda>(w', acct, auth, err). (w', auth, err))
        (Option.bind (refresh_attempt store enc om ls a now w cur) (\<lambda>(w', acct, auth, err).
           map_option (\<lambda>(st, acct', r). (w'\<lparr>accounts := st\<rparr>, acct', rAuth r, rError r))
             (post_steps store a now (accounts w', acct, \<lparr>rCandidate = ?c, rAuth = auth, rError = err\<rparr>))))"
    by (simp add: refresh_login_def Authenticate_refresh_def post_process_def)
  have otp: "\<not> isPasswordAuth \<lparr>rCandidate = ?c, rAuth = None, rError = Some e\<rparr>" for e by (simp add: isPasswordAuth_def)
  from refresh_attempt_cases [where store = store and enc = enc and om = om and ls = ls and a = a and now = now and w = w and cur = cur] obtain w' acct
    where "(\<exists>e. refresh_attempt store enc om ls a now w cur = Some (w', acct, None, Some e))
     \<or> (\<exists>x y v. cur = Some x \<and> same_grant x y \<and> refresh_attempt store enc om ls a now w cur = Some (w', Some v, Some y, None))"
    by blast
  then show ?thesis
  proof (elim disjE exE conjE)
    fix e assume "refresh_attempt store enc om ls a now w cur = Some (w', acct, None, Some e)"
    then show ?thesis by (auto simp: eq post_reject_otp [OF otp])
  next
    fix x y v assume at: "cur = Some x" "same_grant x y" "refresh_attempt store enc om ls a now w cur = Some (w', Some v, Some y, None)"
    show ?thesis
    proof (cases "AuthDetails y = None")
      case True
      from at(3) post_panic [OF True] have "refresh_login store enc om ls a now w ?c = None" by (simp add: eq)
      with True at show ?thesis by (simp add: same_grant_def)
    next
      case False
      from post_success [OF this, of store a now "accounts w'" v ?c] at(3) obtain w2 d
        where "refresh_login store enc om ls a now w ?c = Some (w2, Some (y\<lparr>AuthDetails := Some d\<rparr>), None)" by (auto simp: eq)
      with at(1,2) show ?thesis by blast
    qed
  qed
qed

text \<open>Refreshing a passcode never grants anything: when it succeeds, the result is the current authentication
  with the same account and permissions, so a pending user remains pending. It panics only if the current
  authentication has no details.\<close>

lemma refresh_grants_nothing_new:
  "(\<forall>w' auth err. refresh_login store enc om ls a now w (MFAOtpRefresh cur) = Some (w', auth, err) \<longrightarrow>
      (auth = None \<longleftrightarrow> err \<noteq> None)
      \<and> (\<forall>y. auth = Some y \<longrightarrow> (\<exists>x. cur = Some x \<and> Perms y = Perms x \<and> Acct y = Acct x \<and> upa_State y = upa_State x)))
   \<and> (refresh_login store enc om ls a now w (MFAOtpRefresh cur) = None \<longrightarrow> (\<exists>x. cur = Some x \<and> AuthDetails x = None))"
  using refresh_login_cases [where store = store and enc = enc and om = om and ls = ls and a = a and now = now and w = w
      and cur = cur]
  by (elim disjE exE conjE) (auto simp: same_grant_def upa_State_def IsMFAPending_def)

definition otp_world :: "(string \<rightharpoonup> account, inmem, unit) world" where
  "otp_world = \<lparr>accounts = [''joe'' \<mapsto> sample_account], otps = Map.empty, listened = ()\<rparr>"

definition sample_otps :: "inmem otp_manager" where
  "sample_otps = totp_ops parity_totp (\<lambda>e m. e) 0 inmemOtpStore sample_manager (Inr ''id'') (\<lambda>n. Inr (replicate n 0))"

abbreviation epoch :: time where "epoch \<equiv> 62135596800 * second"

lemma sample_pending:
  "\<exists>w1 x. login (map_store sample_rule None) None (Some sample_otps) [] 0 (\<lambda>_. epoch) otp_world
     (UsernamePasswordPair ''joe'' ''secret'' None MFAModeMust) = Some (w1, Some x, None)"
proof -
  let ?c = "UsernamePasswordPair ''joe'' ''secret'' None MFAModeMust"
  have load: "LoadAccountByUsername (map_store sample_rule None) (accounts otp_world) ''joe'' = Inr sample_account"
    by (simp add: map_store_def otp_world_def)
  have "new_otp (Some sample_otps) (\<lambda>_. epoch) (otps otp_world) \<noteq> None"
    by (simp add: new_otp_def sample_otps_def totp_ops_def otp_New_def totpFactory_Generate_def generateSecret_def
        totpFactory_Refresh_def parity_totp_def sample_manager_def newTotpManager_def newTotpFactory_def validate_opts_def
        passwd_simps second_def Let_def)
  then have "may_login (map_store sample_rule None) None (Some sample_otps) (\<lambda>_. epoch) otp_world ?c sample_account"
    by (simp add: may_login_def mfa_required_def status_ok_def password_ok_def noop_Matches_def sample_account_def)
  from login_granted [OF load this, of "[]" 0] show ?thesis by blast
qed


theorem mfa_verification_witness:
  "\<exists>w' y. verify_login (map_store sample_rule None) None sample_otps [] 0 (\<lambda>_. epoch)
      (otp_world\<lparr>otps := [''id'' \<mapsto> sample_otp]\<rparr>)
      (MFAOtpVerification (Some \<lparr>Acct = sample_account, Perms = [SpecialPermissionOtpId \<mapsto> PermString ''id''],
         AuthDetails = Some Map.empty\<rparr>) ''000000'') = Some (w', Some y, None)
    \<and> upa_State y = StateAuthenticated \<and> dom (Perms y) = {''read''}"
proof -
  let ?x = "\<lparr>Acct = sample_account, Perms = [SpecialPermissionOtpId \<mapsto> PermString ''id''], AuthDetails = Some Map.empty\<rparr>
    :: usernamePasswordAuthentication"
  let ?w = "otp_world\<lparr>otps := [''id'' \<mapsto> sample_otp]\<rparr>"
  have load: "LoadAccountByUsername (map_store sample_rule None) (accounts ?w) (upa_Username ?x) = Inr sample_account"
    by (simp add: map_store_def otp_world_def upa_Username_def sample_account_def)
  have "may_verify (map_store sample_rule None) sample_otps (\<lambda>_. epoch) ?w ?x ''000000'' sample_account"
    using load sample_verifies
    by (simp add: may_verify_def status_ok_def sample_account_def policy_ok_def map_store_def verified_def sample_otps_def
        totp_ops_def OTPIdentifier_def)
  with mfa_verification [of "map_store sample_rule None" None sample_otps "[]" 0 "\<lambda>_. epoch" ?w "Some ?x" "''000000''"] load
  obtain w' y where "verify_login (map_store sample_rule None) None sample_otps [] 0 (\<lambda>_. epoch) ?w
      (MFAOtpVerification (Some ?x) ''000000'') = Some (w', Some y, None)"
    "upa_State y = StateAuthenticated" "dom (Perms y) = set (acct_permissions sample_account)" by fastforce
  then show ?thesis by (auto simp: sample_account_def)
qed

end
