(* ===== verification/Composite.thy ===== *)
theory Composite
  imports Mfa Matchers
begin

text \<open>
  Composite handlers, \<^verbatim>\<open>pkg/security/authenticate.go\<close> and \<^verbatim>\<open>error_handling.go\<close>. Five interfaces have the same
  composite: authenticators, success handlers, and the handlers of authentication errors, access denied
  errors and other errors. A member is a leaf, with the identity and the order of the object, or another
  composite, which has no order. Composites are identified by an address; they are trees, since a
  composite that contained itself through another one would recurse without end.

  What a leaf does is an argument, \<open>run\<close>. The fields \<^verbatim>\<open>init\<close> and \<^verbatim>\<open>flattened\<close> of the code are the option
  \<open>flattened\<close>: \<open>None\<close> until the first use.
\<close>

section \<open>Composites\<close>

datatype 'h node = Leaf ordered_obj 'h | Nested nat "'h node list"

fun node_view :: "'h node \<Rightarrow> ordered_obj" where
  "node_view (Leaf v h) = v"
| "node_view (Nested n cs) = unordered"

text \<open>The comparison of two interface values: the same object.\<close>

fun same_item :: "'h node \<Rightarrow> 'h node \<Rightarrow> bool" where
  "same_item (Leaf v h) (Leaf v' h') = (h = h')"
| "same_item (Nested n cs) (Nested n' cs') = (n = n')"
| "same_item _ _ = False"

record 'h composite =
  self :: nat
  members :: "'h node list"
  flattened :: "'h node list option"

definition as_node :: "'h composite \<Rightarrow> 'h node" where
  "as_node c = Nested (self c) (members c)"

fun removeSelf :: "nat \<Rightarrow> 'h node list \<Rightarrow> 'h node list" where
  "removeSelf a [] = []"
| "removeSelf a (item # items) =
     (if (case item of Leaf v h \<Rightarrow> True | Nested n cs \<Rightarrow> n \<noteq> a) then item # removeSelf a items else removeSelf a items)"

fun dedup_loop :: "'h node list \<Rightarrow> 'h node list \<Rightarrow> 'h node list" where
  "dedup_loop lookup [] = []"
| "dedup_loop lookup (v # vs) =
     (if list_ex (same_item v) lookup then dedup_loop lookup vs else v # dedup_loop (v # lookup) vs)"

definition removeDuplicates :: "'h node list \<Rightarrow> 'h node list" where
  "removeDuplicates items = dedup_loop [] items"

definition sort_nodes :: "'h node list \<Rightarrow> 'h node list" where
  "sort_nodes items = SortStable node_view OrderedFirstCompare items"

definition processAuthenticators :: "nat \<Rightarrow> 'h node list \<Rightarrow> 'h node list" where
  "processAuthenticators a items = sort_nodes (removeSelf a items)"

definition processErrorHandlers :: "nat \<Rightarrow> 'h node list \<Rightarrow> 'h node list" where
  "processErrorHandlers a items = sort_nodes (removeDuplicates (removeSelf a items))"

fun flatten :: "'h node \<Rightarrow> 'h node list" where
  "flatten (Leaf v h) = [Leaf v h]"
| "flatten (Nested n cs) = sort_nodes (concat (map flatten cs))"

definition Authenticators :: "'h composite \<Rightarrow> 'h node list" where
  "Authenticators c = sort_nodes (concat (map flatten (members c)))"

definition init_Do :: "'h composite \<Rightarrow> 'h composite" where
  "init_Do c = (case flattened c of Some f \<Rightarrow> c | None \<Rightarrow> c\<lparr>flattened := Some (Authenticators c)\<rparr>)"

section \<open>Authenticators\<close>

definition New_composite :: "nat \<Rightarrow> 'h node list \<Rightarrow> 'h composite" where
  "New_composite a authenticators = \<lparr>self = a, members = processAuthenticators a authenticators, flattened = None\<rparr>"

definition Add_authenticator :: "'h composite \<Rightarrow> 'h node \<Rightarrow> 'h composite" where
  "Add_authenticator c h = c\<lparr>members := sort_nodes (processAuthenticators (self c) (members c @ [h]))\<rparr>"

definition Merge_authenticators :: "'h composite \<Rightarrow> 'h composite \<Rightarrow> 'h composite" where
  "Merge_authenticators c d = c\<lparr>members := processAuthenticators (self c) (members c @ members d)\<rparr>"

type_synonym ('w, 'x) answer = "('w \<times> 'x option \<times> goerr option) option"

text \<open>After the first use the flattened list consists of leaves only.\<close>

fun authenticate_loop ::
    "nat \<Rightarrow> ('h \<Rightarrow> 'w \<Rightarrow> 'c \<Rightarrow> ('w, 'x) answer) \<Rightarrow> 'h node list \<Rightarrow> 'w \<Rightarrow> 'c \<Rightarrow> ('w, 'x) answer" where
  "authenticate_loop a run [] w c =
     Some (w, None, Some (NewAuthenticatorNotAvailableError a (TextItem ''unable to find authenticator for cadidate'') []))"
| "authenticate_loop a run (Leaf v h # hs) w c =
     (case run h w c of
        None \<Rightarrow> None
      | Some (w', auth, err) \<Rightarrow>
          if auth \<noteq> None \<or> err \<noteq> None then Some (w', auth, err) else authenticate_loop a run hs w' c)"
| "authenticate_loop a run (Nested n cs # hs) w c = authenticate_loop a run hs w c"

definition Authenticate_composite ::
    "nat \<Rightarrow> ('h \<Rightarrow> 'w \<Rightarrow> 'c \<Rightarrow> ('w, 'x) answer) \<Rightarrow> 'h composite \<Rightarrow> 'w \<Rightarrow> 'c \<Rightarrow> 'h composite \<times> ('w, 'x) answer" where
  "Authenticate_composite a run cm w c =
     (let cm' = init_Do cm in (cm', authenticate_loop a run (the (flattened cm')) w c))"

fun build_loop :: "(goerr + 'h node) list \<Rightarrow> goerr + 'h node list" where
  "build_loop [] = Inr []"
| "build_loop (Inl err # bs) = Inl err"
| "build_loop (Inr h # bs) = (case build_loop bs of Inl err \<Rightarrow> Inl err | Inr hs \<Rightarrow> Inr (h # hs))"

definition CompositeAuthenticatorBuilder_Build :: "nat \<Rightarrow> (goerr + 'h node) list \<Rightarrow> goerr + 'h composite" where
  "CompositeAuthenticatorBuilder_Build a builders =
     (case build_loop builders of Inl err \<Rightarrow> Inl err | Inr hs \<Rightarrow> Inr (New_composite a hs))"

section \<open>Handlers\<close>

fun handle_loop :: "('h \<Rightarrow> 'w \<Rightarrow> 'w) \<Rightarrow> 'h node list \<Rightarrow> 'w \<Rightarrow> 'w" where
  "handle_loop run [] w = w"
| "handle_loop run (Leaf v h # hs) w = handle_loop run hs (run h w)"
| "handle_loop run (Nested n cs # hs) w = handle_loop run hs w"

definition NewAuthenticationSuccessHandler :: "nat \<Rightarrow> 'h node list \<Rightarrow> 'h composite" where
  "NewAuthenticationSuccessHandler a handlers = \<lparr>self = a, members = processAuthenticators a handlers, flattened = None\<rparr>"

definition Add_success_handler :: "'h composite \<Rightarrow> 'h node \<Rightarrow> 'h composite" where
  "Add_success_handler c h = c\<lparr>members := processAuthenticators (self c) (members c @ [h])\<rparr>"

definition Merge_success_handlers :: "'h composite \<Rightarrow> 'h composite \<Rightarrow> 'h composite" where
  "Merge_success_handlers c d = c\<lparr>members := processAuthenticators (self c) (members c @ members d)\<rparr>"

definition HandleAuthenticationSuccess :: "('h \<Rightarrow> 'w \<Rightarrow> 'w) \<Rightarrow> 'h composite \<Rightarrow> 'w \<Rightarrow> 'h composite \<times> 'w" where
  "HandleAuthenticationSuccess run c w = (let c' = init_Do c in (c', handle_loop run (the (flattened c')) w))"

definition NewAuthenticationErrorHandler :: "nat \<Rightarrow> 'h node list \<Rightarrow> 'h composite" where
  "NewAuthenticationErrorHandler a handlers = \<lparr>self = a, members = processErrorHandlers a handlers, flattened = None\<rparr>"

definition Add_authentication_error_handler :: "'h composite \<Rightarrow> 'h node \<Rightarrow> 'h composite" where
  "Add_authentication_error_handler c h = c\<lparr>members := processErrorHandlers (self c) (members c @ [h])\<rparr>"

definition Merge_authentication_error_handlers :: "'h composite \<Rightarrow> 'h composite \<Rightarrow> 'h composite" where
  "Merge_authentication_error_handlers c d = c\<lparr>members := processErrorHandlers (self c) (members c @ members d)\<rparr>"

definition HandleAuthenticationError :: "('h \<Rightarrow> 'w \<Rightarrow> 'w) \<Rightarrow> 'h composite \<Rightarrow> 'w \<Rightarrow> 'h composite \<times> 'w" where
  "HandleAuthenticationError run c w = (let c' = init_Do c in (c', handle_loop run (the (flattened c')) w))"

definition NewAccessDeniedHandler :: "nat \<Rightarrow> 'h node list \<Rightarrow> 'h composite" where
  "NewAccessDeniedHandler a handlers = \<lparr>self = a, members = processErrorHandlers a handlers, flattened = None\<rparr>"

definition Add_access_denied_handler :: "'h composite \<Rightarrow> 'h node \<Rightarrow> 'h composite" where
  "Add_access_denied_handler c h = c\<lparr>members := processErrorHandlers (self c) (members c @ [h])\<rparr>"

definition Merge_access_denied_handlers :: "'h composite \<Rightarrow> 'h composite \<Rightarrow> 'h composite" where
  "Merge_access_denied_handlers c d = c\<lparr>members := processErrorHandlers (self c) (members c @ members d)\<rparr>"

definition HandleAccessDenied :: "('h \<Rightarrow> 'w \<Rightarrow> 'w) \<Rightarrow> 'h composite \<Rightarrow> 'w \<Rightarrow> 'h composite \<times> 'w" where
  "HandleAccessDenied run c w = (let c' = init_Do c in (c', handle_loop run (the (flattened c')) w))"

text \<open>The composite of error handlers does not flatten: it calls its members in order, composites included.\<close>

definition NewErrorHandler :: "nat \<Rightarrow> 'h node list \<Rightarrow> 'h composite" where
  "NewErrorHandler a handlers = \<lparr>self = a, members = processErrorHandlers a handlers, flattened = None\<rparr>"

definition Add_error_handler :: "'h composite \<Rightarrow> 'h node \<Rightarrow> 'h composite" where
  "Add_error_handler c h = c\<lparr>members := processErrorHandlers (self c) (members c @ [h])\<rparr>"

definition Merge_error_handlers :: "'h composite \<Rightarrow> 'h composite \<Rightarrow> 'h composite" where
  "Merge_error_handlers c d = c\<lparr>members := processErrorHandlers (self c) (members c @ members d)\<rparr>"

fun handle_node :: "('h \<Rightarrow> 'w \<Rightarrow> 'w) \<Rightarrow> 'h node \<Rightarrow> 'w \<Rightarrow> 'w" where
  "handle_node run (Leaf v h) w = run h w"
| "handle_node run (Nested n cs) w = foldl (\<lambda>w c. handle_node run c w) w cs"

definition HandleError :: "('h \<Rightarrow> 'w \<Rightarrow> 'w) \<Rightarrow> 'h composite \<Rightarrow> 'w \<Rightarrow> 'w" where
  "HandleError run c w = foldl (\<lambda>w m. handle_node run m w) w (members c)"

section \<open>Default handlers\<close>

text \<open>
  A response is the list of what was written to it, with the status code; writers other than those of gin do
  not know whether they were written to.
\<close>

datatype written = WrittenJson nat goerr | WrittenHtml nat goerr

record response =
  is_gin :: bool
  body :: "written list"

definition IsResponseWritten :: "response \<Rightarrow> bool" where
  "IsResponseWritten rw = (is_gin rw \<and> body rw \<noteq> [])"

definition isJson :: "(string \<Rightarrow> string) \<Rightarrow> bool" where
  "isJson header =
     (strings_Contains (header ''Accept'') ''application/json''
      \<or> strings_Contains (header ''Content-Type'') ''application/json'')"

definition WriteError :: "(string \<Rightarrow> string) \<Rightarrow> nat \<Rightarrow> goerr \<Rightarrow> response \<Rightarrow> response" where
  "WriteError header code err rw =
     (if IsResponseWritten rw then rw
      else rw\<lparr>body := body rw @ [if isJson header then WrittenJson code err else WrittenHtml code err]\<rparr>)"

definition DefaultAccessDenied :: "(string \<Rightarrow> string) \<Rightarrow> goerr \<Rightarrow> response \<Rightarrow> response" where
  "DefaultAccessDenied header err rw =
     WriteError header 403 err
       (if errors_Is err ErrorSubTypeInsufficientAuth then WriteError header 401 err rw else rw)"

definition DefaultAuthenticationError :: "(string \<Rightarrow> string) \<Rightarrow> goerr \<Rightarrow> response \<Rightarrow> response" where
  "DefaultAuthenticationError header err rw = WriteError header 401 err rw"

definition DefaultHandleError :: "(string \<Rightarrow> string) \<Rightarrow> goerr \<Rightarrow> response \<Rightarrow> response" where
  "DefaultHandleError header err rw = WriteError header 401 err rw"

section \<open>Flattening\<close>

abbreviation node_rank :: "'h node \<Rightarrow> nat \<times> int" where
  "node_rank h \<equiv> rank_ordered_first (node_view h)"

lemma OrderedFirst_equiv: "ordered_first.equiv l r \<longleftrightarrow> rank_ordered_first l = rank_ordered_first r"
  by (auto simp: ordered_first.equiv_def OrderedFirstCompare_rank)

lemma sort_nodes_key: "sort_nodes xs = sort_key node_rank xs"
proof (rule properties_for_sort_key [symmetric])
  show "mset (sort_nodes xs) = mset xs" by (simp add: sort_nodes_def ordered_first.permutes)
  show "filter (\<lambda>x. node_rank k = node_rank x) (sort_nodes xs) = filter (\<lambda>x. node_rank k = node_rank x) xs" for k
    using ordered_first.keeps_ties_rank [where rank = rank_ordered_first, OF OrderedFirst_equiv, of node_view "node_rank k" xs]
    by (simp add: sort_nodes_def eq_commute)
  have "sorted_wrt (\<lambda>a b. node_rank a \<le> node_rank b) (sort_nodes xs)"
    using ordered_first.sorts [of node_view xs] by (simp add: sort_nodes_def OrderedFirstCompare_rank not_less)
  then show "sorted (map node_rank (sort_nodes xs))" by (simp add: sorted_wrt_map)
qed

lemma filter_sort_key: "filter (\<lambda>x. f x = k) (sort_key f xs) = filter (\<lambda>x. f x = k) xs"
  by (rule sort_key_stable)

lemma sort_key_concat: "sort_key f (concat (map (sort_key f) xss)) = sort_key f (concat xss)"
proof (rule properties_for_sort_key)
  have "mset (concat (map (sort_key f) xss)) = mset (concat xss)" by (induction xss) simp_all
  then show "mset (sort_key f (concat xss)) = mset (concat (map (sort_key f) xss))" by simp
  show "filter (\<lambda>x. f k = f x) (sort_key f (concat xss)) = filter (\<lambda>x. f k = f x) (concat (map (sort_key f) xss))" for k
  proof -
    have "filter (\<lambda>x. f x = f k) (concat (map (sort_key f) xss)) = filter (\<lambda>x. f x = f k) (concat xss)"
      by (induction xss) (simp_all add: filter_sort_key)
    then show ?thesis by (simp add: filter_sort_key eq_commute)
  qed
qed simp

fun leaves :: "'h node \<Rightarrow> 'h node list" where
  "leaves (Leaf v h) = [Leaf v h]"
| "leaves (Nested n cs) = concat (map leaves cs)"

lemma flatten_leaves: "flatten nd = sort_key node_rank (leaves nd)"
proof (induction nd)
  case (Nested n cs)
  then have "map flatten cs = map (sort_key node_rank) (map leaves cs)" by simp
  then show ?case by (simp add: sort_nodes_key sort_key_concat del: map_map)
qed simp

lemma Authenticators_eq: "Authenticators c = sort_key node_rank (leaves (as_node c))"
  using flatten_leaves [of "as_node c"] by (simp add: Authenticators_def as_node_def)

lemma leaves_are_leaves: "nd' \<in> set (leaves nd) \<Longrightarrow> \<exists>v h. nd' = Leaf v h"
  by (induction nd) auto

section \<open>The first answer\<close>

text \<open>The leaves before the one that answers: each of them is asked and passes.\<close>

fun passes :: "('h \<Rightarrow> 'w \<Rightarrow> 'c \<Rightarrow> ('w, 'x) answer) \<Rightarrow> 'h list \<Rightarrow> 'w \<Rightarrow> 'c \<Rightarrow> 'w option" where
  "passes run [] w c = Some w"
| "passes run (h # hs) w c =
     (case run h w c of Some (w', None, None) \<Rightarrow> passes run hs w' c | _ \<Rightarrow> None)"

fun leaf_of :: "'h node \<Rightarrow> 'h list" where
  "leaf_of (Leaf v h) = [h]"
| "leaf_of (Nested n cs) = []"

abbreviation leaf_names :: "'h node list \<Rightarrow> 'h list" where
  "leaf_names ns \<equiv> concat (map leaf_of ns)"

lemma loop_none:
  "passes run (leaf_names ns) w c = Some w' \<Longrightarrow>
   authenticate_loop a run ns w c =
     Some (w', None, Some (NewAuthenticatorNotAvailableError a (TextItem ''unable to find authenticator for cadidate'') []))"
  by (induction a run ns w c rule: authenticate_loop.induct) (auto split: option.splits prod.splits)

lemma loop_first:
  "leaf_names ns = hs @ h # rest \<Longrightarrow> passes run hs w c = Some w1 \<Longrightarrow> run h w1 c = Some (w2, auth, err) \<Longrightarrow>
   auth \<noteq> None \<or> err \<noteq> None \<Longrightarrow> authenticate_loop a run ns w c = Some (w2, auth, err)"
proof (induction a run ns w c arbitrary: hs rule: authenticate_loop.induct)
  case (2 a run v h' ns w c)
  show ?case
  proof (cases hs)
    case Nil
    with 2 show ?thesis by auto
  next
    case (Cons g gs)
    with "2.prems"(1,2) obtain w' where g: "g = h'" "run h' w c = Some (w', None, None)" "passes run gs w' c = Some w1"
      by (auto split: option.splits prod.splits)
    with "2.IH" [OF g(2) refl refl, of gs] "2.prems" Cons show ?thesis by simp
  qed
qed simp_all

definition first_of :: "'h composite \<Rightarrow> 'h list" where
  "first_of c = leaf_names (case flattened c of Some f \<Rightarrow> f | None \<Rightarrow> sort_key node_rank (leaves (as_node c)))"

lemma init_flattened: "leaf_names (the (flattened (init_Do c))) = first_of c"
  by (simp add: init_Do_def first_of_def Authenticators_eq split: option.split)

section \<open>Properties\<close>

text \<open>C22: A composite authenticator asks its authenticators, those of nested composites included, in ascending
  order of their rank and, among equals, in the order of the members: flattening nested composites and
  sorting on every level is the same as one stable sort of all leaves. The first answer, an authentication
  or an error, is the answer; if all pass, the error says that no authenticator is available.\<close>

theorem composite_authentication:
  assumes "flattened cm = None"
  shows "Authenticators cm = sort_key node_rank (leaves (as_node cm))
    \<and> (\<forall>hs h rest w1 w2 auth err.
         first_of cm = hs @ h # rest \<and> passes run hs w c = Some w1 \<and> run h w1 c = Some (w2, auth, err)
         \<and> (auth \<noteq> None \<or> err \<noteq> None) \<longrightarrow> snd (Authenticate_composite a run cm w c) = Some (w2, auth, err))
    \<and> (\<forall>w1. passes run (first_of cm) w c = Some w1 \<longrightarrow>
         snd (Authenticate_composite a run cm w c) = Some (w1, None, Some (NewAuthenticatorNotAvailableError a
           (TextItem ''unable to find authenticator for cadidate'') [])))
    \<and> first_of cm = leaf_names (sort_key node_rank (leaves (as_node cm)))"
proof (intro conjI allI impI)
  show "Authenticators cm = sort_key node_rank (leaves (as_node cm))" by (rule Authenticators_eq)
  show "first_of cm = leaf_names (sort_key node_rank (leaves (as_node cm)))" using assms by (simp add: first_of_def)
next
  fix hs h rest w1 w2 auth err
  assume "first_of cm = hs @ h # rest \<and> passes run hs w c = Some w1 \<and> run h w1 c = Some (w2, auth, err)
    \<and> (auth \<noteq> None \<or> err \<noteq> None)"
  then have "authenticate_loop a run (the (flattened (init_Do cm))) w c = Some (w2, auth, err)"
    by (intro loop_first [where hs = hs and h = h and rest = rest]) (auto simp: init_flattened)
  then show "snd (Authenticate_composite a run cm w c) = Some (w2, auth, err)" by (simp add: Authenticate_composite_def Let_def)
next
  fix w1 assume "passes run (first_of cm) w c = Some w1"
  then show "snd (Authenticate_composite a run cm w c) = Some (w1, None, Some (NewAuthenticatorNotAvailableError a
      (TextItem ''unable to find authenticator for cadidate'') []))"
    using loop_none [where ns = "the (flattened (init_Do cm))" and a = a] by (simp add: Authenticate_composite_def Let_def init_flattened)
qed

theorem composite_authentication_witness:
  "flattened (New_composite 0 [Leaf unordered (1 :: nat), Nested 1 [Leaf \<lparr>PriorityOrder = None, OrderValue = Some 3\<rparr> 2]]) = None
   \<and> snd (Authenticate_composite 0 (\<lambda>h w c. Some (w @ [h], if h = 1 then Some c else None, None))
        (New_composite 0 [Leaf unordered (1 :: nat), Nested 1 [Leaf \<lparr>PriorityOrder = None, OrderValue = Some 3\<rparr> 2]]) [] ())
      = Some ([2, 1], Some (), None)"
proof -
  let ?cm = "New_composite 0 [Leaf unordered (1 :: nat), Nested 1 [Leaf \<lparr>PriorityOrder = None, OrderValue = Some 3\<rparr> 2]]"
  let ?run = "\<lambda>h w c. Some (w @ [h], if h = 1 then Some c else None, None)"
  have n: "flattened ?cm = None" by (simp add: New_composite_def)
  have "first_of ?cm = [2] @ 1 # []"
    by (simp add: first_of_def n as_node_def New_composite_def processAuthenticators_def sort_nodes_key unordered_def
        rank_ordered_first_def)
  with composite_authentication [OF n, of ?run "[]" "()" 0, THEN conjunct2, THEN conjunct1, THEN spec [of _ "[2]"],
      THEN spec [of _ 1], THEN spec [of _ "[]"], THEN spec [of _ "[2]"], THEN spec [of _ "[2, 1]"], THEN spec [of _ "Some ()"],
      THEN spec [of _ None]] n
  show ?thesis by simp
qed

text \<open>The first use of a composite fixes the order for good: an authenticator added or merged later is never asked.\<close>

lemma frozen_after_first_use:
  "let used = fst (Authenticate_composite a' run' cm w' c') in
     snd (Authenticate_composite a run (Add_authenticator used h) w c) = snd (Authenticate_composite a run used w c)
     \<and> snd (Authenticate_composite a run (Merge_authenticators used d) w c) = snd (Authenticate_composite a run used w c)"
  by (simp add: Authenticate_composite_def Let_def init_Do_def Add_authenticator_def Merge_authenticators_def split: option.split)

section \<open>Error handlers\<close>

lemma same_item_refl [simp]: "same_item x x"
  by (cases x) simp_all

lemma same_item_sym: "same_item x y \<longleftrightarrow> same_item y x"
  by (induction x y rule: same_item.induct) auto

lemma same_item_trans: "same_item x y \<Longrightarrow> same_item y z \<Longrightarrow> same_item x z"
  by (cases x; cases y; cases z) simp_all

lemma removeSelf_filter: "removeSelf a items = filter (\<lambda>item. \<forall>cs. item \<noteq> Nested a cs) items"
  by (induction items) (auto split: node.splits)

lemma dedup_subset: "set (dedup_loop lookup vs) \<subseteq> set vs"
  by (induction lookup vs rule: dedup_loop.induct) auto

lemma dedup_fresh: "x \<in> set (dedup_loop lookup vs) \<Longrightarrow> y \<in> set lookup \<Longrightarrow> \<not> same_item x y"
  by (induction lookup vs rule: dedup_loop.induct) (auto simp: list_ex_iff split: if_splits)

lemma dedup_separate: "sorted_wrt (\<lambda>x y. \<not> same_item x y) (dedup_loop lookup vs)"
  by (induction lookup vs rule: dedup_loop.induct) (auto simp: same_item_sym dest: dedup_fresh)

lemma dedup_represents:
  "v \<in> set vs \<Longrightarrow> \<exists>u \<in> set (dedup_loop lookup vs) \<union> set lookup. same_item v u"
proof (induction lookup vs rule: dedup_loop.induct)
  case (2 lookup x vs)
  show ?case
  proof (cases "list_ex (same_item x) lookup")
    case True
    with 2 show ?thesis by (auto simp: list_ex_iff)
  next
    case False
    with 2 show ?thesis by fastforce
  qed
qed simp

lemma sorted_wrt_separate:
  assumes "\<And>x y. R x y \<Longrightarrow> R y x" and "sorted_wrt R xs" and "mset ys = mset xs"
  shows "sorted_wrt R ys"
  using assms(2,3)
proof (induction ys arbitrary: xs)
  case (Cons y ys)
  then have "y \<in> set xs" by (metis list.set_intros(1) mset_eq_setD)
  then obtain as bs where xs: "xs = as @ y # bs" by (meson split_list)
  with Cons.prems have m: "mset ys = mset (as @ bs)" and s: "sorted_wrt R (as @ bs)" by (simp_all add: sorted_wrt_append)
  have "\<forall>z \<in> set (as @ bs). R y z" using Cons.prems(1) assms(1) by (auto simp: xs sorted_wrt_append)
  with Cons.IH [OF s m] mset_eq_setD [OF m] show ?case by auto
qed simp

text \<open>The handlers of a composite error handler after it was made, or after a handler was added: the composite
  itself is not among them, no handler is there twice, every handler given is there, and they are in
  ascending order of their rank.\<close>

lemma error_handlers:
  "(\<forall>cs. Nested a cs \<notin> set (processErrorHandlers a items))
   \<and> (\<forall>i j. i < j \<and> j < length (processErrorHandlers a items) \<longrightarrow>
        \<not> same_item (processErrorHandlers a items ! i) (processErrorHandlers a items ! j))
   \<and> (\<forall>item \<in> set items. (\<forall>cs. item \<noteq> Nested a cs) \<longrightarrow> (\<exists>kept \<in> set (processErrorHandlers a items). same_item item kept))
   \<and> set (processErrorHandlers a items) \<subseteq> set items
   \<and> sorted (map node_rank (processErrorHandlers a items))"
proof -
  define ded where "ded = removeDuplicates (removeSelf a items)"
  have p: "processErrorHandlers a items = sort_key node_rank ded"
    by (simp add: processErrorHandlers_def ded_def sort_nodes_key)
  have sub: "set ded \<subseteq> {item \<in> set items. \<forall>cs. item \<noteq> Nested a cs}"
    using dedup_subset [of "[]" "removeSelf a items"] by (auto simp: ded_def removeDuplicates_def removeSelf_filter)
  have sep: "sorted_wrt (\<lambda>x y. \<not> same_item x y) (sort_key node_rank ded)"
    by (rule sorted_wrt_separate [where xs = ded])
      (auto simp: same_item_sym ded_def removeDuplicates_def intro: dedup_separate)
  have kept: "\<exists>kept \<in> set ded. same_item item kept" if "item \<in> set items" "\<forall>cs. item \<noteq> Nested a cs" for item
    using dedup_represents [of item "removeSelf a items" "[]"] that
    by (simp add: ded_def removeDuplicates_def removeSelf_filter)
  show ?thesis unfolding p
  proof (intro conjI)
    show "\<forall>i j. i < j \<and> j < length (sort_key node_rank ded) \<longrightarrow>
        \<not> same_item (sort_key node_rank ded ! i) (sort_key node_rank ded ! j)"
      using sep by (simp add: sorted_wrt_iff_nth_less)
    show "sorted (map node_rank (sort_key node_rank ded))" by simp
  qed (use sub kept in auto)
qed

text \<open>The default handler of access denied errors answers an untouched gin response once: 401 if the
  authentication was insufficient, otherwise 403. Other response writers get both answers in the first case.\<close>

lemma default_access_denied:
  "body rw = [] \<Longrightarrow>
   map (\<lambda>x. case x of WrittenJson code e \<Rightarrow> (code, e) | WrittenHtml code e \<Rightarrow> (code, e)) (body (DefaultAccessDenied header err rw)) =
     (if \<not> errors_Is err ErrorSubTypeInsufficientAuth then [(403, err)]
      else if is_gin rw then [(401, err)] else [(401, err), (403, err)])"
  by (simp add: DefaultAccessDenied_def WriteError_def IsResponseWritten_def)

section \<open>The password authenticators\<close>

text \<open>
  The composite \<^verbatim>\<open>passwd/builder.go\<close> makes: with multi-factor authentication, the password authenticator and
  the two for passcodes, none of which has an order; without it, the password authenticator alone.
\<close>

datatype passwd_leaf = PasswdAuth | MfaVerify | MfaRefresh

definition run_passwd ::
    "'st account_store \<Rightarrow> (string \<Rightarrow> string \<Rightarrow> bool) option \<Rightarrow> 'o otp_manager \<Rightarrow> 'l listener list \<Rightarrow> nat \<Rightarrow> clock \<Rightarrow>
     passwd_leaf \<Rightarrow> ('st, 'o, 'l) world \<Rightarrow> candidate \<Rightarrow> ('st, 'o, 'l) authenticated" where
  "run_passwd store enc om ls a now h =
     (case h of
        PasswdAuth \<Rightarrow> login store enc (Some om) ls a now
      | MfaVerify \<Rightarrow> verify_login store enc om ls a now
      | MfaRefresh \<Rightarrow> refresh_login store enc om ls a now)"

definition Build_passwd :: "nat \<Rightarrow> PasswordAuthFeature \<Rightarrow> passwd_leaf + passwd_leaf composite" where
  "Build_passwd addr f =
     (if mfaEnabled f
      then Inr (New_composite addr [Leaf unordered PasswdAuth, Leaf unordered MfaVerify, Leaf unordered MfaRefresh])
      else Inl PasswdAuth)"

lemma login_answers:
  "login store enc om ls a now w (UsernamePasswordPair name pw d m) \<noteq> Some (w', None, None)"
proof (cases "LoadAccountByUsername store (accounts w) name")
  case (Inl e)
  with login_unknown [of store w name e enc om ls a now pw d m] show ?thesis by auto
next
  case (Inr u)
  with login_granted [of store w name u enc om now pw d m ls a] login_refused [OF Inr _ refl, of enc om now pw d m ls a]
  show ?thesis by (cases "may_login store enc om now w (UsernamePasswordPair name pw d m) u") auto
qed

lemma verify_answers:
  "verify_login store enc om ls a now w (MFAOtpVerification cur passcode) \<noteq> Some (w', None, None)"
proof (cases "\<exists>x u. cur = Some x \<and> may_verify store om now w x passcode u")
  case True
  then show ?thesis using verify_login_accepts [where enc = enc and ls = ls and a = a] by fastforce
next
  case False
  then have "\<And>x u. cur = Some x \<Longrightarrow> \<not> may_verify store om now w x passcode u" by blast
  from verify_login_rejects [where cur = cur, OF this, where enc = enc and ls = ls and a = a] show ?thesis by force
qed

lemma refresh_answers:
  "refresh_login store enc om ls a now w (MFAOtpRefresh cur) \<noteq> Some (w', None, None)"
  using refresh_login_cases [where store = store and enc = enc and om = om and ls = ls and a = a and now = now and w = w
      and cur = cur] by auto

text \<open>With multi-factor authentication a password goes to the password authenticator, a passcode to the one that
  verifies it and a request for another passcode to the one that refreshes it, and to no other; any
  other candidate gets the error that no authenticator is available.\<close>

lemma passwd_dispatch:
  assumes "Build_passwd addr f = Inr cm"
  shows "snd (Authenticate_composite a (run_passwd store enc om ls a now) cm w c) =
    (case c of
       UsernamePasswordPair name pw d m \<Rightarrow> login store enc (Some om) ls a now w c
     | MFAOtpVerification cur passcode \<Rightarrow> verify_login store enc om ls a now w c
     | MFAOtpRefresh cur \<Rightarrow> refresh_login store enc om ls a now w c
     | OtherCandidate n \<Rightarrow> Some (w, None, Some (NewAuthenticatorNotAvailableError a
         (TextItem ''unable to find authenticator for cadidate'') [])))"
proof -
  have cm: "the (flattened (init_Do cm)) = [Leaf unordered PasswdAuth, Leaf unordered MfaVerify, Leaf unordered MfaRefresh]"
    using assms
    by (auto simp: Build_passwd_def init_Do_def New_composite_def Authenticators_def processAuthenticators_def sort_nodes_key
        unordered_def rank_ordered_first_def split: if_splits)
  note passes = login_def Authenticate_password_def verify_login_def Authenticate_verify_def refresh_login_def Authenticate_refresh_def
  show ?thesis
  proof (cases c)
    case (UsernamePasswordPair name pw d m)
    with login_answers [of store enc "Some om" ls a now w name pw d m] show ?thesis
      by (auto simp: Authenticate_composite_def Let_def cm run_passwd_def split: option.split)
  next
    case (MFAOtpVerification cur passcode)
    with verify_answers [of store enc om ls a now w cur passcode] show ?thesis
      by (auto simp: Authenticate_composite_def Let_def cm run_passwd_def login_def Authenticate_password_def split: option.split)
  next
    case (MFAOtpRefresh cur)
    with refresh_answers [of store enc om ls a now w cur] show ?thesis
      by (auto simp: Authenticate_composite_def Let_def cm run_passwd_def login_def Authenticate_password_def
          verify_login_def Authenticate_verify_def split: option.split)
  next
    case (OtherCandidate n)
    then show ?thesis by (simp add: Authenticate_composite_def Let_def cm run_passwd_def passes)
  qed
qed

end
