(* ===== verification/Csrf.thy ===== *)
theory Csrf
  imports Session_Control Matchers Composite
begin

text \<open>
  Protection against cross-site request forgery, \<^verbatim>\<open>pkg/security/csrf\<close>: the token of the session, the middleware
  that compares it with the token of the request, and the change of the token at login. The errors of the
  request are in the order of \<^verbatim>\<open>c.Error\<close>; the middleware goes on after \<^verbatim>\<open>c.Abort()\<close>, which only keeps the
  handlers after it from running.
\<close>

definition CsrfParamName :: string where "CsrfParamName = ''_csrf''"
definition CsrfHeaderName :: string where "CsrfHeaderName = ''X-CSRF-TOKEN''"
definition SessionKeyCsrfToken :: string where "SessionKeyCsrfToken = ''CsrfToken''"

record csrf_token =
  token_Value :: string
  token_ParameterName :: string
  token_HeaderName :: string

datatype session_extra = TokenValue csrf_token | ExtraValue nat

type_synonym gob_encoder = "(string \<rightharpoonup> session_extra sval) \<Rightarrow> string option"

section \<open>The token store\<close>

definition Generate :: "string \<Rightarrow> string \<Rightarrow> string \<Rightarrow> csrf_token" where
  "Generate newId parameterName headerName =
     \<lparr>token_Value = newId, token_ParameterName = parameterName, token_HeaderName = headerName\<rparr>"

definition SaveToken ::
    "('r, session_extra) session_redis \<Rightarrow> gob_encoder \<Rightarrow> (nat \<Rightarrow> time) \<Rightarrow> 'r \<Rightarrow> session_extra session_ctx \<Rightarrow> csrf_token \<Rightarrow>
     ('r \<times> session_extra session_ctx \<times> string option) call" where
  "SaveToken rc gob now d c token =
     (case ctx_session c of
        None \<Rightarrow> Returns (d, c, Some ''can't save csrf token to session, because the request has no session'')
      | Some s \<Rightarrow>
         and_then (session_Save rc gob d (now 0) (now 1) (now 2) (session_set s SessionKeyCsrfToken (SvOther (TokenValue token))))
           (\<lambda>(d', s', err). Returns (d', c\<lparr>ctx_session := Some s'\<rparr>, err)))"

definition LoadToken :: "session_extra session_ctx \<Rightarrow> string + csrf_token option" where
  "LoadToken c =
     (case ctx_session c of
        None \<Rightarrow> Inl ''can't load csrf token from session, because the request has no session''
      | Some s \<Rightarrow>
         (case session_get s SessionKeyCsrfToken of
            SvNil \<Rightarrow> Inr None
          | SvOther (TokenValue token) \<Rightarrow> Inr (Some token)
          | _ \<Rightarrow> Inl ''csrf token in session can't be asserted to be the CSRF token type''))"

section \<open>The middleware\<close>

definition DefaultProtectionMatcher :: matcher where
  "DefaultProtectionMatcher = NotRequest (RequestWithMethods [''GET'', ''HEAD'', ''TRACE'', ''OPTIONS''])"

definition DefaultIgnoreMatcher :: matcher where
  "DefaultIgnoreMatcher = NoneRequest"

record csrf_manager =
  requireProtection :: matcher
  ignoreProtection :: matcher
  parameterName :: string
  headerName :: string

definition newManager :: "matcher option \<Rightarrow> matcher option \<Rightarrow> csrf_manager" where
  "newManager csrfProtectionMatcher ignoreProtectionMatcher =
     \<lparr>requireProtection = (case csrfProtectionMatcher of None \<Rightarrow> DefaultProtectionMatcher | Some m \<Rightarrow> m),
      ignoreProtection = (case ignoreProtectionMatcher of None \<Rightarrow> DefaultIgnoreMatcher | Some m \<Rightarrow> m),
      parameterName = CsrfParamName, headerName = CsrfHeaderName\<rparr>"

definition configured_manager :: "matcher list \<Rightarrow> matcher list \<Rightarrow> csrf_manager" where
  "configured_manager require ignore =
     newManager (Some (foldl (\<lambda>acc m. Or_m acc [m]) DefaultProtectionMatcher require))
       (Some (foldl (\<lambda>acc m. Or_m acc [m]) DefaultIgnoreMatcher ignore))"

record csrf_request =
  req_ctx :: "session_extra session_ctx"
  ctx_token :: "csrf_token option"
  req_errors :: "goerr list"
  req_aborted :: bool

definition fail_request :: "goerr \<Rightarrow> csrf_request \<Rightarrow> csrf_request" where
  "fail_request err q = q\<lparr>req_errors := req_errors q @ [err], req_aborted := True\<rparr>"

definition fail_if :: "nat \<Rightarrow> string option \<Rightarrow> csrf_request \<Rightarrow> csrf_request" where
  "fail_if a err q = (case err of None \<Rightarrow> q | Some msg \<Rightarrow> fail_request (NewInternalError a msg []) q)"

text \<open>The token that is expected: that of the session, or a new one that is saved.\<close>

definition expected_token ::
    "('r, session_extra) session_redis \<Rightarrow> gob_encoder \<Rightarrow> (nat \<Rightarrow> time) \<Rightarrow> nat \<Rightarrow> string \<Rightarrow> csrf_manager \<Rightarrow> 'r \<Rightarrow> csrf_request \<Rightarrow>
     ('r \<times> csrf_request \<times> csrf_token) call" where
  "expected_token rc gob now a newId m d q =
     (let loaded = LoadToken (req_ctx q);
          q = (case loaded of Inl err \<Rightarrow> fail_if a (Some err) q | Inr _ \<Rightarrow> q)
      in case loaded of
           Inr (Some token) \<Rightarrow> Returns (d, q, token)
         | _ \<Rightarrow>
            let token = Generate newId (parameterName m) (headerName m)
            in and_then (SaveToken rc gob now d (req_ctx q) token) (\<lambda>(d', c', err).
                 Returns (d', fail_if a err (q\<lparr>req_ctx := c'\<rparr>), token)))"

definition check_token :: "nat \<Rightarrow> csrf_manager \<Rightarrow> go_context \<Rightarrow> request \<Rightarrow> csrf_token \<Rightarrow> csrf_request \<Rightarrow> csrf_request" where
  "check_token a m gc r expected q =
     (case MatchesWithContext gc (requireProtection m) (IRequest r) of (matches, err1) \<Rightarrow>
      case MatchesWithContext gc (ignoreProtection m) (IRequest r) of (ignores, err2) \<Rightarrow>
        let q = fail_if a err2 (fail_if a err1 q)
        in if matches \<and> \<not> ignores then
             let actual = HeaderGet r (headerName m);
                 actual = (if actual = '''' then PostFormValue r (parameterName m) else actual)
             in if actual = '''' then fail_request (NewMissingCsrfTokenError a (TextItem ''request is missing csrf token'') []) q
                else if actual \<noteq> token_Value expected
                then fail_request (NewInvalidCsrfTokenError a (TextItem ''request has invalid csrf token'') []) q
                else q
           else q)"

definition CsrfHandlerFunc ::
    "('r, session_extra) session_redis \<Rightarrow> gob_encoder \<Rightarrow> (nat \<Rightarrow> time) \<Rightarrow> nat \<Rightarrow> string \<Rightarrow> csrf_manager \<Rightarrow> bool \<Rightarrow> go_context \<Rightarrow>
     request \<Rightarrow> 'r \<Rightarrow> csrf_request \<Rightarrow> ('r \<times> csrf_request) call" where
  "CsrfHandlerFunc rc gob now a newId m is_mutable gc r d q =
     and_then (expected_token rc gob now a newId m d q) (\<lambda>(d', q, expected).
       let q = (if is_mutable then q\<lparr>ctx_token := Some expected\<rparr>
                else fail_request (NewInternalError a ''request has invalid csrf token'' []) q)
       in Returns (d', check_token a m gc r expected q))"

section \<open>Handlers\<close>

definition CsrfDeniedHandler :: "(goerr \<Rightarrow> 'w \<Rightarrow> 'w) \<Rightarrow> goerr \<Rightarrow> 'w \<Rightarrow> 'w" where
  "CsrfDeniedHandler delegate err w = (if errors_Is err ErrorSubTypeCsrf then delegate err w else w)"

definition ChangeCsrfHandler ::
    "('r, session_extra) session_redis \<Rightarrow> gob_encoder \<Rightarrow> (nat \<Rightarrow> time) \<Rightarrow> string \<Rightarrow> bool \<Rightarrow> authentication option \<Rightarrow> authentication option \<Rightarrow>
     'r \<Rightarrow> csrf_request \<Rightarrow> ('r \<times> csrf_request) call" where
  "ChangeCsrfHandler rc gob now newId is_mutable frm to d q =
     (if \<not> IsBeingAuthenticated frm to then Returns (d, q)
      else (case LoadToken (req_ctx q) of
              Inl err \<Rightarrow> Panics
            | Inr None \<Rightarrow> if is_mutable then Returns (d, q\<lparr>ctx_token := None\<rparr>) else Panics
            | Inr (Some t) \<Rightarrow>
               (let t = Generate newId (token_ParameterName t) (token_HeaderName t)
                in and_then (SaveToken rc gob now d (req_ctx q) t) (\<lambda>(d', c', err).
                     if err \<noteq> None \<or> \<not> is_mutable then Panics
                     else Returns (d', q\<lparr>req_ctx := c', ctx_token := Some t\<rparr>)))))"

section \<open>Properties\<close>

lemma fail_simps [simp]:
  "req_aborted (fail_request e q)" "req_errors (fail_request e q) = req_errors q @ [e]"
  "req_ctx (fail_request e q) = req_ctx q" "ctx_token (fail_request e q) = ctx_token q"
  "req_aborted (fail_if a err q) \<longleftrightarrow> req_aborted q \<or> err \<noteq> None"
  "req_ctx (fail_if a err q) = req_ctx q" "ctx_token (fail_if a err q) = ctx_token q"
  by (auto simp: fail_request_def fail_if_def split: option.split)

lemma check_token_keeps [simp]:
  "req_ctx (check_token a m gc r e q) = req_ctx q" "ctx_token (check_token a m gc r e q) = ctx_token q"
  by (simp_all add: check_token_def Let_def split: prod.split)

text \<open>The token a request presents: that of the header, or that of the form if there is none.\<close>

definition presented :: "csrf_manager \<Rightarrow> request \<Rightarrow> string" where
  "presented m r = (if HeaderGet r (headerName m) = [] then PostFormValue r (parameterName m) else HeaderGet r (headerName m))"

lemma check_token_passes:
  assumes "MatchesWithContext gc (requireProtection m) (IRequest r) = (matches, err1)"
    "MatchesWithContext gc (ignoreProtection m) (IRequest r) = (ignores, err2)"
  shows "req_aborted (check_token a m gc r e q) \<longleftrightarrow> req_aborted q \<or> err1 \<noteq> None \<or> err2 \<noteq> None
    \<or> matches \<and> \<not> ignores \<and> (presented m r = [] \<or> presented m r \<noteq> token_Value e)"
  using assms by (auto simp: check_token_def presented_def Let_def)

lemma stored_token:
  assumes "SaveToken rc gob now d c token = Returns (d', c', None)"
  shows "LoadToken c' = Inr (Some token)"
proof -
  from assms obtain s where s: "ctx_session c = Some s" by (cases "ctx_session c") (auto simp: SaveToken_def)
  let ?s = "session_set s SessionKeyCsrfToken (SvOther (TokenValue token))"
  have v: "session_get ?s SessionKeyCsrfToken = SvOther (TokenValue token)" and dirty: "dirty ?s"
    by (simp_all add: session_get_def session_set_def SetDirty_def)
  from assms s obtain s' where save: "session_Save rc gob d (now 0) (now 1) (now 2) ?s = Returns (d', s', None)"
      and c': "c' = c\<lparr>ctx_session := Some s'\<rparr>"
    by (cases "session_Save rc gob d (now 0) (now 1) (now 2) ?s") (auto simp: SaveToken_def)
  from save dirty have "session_values s' = session_values ?s"
    by (cases "save_session rc gob d (now 1) (now 2) (?s\<lparr>lastAccessed := now 0\<rparr>)")
      (auto simp: session_Save_def store_Save_def Let_def split: if_splits)
  with v c' show ?thesis by (simp add: LoadToken_def session_get_def)
qed

lemma token_of_session:
  assumes "expected_token rc gob now a newId m d q = Returns (d', q', e)" "\<not> req_aborted q'"
  shows "LoadToken (req_ctx q') = Inr (Some e) \<and> (\<forall>t. LoadToken (req_ctx q) = Inr (Some t) \<longrightarrow> e = t) \<and> \<not> req_aborted q"
proof (cases "LoadToken (req_ctx q)")
  case (Inl err)
  with assms show ?thesis
    by (cases "SaveToken rc gob now d (req_ctx q) (Generate newId (parameterName m) (headerName m))")
      (auto simp: expected_token_def Let_def)
next
  case (Inr t)
  show ?thesis
  proof (cases t)
    case (Some x)
    with Inr assms show ?thesis by (auto simp: expected_token_def)
  next
    case None
    let ?t = "Generate newId (parameterName m) (headerName m)"
    from None Inr assms obtain c' err where save: "SaveToken rc gob now d (req_ctx q) ?t = Returns (d', c', err)"
        and q': "q' = fail_if a err (q\<lparr>req_ctx := c'\<rparr>)" "e = ?t"
      by (cases "SaveToken rc gob now d (req_ctx q) ?t") (auto simp: expected_token_def Let_def)
    with assms(2) have "err = None" "\<not> req_aborted q" by simp_all
    with save q' stored_token [of rc gob now d "req_ctx q" ?t d' c'] None Inr show ?thesis by (simp add: fail_if_def)
  qed
qed

lemma default_protection:
  "MatchesWithContext gc DefaultProtectionMatcher (IRequest r) =
     (\<not> (\<exists>x \<in> {''GET'', ''HEAD'', ''TRACE'', ''OPTIONS''}. MatchString x (Method r) True), None)"
  by (simp add: DefaultProtectionMatcher_def NotRequest_def wrapAsRequestMatcher_def interfaceToRequest_def eval_Not
      eval_RequestWithMethods)

text \<open>C14: A request with a method that changes state, and with no matcher that ignores it, gets past the middleware only if
  it presents the token of its session, in the header or in the form; a token that the session had before is
  the one it needs, and a request that presents it gets past.\<close>

theorem csrf_protection:
  assumes run: "CsrfHandlerFunc rc gob now a newId (configured_manager require ignore) is_mutable gc r d q = Returns (d', q')"
    and writes: "\<not> (\<exists>x \<in> {''GET'', ''HEAD'', ''TRACE'', ''OPTIONS''}. MatchString x (Method r) True)"
    and unignored: "MatchesWithContext gc (ignoreProtection (configured_manager require ignore)) (IRequest r) = (False, None)"
  shows "(\<not> req_aborted q' \<longrightarrow>
           (\<exists>t. LoadToken (req_ctx q') = Inr (Some t) \<and> ctx_token q' = Some t
              \<and> (\<forall>old. LoadToken (req_ctx q) = Inr (Some old) \<longrightarrow> t = old)
              \<and> presented (configured_manager require ignore) r = token_Value t \<and> token_Value t \<noteq> []))
    \<and> (\<forall>t. LoadToken (req_ctx q) = Inr (Some t) \<and> is_mutable \<and> \<not> req_aborted q \<and> token_Value t \<noteq> []
         \<and> presented (configured_manager require ignore) r = token_Value t \<longrightarrow> \<not> req_aborted q')"
proof -
  let ?m = "configured_manager require ignore"
  have "MatchesWithContext gc (foldl (\<lambda>acc m. Or_m acc [m]) x ms) (IRequest r) = (True, None)"
    if "MatchesWithContext gc x (IRequest r) = (True, None)" for x ms
    using that by (induction ms arbitrary: x) (simp_all add: eval_Or)
  then have req: "MatchesWithContext gc (requireProtection ?m) (IRequest r) = (True, None)"
    using default_protection [of gc r] writes by (simp add: configured_manager_def newManager_def)
  from run obtain q1 e where e: "expected_token rc gob now a newId ?m d q = Returns (d', q1, e)"
      and q': "q' = check_token a ?m gc r e (if is_mutable then q1\<lparr>ctx_token := Some e\<rparr>
                else fail_request (NewInternalError a ''request has invalid csrf token'' []) q1)"
    by (cases "expected_token rc gob now a newId ?m d q") (auto simp: CsrfHandlerFunc_def Let_def)
  note pass = check_token_passes [OF req unignored]
  have "\<exists>t. LoadToken (req_ctx q') = Inr (Some t) \<and> ctx_token q' = Some t
              \<and> (\<forall>old. LoadToken (req_ctx q) = Inr (Some old) \<longrightarrow> t = old)
              \<and> presented ?m r = token_Value t \<and> token_Value t \<noteq> []" if "\<not> req_aborted q'"
  proof -
    from that pass [of a e] q' have ok: "is_mutable" "\<not> req_aborted q1" "presented ?m r = token_Value e" "token_Value e \<noteq> []"
      by (auto split: if_splits)
    with token_of_session [OF e ok(2)] q' show ?thesis by simp
  qed
  moreover have "\<not> req_aborted q'"
    if "LoadToken (req_ctx q) = Inr (Some t)" "is_mutable" "\<not> req_aborted q" "token_Value t \<noteq> []" "presented ?m r = token_Value t" for t
  proof -
    from that e have "q1 = q" "e = t" by (auto simp: expected_token_def)
    with that q' pass [of a e] show ?thesis by simp
  qed
  ultimately show ?thesis by blast
qed


definition post_request :: "string \<Rightarrow> request" where
  "post_request token =
     \<lparr>Host = [], Method = ''POST'', URLPath = ''/'', HeaderGet = \<lambda>h. if h = CsrfHeaderName then token else [], ParseForm = None,
      FormGet = \<lambda>_. [], FormValue = \<lambda>_. [], PostFormValue = \<lambda>_. []\<rparr>"

definition token_session :: "session_extra session" where
  "token_session = session_set (CreateSession (NewRedisStore []) 0 0 ''1'' DefaultName) SessionKeyCsrfToken
     (SvOther (TokenValue (Generate ''secret'' CsrfParamName CsrfHeaderName)))"

definition token_request :: csrf_request where
  "token_request = \<lparr>req_ctx = \<lparr>ctx_session = Some token_session, ctx_auth = None, cookies = [], abort_error = None\<rparr>,
     ctx_token = None, req_errors = [], req_aborted = False\<rparr>"

lemma load_sample_token: "LoadToken (req_ctx token_request) = Inr (Some (Generate ''secret'' CsrfParamName CsrfHeaderName))"
  by (simp add: LoadToken_def token_request_def token_session_def session_get_def session_set_def SetDirty_def)

theorem csrf_protection_witness:
  "(\<exists>d' q'. CsrfHandlerFunc mem_client (\<lambda>_. None) (\<lambda>_. 0) 0 ''new'' (configured_manager [] []) True \<lparr>ContextPath = []\<rparr>
       (post_request ''secret'') no_data token_request = Returns (d', q') \<and> \<not> req_aborted q')
   \<and> (\<exists>d' q'. CsrfHandlerFunc mem_client (\<lambda>_. None) (\<lambda>_. 0) 0 ''new'' (configured_manager [] []) True \<lparr>ContextPath = []\<rparr>
       (post_request ''guess'') no_data token_request = Returns (d', q') \<and> req_aborted q')"
proof -
  let ?run = "\<lambda>token. CsrfHandlerFunc mem_client (\<lambda>_. None) (\<lambda>_. 0) 0 ''new'' (configured_manager [] []) True \<lparr>ContextPath = []\<rparr>
       (post_request token) no_data token_request"
  have ex: "\<exists>d' q'. ?run token = Returns (d', q')" for token
    by (simp add: CsrfHandlerFunc_def expected_token_def load_sample_token)
  have writes: "\<not> (\<exists>x \<in> {''GET'', ''HEAD'', ''TRACE'', ''OPTIONS''}. MatchString x (Method (post_request token)) True)" for token
    by (simp add: MatchString_def post_request_def strings_ToLower_def to_lower_def)
  have unign: "MatchesWithContext \<lparr>ContextPath = []\<rparr> (ignoreProtection (configured_manager [] [])) (IRequest (post_request token)) = (False, None)" for token
    by (simp add: configured_manager_def newManager_def DefaultIgnoreMatcher_def NoneRequest_def wrapAsRequestMatcher_def
        interfaceToRequest_def None_m_def)
  have pr: "presented (configured_manager [] []) (post_request token) = token" for token
    by (simp add: presented_def post_request_def configured_manager_def newManager_def)
  from ex obtain d1 q1 where r1: "?run ''secret'' = Returns (d1, q1)" by blast
  from csrf_protection [OF r1 writes unign] have "\<not> req_aborted q1"
    by (simp add: load_sample_token pr Generate_def) (simp add: token_request_def)
  moreover from ex obtain d2 q2 where r2: "?run ''guess'' = Returns (d2, q2)" by blast
  moreover from csrf_protection [OF r2 writes unign] have "req_aborted q2"
    by (auto simp: load_sample_token pr Generate_def)
  ultimately show ?thesis using r1 by blast
qed

text \<open>A login replaces the token of the session: the new one is stored and expected from then on. A failure panics.\<close>

lemma csrf_token_changes_at_login:
  assumes "IsBeingAuthenticated frm to" "LoadToken (req_ctx q) = Inr (Some old)"
    and "ChangeCsrfHandler rc gob now newId is_mutable frm to d q = r"
  shows "r = Panics \<or> r = Runs_forever \<or> (\<exists>d' q'. r = Returns (d', q')
    \<and> LoadToken (req_ctx q') = Inr (Some (old\<lparr>token_Value := newId\<rparr>)) \<and> ctx_token q' = Some (old\<lparr>token_Value := newId\<rparr>))"
proof -
  let ?t = "Generate newId (token_ParameterName old) (token_HeaderName old)"
  have t: "?t = old\<lparr>token_Value := newId\<rparr>" by (cases old) (simp add: Generate_def)
  show ?thesis
  proof (cases "SaveToken rc gob now d (req_ctx q) ?t")
    case (Returns x)
    obtain d' c' err where x: "x = (d', c', err)" by (cases x)
    show ?thesis
    proof (cases "err = None \<and> is_mutable")
      case True
      with stored_token [of rc gob now d "req_ctx q" ?t d' c'] Returns x assms t show ?thesis
        by (auto simp: ChangeCsrfHandler_def)
    next
      case False
      with Returns x assms show ?thesis by (auto simp: ChangeCsrfHandler_def)
    qed
  qed (use assms in \<open>auto simp: ChangeCsrfHandler_def\<close>)
qed

end
