(* ===== verification/Consul_Lock.thy ===== *)
theory Consul_Lock
  imports Prelude
begin

text \<open>
  Distributed locks over Consul, \<^verbatim>\<open>pkg/dsync/consul\<close>: the lock object and its goroutine
  (\<^verbatim>\<open>lock.go\<close>), and the manager that keeps one Consul session for all locks of a process
  (\<^verbatim>\<open>manager.go\<close>).

  The state of one process is the record \<open>sync_system\<close>. Every goroutine has a program counter that names the
  point where it is in the source; one step runs from one such point to the next, and the steps of all goroutines,
  of the callers and of the rest of the world interleave freely. A step never spans a call of Consul and a
  change of a lock object other than where the source holds the mutex around both (\<^verbatim>\<open>release\<close>).
  The Consul client is the record \<open>consul\<close> over an abstract state; the wait index of blocking queries, which
  says only how long they block, is left out.
\<close>

section \<open>Consul\<close>

text \<open>An error of the client, with the two questions the code asks of it.\<close>

record kv_error =
  kv_msg :: string
  kv_retryable :: bool
  kv_canceled :: bool

record kv_pair =
  pair_Key :: string
  pair_Value :: string
  pair_Session :: string
  pair_Flags :: "64 word"

text \<open>The flag of \<open>kvGet\<close> and \<open>sessionRenew\<close> says that the context of the request is done.\<close>

record 'k consul =
  kvAcquire :: "'k \<Rightarrow> kv_pair \<Rightarrow> 'k \<times> (kv_error + bool)"
  kvGet :: "'k \<Rightarrow> string \<Rightarrow> bool \<Rightarrow> kv_error + kv_pair option"
  kvRelease :: "'k \<Rightarrow> kv_pair \<Rightarrow> 'k \<times> kv_error option"
  sessionCreate :: "'k \<Rightarrow> bool \<Rightarrow> 'k \<times> (kv_error + string)"
  sessionRenew :: "'k \<Rightarrow> string \<Rightarrow> bool \<Rightarrow> 'k \<times> kv_error option"

section \<open>Locks\<close>

datatype lock_error =
    Canceled
  | DeadlineExceeded
  | ErrLockUnavailable string
  | ErrUnlockFailed kv_error
  | ErrSessionUnavailable
  | ErrSyncManagerStopped
  | ErrLockConflict
  | FailedToAcquire kv_error
  | FailedToRead kv_error
  | LockRevoked
  | ClientError kv_error
  | KeyMissing

text \<open>\<^verbatim>\<open>errors.Is(e, context.Canceled) || errors.Is(e, context.DeadlineExceeded)\<close>; an error that was formatted
  into the message of another one is not found.\<close>

fun is_canceled :: "lock_error \<Rightarrow> bool" where
  "is_canceled Canceled = True"
| "is_canceled DeadlineExceeded = True"
| "is_canceled (ClientError e) = kv_canceled e"
| "is_canceled _ = False"

definition lockFlagValue :: "64 word" where "lockFlagValue = 0x275f2b610e0c3019"

datatype consulLockState = stateUnknown | stateAcquired | stateError

text \<open>
  A lock. Channels are numbered: \<open>lockLostCh\<close> is the current one and \<open>open_chs\<close> are those not closed.
  \<open>stateCond\<close> counts the broadcasts, and a context is the number of the goroutine it was made for.
  \<open>crashed\<close>: a closed channel was closed again, which panics.
\<close>

record consul_lock =
  lock_key :: string
  lock_value :: string
  loopContext :: "nat option"
  lockLostCh :: nat
  open_chs :: "nat list"
  lock_state :: consulLockState
  stateCond :: nat
  lock_session :: string
  refreshFunc :: "(nat \<times> nat) option"
  lastErr :: "lock_error option"
  crashed :: bool

definition newConsulLock :: "string \<Rightarrow> string \<Rightarrow> consul_lock" where
  "newConsulLock key val =
     \<lparr>lock_key = key, lock_value = val, loopContext = None, lockLostCh = 0, open_chs = [], lock_state = stateUnknown,
      stateCond = 0, lock_session = '''', refreshFunc = None, lastErr = None, crashed = False\<rparr>"

text \<open>What \<^verbatim>\<open>Lock\<close> and \<^verbatim>\<open>TryLock\<close> wait for: \<open>None\<close> goes on waiting, \<open>Some\<close> returns the error or nil.\<close>

definition lock_matcher :: "consul_lock \<Rightarrow> lock_error option option" where
  "lock_matcher l =
     (if lock_state l = stateAcquired then Some None
      else if loopContext l = None then Some (Some Canceled)
      else None)"

definition try_matcher :: "consul_lock \<Rightarrow> lock_error option option" where
  "try_matcher l =
     (if lock_state l = stateAcquired then Some None
      else if lock_state l = stateError then Some (lastErr l)
      else if loopContext l = None then Some (Some Canceled)
      else None)"

definition close_lost :: "consul_lock \<Rightarrow> consul_lock" where
  "close_lost l =
     (if lockLostCh l \<in> set (open_chs l) then l\<lparr>open_chs := removeAll (lockLostCh l) (open_chs l)\<rparr>
      else l\<lparr>crashed := True\<rparr>)"

definition make_lost :: "consul_lock \<Rightarrow> consul_lock" where
  "make_lost l = l\<lparr>lockLostCh := Suc (lockLostCh l), open_chs := Suc (lockLostCh l) # open_chs l\<rparr>"

definition updateState :: "consulLockState option \<Rightarrow> (consul_lock \<Rightarrow> consul_lock) \<Rightarrow> consul_lock \<Rightarrow> consul_lock" where
  "updateState state setter l =
     (let l = setter l
      in case state of
           None \<Rightarrow> l
         | Some st \<Rightarrow>
            let l1 = (if st = stateAcquired \<and> lock_state l \<noteq> st then make_lost l
                      else if lock_state l = stateAcquired \<and> lock_state l \<noteq> st then close_lost l
                      else l);
                l2 = (if st = stateError \<or> lock_state l \<noteq> st then l1\<lparr>stateCond := Suc (stateCond l1)\<rparr> else l1)
            in l2\<lparr>lock_state := st\<rparr>)"

section \<open>Processes\<close>

text \<open>Where a lock goroutine is. The string is the session it works with.\<close>

datatype loop_pc =
    NotStarted
  | AtHead \<comment> \<open>the select at the top of the loop\<close>
  | AtRefresh \<comment> \<open>making the context of this acquisition\<close>
  | AtSession \<comment> \<open>calling \<open>SessionFunc\<close>\<close>
  | AtSessionWait nat \<comment> \<open>waiting for a session since that broadcast\<close>
  | AtSetSession string
  | AtAcquire string
  | AtWait string \<comment> \<open>reading the owner in \<open>handleAcquisitionFailure\<close>\<close>
  | AtWaitCheck string \<comment> \<open>its check of the context\<close>
  | AtDelay string \<comment> \<open>about to pause\<close>
  | AtSleep string \<comment> \<open>pausing\<close>
  | AtAcquired string \<comment> \<open>about to set \<open>stateAcquired\<close>\<close>
  | AtMonitor string "lock_error option" \<comment> \<open>the loop of \<open>monitorLock\<close>, with its variable \<open>err\<close>\<close>
  | AtFailed lock_error \<comment> \<open>about to set \<open>stateError\<close>\<close>
  | AtEnd \<comment> \<open>about to set \<open>stateUnknown\<close>\<close>
  | Ended

record lock_loop =
  loop_key :: string
  loop_pc :: loop_pc
  loop_cancelled :: bool
  loop_gen :: nat
  loop_refreshed :: bool

text \<open>Where the goroutine of the manager is.\<close>

datatype session_pc =
    SessionIdle | SessionHead | SessionReset | SessionCreate | SessionUpdate string | SessionKeep string
  | SessionNotify | SessionEnded

record sync_manager =
  shutdown :: bool
  session :: string
  sessionCond :: nat
  session_pc :: session_pc
  session_cancelled :: bool

text \<open>A call of \<^verbatim>\<open>Lock\<close> (or \<^verbatim>\<open>TryLock\<close>, if the flag is set) of a lock.\<close>

datatype caller = Checking string bool | Waiting string bool nat | Returned "lock_error option"

record 'k sync_system =
  kv :: 'k
  manager :: sync_manager
  locks :: "string \<rightharpoonup> consul_lock"
  loops :: "nat \<Rightarrow> lock_loop"
  next_loop :: nat
  callers :: "nat \<rightharpoonup> caller"
  app_done :: bool

definition NewConsulLockManager :: sync_manager where
  "NewConsulLockManager =
     \<lparr>shutdown = False, session = '''', sessionCond = 0, session_pc = SessionIdle, session_cancelled = False\<rparr>"

definition no_loop :: lock_loop where
  "no_loop = \<lparr>loop_key = '''', loop_pc = NotStarted, loop_cancelled = False, loop_gen = 0, loop_refreshed = False\<rparr>"

definition new_system :: "'k \<Rightarrow> 'k sync_system" where
  "new_system k =
     \<lparr>kv = k, manager = NewConsulLockManager, locks = Map.empty, loops = (\<lambda>_. no_loop), next_loop = 0,
      callers = Map.empty, app_done = False\<rparr>"

text \<open>The context of a goroutine, and that of its current acquisition, are done.\<close>

definition ctx_done :: "'k sync_system \<Rightarrow> lock_loop \<Rightarrow> bool" where
  "ctx_done s p \<longleftrightarrow> app_done s \<or> loop_cancelled p"

definition refresh_done :: "'k sync_system \<Rightarrow> lock_loop \<Rightarrow> bool" where
  "refresh_done s p \<longleftrightarrow> ctx_done s p \<or> loop_refreshed p"

definition set_lock :: "string \<Rightarrow> (consul_lock \<Rightarrow> consul_lock) \<Rightarrow> 'k sync_system \<Rightarrow> 'k sync_system" where
  "set_lock key f s = s\<lparr>locks := (locks s)(key := map_option f (locks s key))\<rparr>"

definition set_loop :: "nat \<Rightarrow> (lock_loop \<Rightarrow> lock_loop) \<Rightarrow> 'k sync_system \<Rightarrow> 'k sync_system" where
  "set_loop i f s = s\<lparr>loops := (loops s)(i := f (loops s i))\<rparr>"

definition goto :: "nat \<Rightarrow> loop_pc \<Rightarrow> 'k sync_system \<Rightarrow> 'k sync_system" where
  "goto i pc = set_loop i (\<lambda>p. p\<lparr>loop_pc := pc\<rparr>)"

definition change_state :: "nat \<Rightarrow> consulLockState option \<Rightarrow> (consul_lock \<Rightarrow> consul_lock) \<Rightarrow> 'k sync_system \<Rightarrow> 'k sync_system" where
  "change_state i st setter s = set_lock (loop_key (loops s i)) (updateState st setter) s"

section \<open>Operations of a lock\<close>

definition startLoop :: "string \<Rightarrow> 'k sync_system \<Rightarrow> 'k sync_system" where
  "startLoop key s =
     (let i = next_loop s
      in set_lock key (\<lambda>l. l\<lparr>loopContext := Some i\<rparr>)
           (set_loop i (\<lambda>_. no_loop\<lparr>loop_key := key, loop_pc := AtHead\<rparr>) (s\<lparr>next_loop := Suc i\<rparr>)))"

definition lazyStart :: "string \<Rightarrow> 'k sync_system \<Rightarrow> 'k sync_system" where
  "lazyStart key s =
     (case locks s key of
        None \<Rightarrow> s
      | Some l \<Rightarrow> if loopContext l = None then startLoop key s else s)"

definition stopLoop :: "string \<Rightarrow> nat \<Rightarrow> 'k sync_system \<Rightarrow> 'k sync_system" where
  "stopLoop key i s =
     set_lock key (\<lambda>l. l\<lparr>loopContext := None\<rparr>) (set_loop i (\<lambda>p. p\<lparr>loop_cancelled := True\<rparr>) s)"

definition refresh :: "string \<Rightarrow> 'k sync_system \<Rightarrow> 'k sync_system" where
  "refresh key s =
     (case locks s key of
        None \<Rightarrow> s
      | Some l \<Rightarrow>
         (case refreshFunc l of
            None \<Rightarrow> s
          | Some (i, gen) \<Rightarrow> if loop_gen (loops s i) = gen then set_loop i (\<lambda>p. p\<lparr>loop_refreshed := True\<rparr>) s else s))"

definition release :: "'k consul \<Rightarrow> string \<Rightarrow> 'k sync_system \<Rightarrow> 'k sync_system \<times> lock_error option" where
  "release kc key s =
     (case locks s key of
        None \<Rightarrow> (s, None)
      | Some l \<Rightarrow>
         (case loopContext l of
            None \<Rightarrow> (s, None)
          | Some i \<Rightarrow>
              let s = stopLoop key i s
              in if lock_session l = '''' then (s, None)
                 else (case kvRelease kc (kv s) \<lparr>pair_Key = lock_key l, pair_Value = '''', pair_Session = lock_session l,
                              pair_Flags = lockFlagValue\<rparr> of
                         (k, err) \<Rightarrow> (s\<lparr>kv := k\<rparr>, map_option ErrUnlockFailed err))))"

section \<open>The manager\<close>

definition manager_Lock :: "string \<Rightarrow> string \<Rightarrow> 'k sync_system \<Rightarrow> 'k sync_system \<times> lock_error option" where
  "manager_Lock key val s =
     (if key = '''' then (s, Some KeyMissing)
      else if shutdown (manager s) then (s, Some ErrSyncManagerStopped)
      else if locks s key \<noteq> None then (s, None)
      else (s\<lparr>locks := (locks s)(key \<mapsto> newConsulLock key val)\<rparr>, None))"

definition manager_startLoop :: "'k sync_system \<Rightarrow> lock_error + 'k sync_system" where
  "manager_startLoop s =
     (if shutdown (manager s) then Inl ErrSyncManagerStopped
      else if session_pc (manager s) = SessionIdle then Inr (s\<lparr>manager := (manager s)\<lparr>session_pc := SessionHead\<rparr>\<rparr>)
      else Inr s)"

text \<open>\<open>keys\<close> are the keys of the locks in the order of the iteration over the map.\<close>

definition manager_Stop :: "'k consul \<Rightarrow> string list \<Rightarrow> 'k sync_system \<Rightarrow> 'k sync_system" where
  "manager_Stop kc keys s =
     fold (\<lambda>key s. fst (release kc key s)) keys (s\<lparr>manager := (manager s)\<lparr>shutdown := True, session_cancelled := True\<rparr>\<rparr>)"

definition updateSession :: "string \<Rightarrow> sync_manager \<Rightarrow> sync_manager" where
  "updateSession sid m =
     (if session m \<noteq> sid then m\<lparr>session := sid, sessionCond := Suc (sessionCond m)\<rparr> else m)"

definition session_step :: "'k consul \<Rightarrow> string list \<Rightarrow> 'k sync_system \<Rightarrow> 'k sync_system option" where
  "session_step kc keys s =
     (let m = manager s;
          done = app_done s \<or> session_cancelled m;
          at = (\<lambda>pc s. s\<lparr>manager := (manager s)\<lparr>session_pc := pc\<rparr>\<rparr>)
      in case session_pc m of
           SessionIdle \<Rightarrow> None
         | SessionHead \<Rightarrow> Some (at (if done then SessionEnded else SessionReset) s)
         | SessionReset \<Rightarrow> Some (at SessionCreate (s\<lparr>manager := updateSession '''' m\<rparr>))
         | SessionCreate \<Rightarrow>
            (case sessionCreate kc (kv s) done of
               (k, Inl e) \<Rightarrow> Some (at SessionHead (s\<lparr>kv := k\<rparr>))
             | (k, Inr sid) \<Rightarrow> Some (at (SessionUpdate sid) (s\<lparr>kv := k\<rparr>)))
         | SessionUpdate sid \<Rightarrow> Some (at (SessionKeep sid) (s\<lparr>manager := updateSession sid m\<rparr>))
         | SessionKeep sid \<Rightarrow>
            if done then Some (at SessionNotify s)
            else (case sessionRenew kc (kv s) sid done of
                    (k, None) \<Rightarrow> Some (s\<lparr>kv := k\<rparr>)
                  | (k, Some e) \<Rightarrow> Some (at SessionNotify (s\<lparr>kv := k\<rparr>)))
         | SessionNotify \<Rightarrow> Some (at SessionHead (fold refresh keys s))
         | SessionEnded \<Rightarrow> None)"

section \<open>The goroutine of a lock\<close>

text \<open>
  Where the loop goes when a call returned the error \<open>e\<close>. In the steps below \<open>fired\<close> chooses the branch of a
  \<^verbatim>\<open>select\<close> that waits for an event or for the context: with \<open>fired\<close> the event, otherwise the context.
\<close>

definition on_error :: "lock_error \<Rightarrow> loop_pc" where
  "on_error e = (if is_canceled e then AtHead else AtFailed e)"

definition take_session :: "nat \<Rightarrow> 'k sync_system \<Rightarrow> 'k sync_system" where
  "take_session i s =
     goto i (if session (manager s) = '''' then AtSessionWait (sessionCond (manager s))
             else AtSetSession (session (manager s))) s"

definition waitForSession :: "bool \<Rightarrow> nat \<Rightarrow> 'k sync_system \<Rightarrow> 'k sync_system option" where
  "waitForSession fired i s =
     (case loop_pc (loops s i) of
        AtSession \<Rightarrow>
          Some (case manager_startLoop s of
                  Inl e \<Rightarrow> goto i (AtFailed ErrSessionUnavailable) s
                | Inr s \<Rightarrow> take_session i s)
      | AtSessionWait n \<Rightarrow>
          if fired then (if sessionCond (manager s) \<noteq> n then Some (take_session i s) else None)
          else if refresh_done s (loops s i) then Some (goto i AtHead s)
          else None
      | _ \<Rightarrow> None)"

definition handleAcquisitionFailure :: "'k consul \<Rightarrow> nat \<Rightarrow> 'k sync_system \<Rightarrow> 'k sync_system option" where
  "handleAcquisitionFailure kc i s =
     (let p = loops s i
      in case loop_pc p of
           AtWait sid \<Rightarrow>
             (case kvGet kc (kv s) (loop_key p) (refresh_done s p) of
                Inl e \<Rightarrow> Some (goto i (on_error (FailedToRead e)) s)
              | Inr pair \<Rightarrow>
                 if (case pair of None \<Rightarrow> False | Some pr \<Rightarrow> pair_Flags pr \<noteq> lockFlagValue)
                 then Some (goto i (on_error ErrLockConflict) s)
                 else
                   let owner = (case pair of None \<Rightarrow> '''' | Some pr \<Rightarrow> pair_Session pr)
                   in if owner = sid then Some (goto i (AtAcquired sid) s)
                      else if owner = '''' then Some (goto i (AtDelay sid) s)
                      else Some (goto i (AtWaitCheck sid)
                             (change_state i (Some stateError) (\<lambda>l. l\<lparr>lastErr := Some (ErrLockUnavailable (loop_key p))\<rparr>) s)))
         | AtWaitCheck sid \<Rightarrow> Some (goto i (if refresh_done s p then on_error Canceled else AtWait sid) s)
         | _ \<Rightarrow> None)"

definition acquireLock :: "'k consul \<Rightarrow> bool \<Rightarrow> nat \<Rightarrow> 'k sync_system \<Rightarrow> 'k sync_system option" where
  "acquireLock kc fired i s =
     (let p = loops s i
      in case loop_pc p of
           AtAcquire sid \<Rightarrow>
             (case kvAcquire kc (kv s) \<lparr>pair_Key = loop_key p,
                     pair_Value = (case locks s (loop_key p) of None \<Rightarrow> '''' | Some l \<Rightarrow> lock_value l),
                     pair_Session = sid, pair_Flags = lockFlagValue\<rparr> of
                (k, Inl e) \<Rightarrow> Some (goto i (on_error (FailedToAcquire e)) (s\<lparr>kv := k\<rparr>))
              | (k, Inr True) \<Rightarrow> Some (goto i (AtAcquired sid) (s\<lparr>kv := k\<rparr>))
              | (k, Inr False) \<Rightarrow> Some (goto i (AtWait sid) (s\<lparr>kv := k\<rparr>)))
         | AtDelay sid \<Rightarrow> Some (goto i (if refresh_done s p then on_error Canceled else AtSleep sid) s)
         | AtSleep sid \<Rightarrow>
             if fired then Some (goto i (AtAcquire sid) s)
             else if refresh_done s p then Some (goto i (on_error Canceled) s)
             else None
         | _ \<Rightarrow> handleAcquisitionFailure kc i s)"

definition monitorLock :: "'k consul \<Rightarrow> nat \<Rightarrow> 'k sync_system \<Rightarrow> 'k sync_system option" where
  "monitorLock kc i s =
     (let p = loops s i
      in case loop_pc p of
           AtMonitor sid err \<Rightarrow>
             if refresh_done s p then Some (goto i (on_error (case err of None \<Rightarrow> Canceled | Some e \<Rightarrow> e)) s)
             else (case kvGet kc (kv s) (loop_key p) False of
                     Inl e \<Rightarrow>
                       if kv_retryable e then Some (goto i (AtMonitor sid (Some (ClientError e))) s)
                       else Some (goto i (on_error (ClientError e)) s)
                   | Inr pair \<Rightarrow>
                       if (case pair of None \<Rightarrow> False | Some pr \<Rightarrow> pair_Session pr = sid)
                       then Some (goto i (AtMonitor sid None) s)
                       else Some (goto i (on_error LockRevoked) s))
         | _ \<Rightarrow> None)"

definition lockLoop :: "'k consul \<Rightarrow> bool \<Rightarrow> nat \<Rightarrow> 'k sync_system \<Rightarrow> 'k sync_system option" where
  "lockLoop kc fired i s =
     (let p = loops s i
      in case loop_pc p of
           NotStarted \<Rightarrow> None
         | AtHead \<Rightarrow> Some (goto i (if ctx_done s p then AtEnd else AtRefresh) s)
         | AtRefresh \<Rightarrow>
             let gen = Suc (loop_gen p)
             in Some (change_state i None (\<lambda>l. l\<lparr>refreshFunc := Some (i, gen)\<rparr>)
                  (set_loop i (\<lambda>p. p\<lparr>loop_gen := gen, loop_refreshed := False, loop_pc := AtSession\<rparr>) s))
         | AtSession \<Rightarrow> waitForSession fired i s
         | AtSessionWait n \<Rightarrow> waitForSession fired i s
         | AtSetSession sid \<Rightarrow>
             Some (goto i (AtAcquire sid) (change_state i None (\<lambda>l. l\<lparr>lock_session := sid\<rparr>) s))
         | AtAcquired sid \<Rightarrow>
             Some (goto i (AtMonitor sid None) (change_state i (Some stateAcquired) (\<lambda>l. l\<lparr>lastErr := None\<rparr>) s))
         | AtMonitor sid err \<Rightarrow> monitorLock kc i s
         | AtFailed e \<Rightarrow>
             Some (goto i AtHead (change_state i (Some stateError) (\<lambda>l. l\<lparr>lastErr := Some e\<rparr>) s))
         | AtEnd \<Rightarrow>
             Some (set_loop i (\<lambda>p. p\<lparr>loop_pc := Ended, loop_cancelled := True\<rparr>) (change_state i (Some stateUnknown) id s))
         | Ended \<Rightarrow> None
         | _ \<Rightarrow> acquireLock kc fired i s)"

section \<open>Callers\<close>

definition call_lock :: "nat \<Rightarrow> string \<Rightarrow> bool \<Rightarrow> 'k sync_system \<Rightarrow> 'k sync_system option" where
  "call_lock c key try s =
     (if locks s key = None then None
      else (case callers s c of
              Some (Checking _ _) \<Rightarrow> None
            | Some (Waiting _ _ _) \<Rightarrow> None
            | _ \<Rightarrow> Some ((lazyStart key s)\<lparr>callers := (callers s)(c \<mapsto> Checking key try)\<rparr>)))"

definition waitForState :: "nat \<Rightarrow> 'k sync_system \<Rightarrow> 'k sync_system option" where
  "waitForState c s =
     (case callers s c of
        Some (Checking key try) \<Rightarrow>
          (case locks s key of
             None \<Rightarrow> None
           | Some l \<Rightarrow>
              (case (if try then try_matcher l else lock_matcher l) of
                 Some err \<Rightarrow> Some (s\<lparr>callers := (callers s)(c \<mapsto> Returned err)\<rparr>)
               | None \<Rightarrow> Some (s\<lparr>callers := (callers s)(c \<mapsto> Waiting key try (stateCond l))\<rparr>)))
      | Some (Waiting key try n) \<Rightarrow>
          (case locks s key of
             None \<Rightarrow> None
           | Some l \<Rightarrow> if stateCond l \<noteq> n then Some (s\<lparr>callers := (callers s)(c \<mapsto> Checking key try)\<rparr>) else None)
      | _ \<Rightarrow> None)"

text \<open>The context of a waiting caller is done.\<close>

definition give_up :: "nat \<Rightarrow> lock_error \<Rightarrow> 'k sync_system \<Rightarrow> 'k sync_system option" where
  "give_up c e s =
     (case callers s c of
        Some (Waiting key try n) \<Rightarrow> if is_canceled e then Some (s\<lparr>callers := (callers s)(c \<mapsto> Returned (Some e))\<rparr>) else None
      | _ \<Rightarrow> None)"

section \<open>Interleaving\<close>

text \<open>All steps of a process; \<open>world\<close> are the changes that other processes and Consul itself make.\<close>

inductive sync_step :: "'k consul \<Rightarrow> ('k \<Rightarrow> 'k \<Rightarrow> bool) \<Rightarrow> 'k sync_system \<Rightarrow> 'k sync_system \<Rightarrow> bool" for kc world where
  Create: "sync_step kc world s (fst (manager_Lock key val s))"
| Call: "call_lock c key try s = Some s' \<Longrightarrow> sync_step kc world s s'"
| Wait: "waitForState c s = Some s' \<Longrightarrow> sync_step kc world s s'"
| GiveUp: "give_up c e s = Some s' \<Longrightarrow> sync_step kc world s s'"
| Release: "sync_step kc world s (fst (release kc key s))"
| Stop: "sync_step kc world s (manager_Stop kc keys s)"
| Loop: "lockLoop kc fired i s = Some s' \<Longrightarrow> sync_step kc world s s'"
| Session: "session_step kc keys s = Some s' \<Longrightarrow> sync_step kc world s s'"
| World: "world (kv s) k \<Longrightarrow> sync_step kc world s (s\<lparr>kv := k\<rparr>)"
| AppDone: "sync_step kc world s (s\<lparr>app_done := True\<rparr>)"

abbreviation sync_reach :: "'k consul \<Rightarrow> ('k \<Rightarrow> 'k \<Rightarrow> bool) \<Rightarrow> 'k sync_system \<Rightarrow> 'k sync_system \<Rightarrow> bool" where
  "sync_reach kc world \<equiv> (sync_step kc world)\<^sup>*\<^sup>*"


section \<open>What a step does to a lock\<close>

text \<open>
  The channel is open exactly while the lock is acquired, and nothing was closed twice. A lock \<open>evolves\<close>
  when this is kept and its state does not change without a broadcast.
\<close>

definition lock_ok :: "consul_lock \<Rightarrow> bool" where
  "lock_ok l \<longleftrightarrow> \<not> crashed l \<and> open_chs l = (if lock_state l = stateAcquired then [lockLostCh l] else [])"

definition evolves :: "consul_lock \<Rightarrow> consul_lock \<Rightarrow> bool" where
  "evolves l l' \<longleftrightarrow> (lock_ok l \<longrightarrow> lock_ok l') \<and> lock_key l' = lock_key l \<and> stateCond l \<le> stateCond l'
     \<and> (stateCond l' = stateCond l \<longrightarrow> lock_state l' = lock_state l)"

lemma evolves_refl [simp, intro]: "evolves l l"
  by (simp add: evolves_def)

lemma evolves_trans [trans]: "evolves l l' \<Longrightarrow> evolves l' l'' \<Longrightarrow> evolves l l''"
  by (auto simp: evolves_def)

lemma evolves_fields [simp]:
  "evolves l (l\<lparr>loopContext := c\<rparr>)" "evolves l (l\<lparr>refreshFunc := r\<rparr>)" "evolves l (l\<lparr>lock_session := sid\<rparr>)"
  "evolves l (l\<lparr>lastErr := e\<rparr>)"
  by (simp_all add: evolves_def lock_ok_def)

lemma evolves_updateState_id: "evolves l (updateState st id l)"
  by (cases st; cases "lock_state l")
    (auto simp: updateState_def evolves_def lock_ok_def make_lost_def close_lost_def Let_def)

lemma updateState_setter: "updateState st f l = updateState st id (f l)"
  by (simp add: updateState_def)

lemma evolves_updateState [simp]: "(\<And>l. evolves l (f l)) \<Longrightarrow> evolves l (updateState st f l)"
  by (subst updateState_setter) (blast intro: evolves_trans evolves_updateState_id)

text \<open>The same for all locks of a process; only the manager's \<open>Lock\<close> adds one.\<close>

definition evolved :: "'k sync_system \<Rightarrow> 'k sync_system \<Rightarrow> bool" where
  "evolved s s' \<longleftrightarrow> (\<forall>key. rel_option evolves (locks s key) (locks s' key))"

lemma evolved_same [simp]: "locks s' = locks s \<Longrightarrow> evolved s s'"
  by (simp add: evolved_def option.rel_refl)

lemma evolved_trans [trans]: "evolved s s' \<Longrightarrow> evolved s' s'' \<Longrightarrow> evolved s s''"
  unfolding evolved_def by (metis (no_types, lifting) evolves_trans option.rel_sel)

lemma evolved_set_lock: "(\<And>l. evolves l (f l)) \<Longrightarrow> evolved s (set_lock key f s)"
  by (auto simp: evolved_def set_lock_def option.rel_map option.rel_refl option.rel_refl_strong)

lemma evolved_set_lock_after: "evolved s s' \<Longrightarrow> (\<And>l. evolves l (f l)) \<Longrightarrow> evolved s (set_lock key f s')"
  by (blast intro: evolved_trans evolved_set_lock)

lemma locks_goto [simp]: "locks (set_loop i f s) = locks s" "locks (goto i pc s) = locks s"
  by (simp_all add: goto_def set_loop_def)

lemma evolved_loops [simp]: "evolved s (set_loop i f s') \<longleftrightarrow> evolved s s'" "evolved s (goto i pc s') \<longleftrightarrow> evolved s s'"
  by (simp_all add: evolved_def)

lemma evolved_fields [simp]:
  "evolved s (s'\<lparr>kv := k\<rparr>) \<longleftrightarrow> evolved s s'" "evolved s (s'\<lparr>manager := m\<rparr>) \<longleftrightarrow> evolved s s'"
  "evolved s (s'\<lparr>next_loop := n\<rparr>) \<longleftrightarrow> evolved s s'" "evolved s (s'\<lparr>callers := cs\<rparr>) \<longleftrightarrow> evolved s s'"
  "evolved s (s'\<lparr>app_done := b\<rparr>) \<longleftrightarrow> evolved s s'"
  by (simp_all add: evolved_def)

lemma evolved_change_state: "(\<And>l. evolves l (f l)) \<Longrightarrow> evolved s s' \<Longrightarrow> evolved s (change_state i st f s')"
  by (simp add: change_state_def evolved_set_lock_after)

lemma evolved_lazyStart: "evolved s (lazyStart key s)"
  by (auto simp: lazyStart_def startLoop_def Let_def intro!: evolved_set_lock_after split: option.split)

lemma evolved_release: "evolved s (fst (release kc key s))"
  by (auto simp: release_def stopLoop_def Let_def intro!: evolved_set_lock_after split: option.split prod.split)

lemma evolved_fold: "(\<And>x s. evolved s (f x s)) \<Longrightarrow> evolved s (fold f xs s)"
  by (induction xs arbitrary: s) (auto intro: evolved_trans)

lemma evolved_Stop: "evolved s (manager_Stop kc keys s)"
  unfolding manager_Stop_def
  by (rule evolved_trans [OF _ evolved_fold]) (auto intro: evolved_release)

lemma evolved_refresh: "evolved s (refresh key s)"
  by (simp add: refresh_def split: option.split prod.split)

lemma evolved_session_step: "session_step kc keys s = Some s' \<Longrightarrow> evolved s s'"
  by (auto simp: session_step_def Let_def evolved_fold evolved_refresh split: session_pc.splits prod.splits sum.splits
      option.splits if_splits)

lemma evolved_waitForSession: "waitForSession fired i s = Some s' \<Longrightarrow> evolved s s'"
  by (auto simp: waitForSession_def take_session_def manager_startLoop_def split: loop_pc.splits sum.splits if_splits)

lemma evolved_handle: "handleAcquisitionFailure kc i s = Some s' \<Longrightarrow> evolved s s'"
  by (auto simp: handleAcquisitionFailure_def Let_def intro!: evolved_change_state
      split: loop_pc.splits sum.splits option.splits if_splits)

lemma evolved_acquireLock: "acquireLock kc fired i s = Some s' \<Longrightarrow> evolved s s'"
  by (auto simp: acquireLock_def Let_def intro: evolved_handle
      split: loop_pc.splits sum.splits option.splits if_splits prod.splits bool.splits)

lemma evolved_monitorLock: "monitorLock kc i s = Some s' \<Longrightarrow> evolved s s'"
  by (auto simp: monitorLock_def Let_def split: loop_pc.splits sum.splits option.splits if_splits)

lemma evolved_lockLoop: "lockLoop kc fired i s = Some s' \<Longrightarrow> evolved s s'"
  by (auto simp: lockLoop_def Let_def
      intro: evolved_waitForSession evolved_acquireLock evolved_monitorLock intro!: evolved_change_state
      split: loop_pc.splits)

lemma evolved_callers:
  "call_lock c key try s = Some s' \<Longrightarrow> evolved s s'" "waitForState c s = Some s' \<Longrightarrow> evolved s s'"
  "give_up c e s = Some s' \<Longrightarrow> evolved s s'"
  by (auto simp: call_lock_def waitForState_def give_up_def evolved_lazyStart split: option.splits if_splits caller.splits)

lemma manager_Lock_cases:
  obtains "fst (manager_Lock key val s) = s"
  | "locks s key = None" "fst (manager_Lock key val s) = s\<lparr>locks := (locks s)(key \<mapsto> newConsulLock key val)\<rparr>"
  by (cases "key = [] \<or> shutdown (manager s) \<or> locks s key \<noteq> None") (auto simp: manager_Lock_def)

lemma sync_step_evolved:
  "sync_step kc world s s' \<Longrightarrow>
   evolved s s' \<or> (\<exists>key val. locks s key = None \<and> s' = s\<lparr>locks := (locks s)(key \<mapsto> newConsulLock key val)\<rparr>)"
proof (induction rule: sync_step.induct)
  case (Create s key val)
  show ?case
  proof (rule manager_Lock_cases [of key val s])
    assume "fst (manager_Lock key val s) = s"
    then show ?thesis by simp
  qed blast
qed (auto simp: evolved_release evolved_Stop intro: evolved_lockLoop evolved_session_step evolved_callers)

section \<open>The state of a lock\<close>

definition locks_ok :: "'k sync_system \<Rightarrow> bool" where
  "locks_ok s \<longleftrightarrow> (\<forall>key l. locks s key = Some l \<longrightarrow> lock_ok l \<and> lock_key l = key)"

lemma new_lock_ok [simp]: "lock_ok (newConsulLock key val)" "lock_key (newConsulLock key val) = key"
  by (simp_all add: lock_ok_def newConsulLock_def)

lemma evolvedD:
  assumes "evolved s s'" and "locks s' key = Some l'"
  obtains l where "locks s key = Some l" and "evolves l l'"
  using assms unfolding evolved_def by (metis option.rel_distinct(1) option.rel_inject(2) option.exhaust)

lemma sync_step_locks_ok: "sync_step kc world s s' \<Longrightarrow> locks_ok s \<Longrightarrow> locks_ok s'"
  by (drule sync_step_evolved) (auto simp: locks_ok_def evolves_def elim!: evolvedD split: if_splits)

lemma sync_invariant:
  "sync_reach kc world s0 s \<Longrightarrow> P s0 \<Longrightarrow> (\<And>s s'. sync_step kc world s s' \<Longrightarrow> P s \<Longrightarrow> P s') \<Longrightarrow> P s"
  by (induction rule: rtranclp_induct) auto

lemma reach_locks_ok: "sync_reach kc world (new_system k) s \<Longrightarrow> locks_ok s"
  by (erule sync_invariant) (simp add: locks_ok_def new_system_def, rule sync_step_locks_ok)

text \<open>A waiting caller that was not woken has nothing to return for.\<close>

fun caller_ok :: "(string \<rightharpoonup> consul_lock) \<Rightarrow> caller \<Rightarrow> bool" where
  "caller_ok ls (Waiting key try n) =
     (case ls key of
        None \<Rightarrow> False
      | Some l \<Rightarrow> n \<le> stateCond l \<and> (n = stateCond l \<longrightarrow> lock_state l \<noteq> stateAcquired \<and> (try \<longrightarrow> lock_state l \<noteq> stateError)))"
| "caller_ok ls c = True"

definition callers_ok :: "'k sync_system \<Rightarrow> bool" where
  "callers_ok s \<longleftrightarrow> (\<forall>c w. callers s c = Some w \<longrightarrow> caller_ok (locks s) w)"

lemma caller_ok_evolved: "caller_ok (locks s) w \<Longrightarrow> evolved s s' \<Longrightarrow> caller_ok (locks s') w"
proof (induction "locks s" w rule: caller_ok.induct)
  case (1 key tr n)
  then show ?case
    unfolding evolved_def by (force simp: evolves_def rel_option_iff split: option.splits dest!: spec [of _ key])
qed auto

lemma caller_ok_new: "caller_ok (locks s) w \<Longrightarrow> locks s key = None \<Longrightarrow> caller_ok ((locks s)(key \<mapsto> l)) w"
  by (induction "locks s" w rule: caller_ok.induct) (auto split: option.splits)

lemma callers_frame:
  "callers (goto i pc s) = callers s" "callers (set_loop i f s) = callers s" "callers (set_lock key g s) = callers s"
  "callers (change_state i st g s) = callers s" "callers (take_session i s) = callers s" "callers (lazyStart key s) = callers s"
  by (simp_all add: goto_def set_loop_def set_lock_def change_state_def take_session_def lazyStart_def startLoop_def Let_def
      split: option.split)

lemma callers_release [simp]: "callers (fst (release kc key s)) = callers s"
  by (simp add: release_def stopLoop_def Let_def callers_frame split: option.split prod.split)

lemma callers_fold: "(\<And>x s. callers (f x s) = callers s) \<Longrightarrow> callers (fold f xs s) = callers s"
  by (induction xs arbitrary: s) auto

lemma callers_refresh: "callers (refresh key s) = callers s"
  by (simp add: refresh_def callers_frame split: option.split prod.split)

lemma callers_session_step: "session_step kc keys s = Some s' \<Longrightarrow> callers s' = callers s"
  by (auto simp: session_step_def Let_def callers_fold callers_refresh split: session_pc.splits prod.splits sum.splits
      option.splits if_splits)

lemma callers_lockLoop: "lockLoop kc fired i s = Some s' \<Longrightarrow> callers s' = callers s"
  by (auto simp: lockLoop_def waitForSession_def manager_startLoop_def acquireLock_def handleAcquisitionFailure_def
      monitorLock_def Let_def callers_frame split: loop_pc.splits sum.splits option.splits if_splits prod.splits bool.splits)

lemma callers_ok_same: "evolved s s' \<Longrightarrow> callers s' = callers s \<Longrightarrow> callers_ok s \<Longrightarrow> callers_ok s'"
  by (auto simp: callers_ok_def intro: caller_ok_evolved)

lemma callers_ok_call: "call_lock c key try s = Some s' \<Longrightarrow> callers_ok s \<Longrightarrow> callers_ok s'"
  using caller_ok_evolved [OF _ evolved_lazyStart]
  by (force simp: call_lock_def callers_ok_def split: if_splits option.splits caller.splits)

lemma callers_ok_wait: "waitForState c s = Some s' \<Longrightarrow> callers_ok s \<Longrightarrow> callers_ok s'"
  by (auto simp: waitForState_def callers_ok_def lock_matcher_def try_matcher_def split: if_splits option.splits caller.splits)

lemma callers_ok_give_up: "give_up c e s = Some s' \<Longrightarrow> callers_ok s \<Longrightarrow> callers_ok s'"
  by (auto simp: give_up_def callers_ok_def split: if_splits option.splits caller.splits)

lemma sync_step_callers_ok: "sync_step kc world s s' \<Longrightarrow> callers_ok s \<Longrightarrow> callers_ok s'"
proof (induction rule: sync_step.induct)
  case (Create s key val)
  then show ?case by - (rule manager_Lock_cases [of key val s], auto simp: callers_ok_def caller_ok_new)
next
  case (Stop s keys)
  then show ?case
    using callers_ok_same [OF evolved_Stop [of s kc keys]] by (simp add: manager_Stop_def callers_fold)
next
  case (Release s key)
  then show ?case by (auto intro: callers_ok_same [OF evolved_release])
next
  case (World s k)
  then show ?case by (simp add: callers_ok_def)
next
  case (AppDone s)
  then show ?case by (simp add: callers_ok_def)
qed (auto intro: callers_ok_call callers_ok_wait callers_ok_give_up
      callers_ok_same [OF evolved_lockLoop callers_lockLoop] callers_ok_same [OF evolved_session_step callers_session_step])

lemma reach_callers_ok: "sync_reach kc world (new_system k) s \<Longrightarrow> callers_ok s"
  by (erule sync_invariant) (simp add: callers_ok_def new_system_def, rule sync_step_callers_ok)

end
