(* ===== verification/Lock_Safety.thy ===== *)
theory Lock_Safety
  imports Consul_Lock
begin

text \<open>
  Invariants of the interleaved steps of \<open>Consul_Lock\<close>. The hypotheses on Consul are \<open>consul_docs\<close>: what its
  documentation says of sessions and of the owner of a key, on a view of the state of the server; \<open>world_docs\<close>
  says the same of everything that others do with it. \<open>loops_ok\<close> ties goroutines to the contexts of their locks,
  \<open>remaining\<close> bounds the steps of a goroutine whose context is done, and \<open>sync_ok\<close> adds that a goroutine that
  believes to hold a lock holds it.
\<close>

section \<open>Consul\<close>

record consul_view =
  owner :: "string \<Rightarrow> string"
  valid :: "string \<Rightarrow> bool"
  issued :: "string \<Rightarrow> bool"

text \<open>A session that was given out and is still valid was valid all the time, and it still has its locks.\<close>

definition kept :: "consul_view \<Rightarrow> consul_view \<Rightarrow> bool" where
  "kept v v' \<longleftrightarrow> (\<forall>sid. issued v sid \<longrightarrow> issued v' sid)
     \<and> (\<forall>sid key. issued v sid \<and> valid v' sid \<longrightarrow> valid v sid \<and> (owner v key = sid \<longrightarrow> owner v' key = sid))"

definition released :: "string \<Rightarrow> string \<Rightarrow> consul_view \<Rightarrow> consul_view \<Rightarrow> bool" where
  "released rkey rsid v v' \<longleftrightarrow> (\<forall>sid. issued v sid \<longrightarrow> issued v' sid)
     \<and> (\<forall>sid key. issued v sid \<and> valid v' sid \<longrightarrow>
          valid v sid \<and> (owner v key = sid \<and> \<not> (key = rkey \<and> sid = rsid) \<longrightarrow> owner v' key = sid))"

definition consul_docs :: "'k consul \<Rightarrow> ('k \<Rightarrow> consul_view) \<Rightarrow> bool" where
  "consul_docs kc view \<longleftrightarrow>
     (\<forall>k pair. case kvAcquire kc k pair of (k', r) \<Rightarrow>
        kept (view k) (view k') \<and> (r = Inr True \<longrightarrow> owner (view k') (pair_Key pair) = pair_Session pair))
     \<and> (\<forall>k key b. case kvGet kc k key b of
          Inl e \<Rightarrow> True | Inr None \<Rightarrow> owner (view k) key = '''' | Inr (Some pair) \<Rightarrow> owner (view k) key = pair_Session pair)
     \<and> (\<forall>k pair. released (pair_Key pair) (pair_Session pair) (view k) (view (fst (kvRelease kc k pair))))
     \<and> (\<forall>k b. case sessionCreate kc k b of (k', r) \<Rightarrow>
          kept (view k) (view k') \<and> (\<forall>sid. r = Inr sid \<longrightarrow> sid \<noteq> '''' \<and> issued (view k') sid))
     \<and> (\<forall>k sid b. kept (view k) (view (fst (sessionRenew kc k sid b))))"

definition world_docs :: "('k \<Rightarrow> 'k \<Rightarrow> bool) \<Rightarrow> ('k \<Rightarrow> consul_view) \<Rightarrow> bool" where
  "world_docs world view \<longleftrightarrow> (\<forall>k k'. world k k' \<longrightarrow> kept (view k) (view k'))"

lemma docs_acquire:
  assumes "consul_docs kc view"
  shows "kvAcquire kc k pair = (k', r) \<Longrightarrow> kept (view k) (view k')"
    and "kvAcquire kc k pair = (k', Inr True) \<Longrightarrow> owner (view k') (pair_Key pair) = pair_Session pair"
proof -
  have "case kvAcquire kc k pair of (k', r) \<Rightarrow>
      kept (view k) (view k') \<and> (r = Inr True \<longrightarrow> owner (view k') (pair_Key pair) = pair_Session pair)"
    using assms by (simp only: consul_docs_def)
  then show "kvAcquire kc k pair = (k', r) \<Longrightarrow> kept (view k) (view k')"
    and "kvAcquire kc k pair = (k', Inr True) \<Longrightarrow> owner (view k') (pair_Key pair) = pair_Session pair"
    by (auto split: prod.splits)
qed

lemma docs_get:
  assumes "consul_docs kc view" and "kvGet kc k key b = Inr r"
  shows "owner (view k) key = (case r of None \<Rightarrow> '''' | Some pr \<Rightarrow> pair_Session pr)"
proof -
  have "case kvGet kc k key b of
      Inl e \<Rightarrow> True | Inr None \<Rightarrow> owner (view k) key = '''' | Inr (Some pair) \<Rightarrow> owner (view k) key = pair_Session pair"
    using assms(1) by (simp only: consul_docs_def)
  with assms(2) show ?thesis by (simp split: option.splits)
qed

lemma docs_create:
  assumes "consul_docs kc view" and "sessionCreate kc k b = (k', r)"
  shows "kept (view k) (view k')" and "r = Inr sid \<Longrightarrow> sid \<noteq> '''' \<and> issued (view k') sid"
proof -
  have "case sessionCreate kc k b of (k', r) \<Rightarrow>
      kept (view k) (view k') \<and> (\<forall>sid. r = Inr sid \<longrightarrow> sid \<noteq> '''' \<and> issued (view k') sid)"
    using assms(1) by (simp only: consul_docs_def)
  with assms(2) show "kept (view k) (view k')" and "r = Inr sid \<Longrightarrow> sid \<noteq> '''' \<and> issued (view k') sid" by simp_all
qed

lemma docs_renew: "consul_docs kc view \<Longrightarrow> kept (view k) (view (fst (sessionRenew kc k sid b)))"
  by (simp add: consul_docs_def)

lemma docs_release:
  "consul_docs kc view \<Longrightarrow> released (pair_Key pair) (pair_Session pair) (view k) (view (fst (kvRelease kc k pair)))"
  by (simp add: consul_docs_def)

lemma kept_refl [simp]: "kept v v"
  by (simp add: kept_def)

section \<open>Goroutines and contexts\<close>

definition context_of :: "'k sync_system \<Rightarrow> string \<Rightarrow> nat option option" where
  "context_of s key = map_option loopContext (locks s key)"

text \<open>Only goroutines that were started run, and one whose context is not done is the current one of its lock.\<close>

definition loops_ok :: "'k sync_system \<Rightarrow> bool" where
  "loops_ok s \<longleftrightarrow>
     (\<forall>i. loop_pc (loops s i) = NotStarted \<longleftrightarrow> next_loop s \<le> i)
     \<and> (\<forall>i. i < next_loop s \<and> \<not> loop_cancelled (loops s i) \<longrightarrow> context_of s (loop_key (loops s i)) = Some (Some i))
     \<and> (\<forall>key i. context_of s key = Some (Some i) \<longrightarrow> i < next_loop s \<and> loop_key (loops s i) = key)"

text \<open>What a step of the goroutine \<open>i\<close> leaves alone.\<close>

definition own_step :: "nat \<Rightarrow> 'k sync_system \<Rightarrow> 'k sync_system \<Rightarrow> bool" where
  "own_step i s s' \<longleftrightarrow> (\<forall>j. j \<noteq> i \<longrightarrow> loops s' j = loops s j) \<and> context_of s' = context_of s
     \<and> next_loop s' = next_loop s \<and> app_done s' = app_done s
     \<and> loop_key (loops s' i) = loop_key (loops s i) \<and> loop_pc (loops s i) \<noteq> NotStarted \<and> loop_pc (loops s' i) \<noteq> NotStarted
     \<and> (loop_cancelled (loops s i) \<longrightarrow> loop_cancelled (loops s' i))
     \<and> (loop_cancelled (loops s' i) \<longrightarrow> loop_cancelled (loops s i) \<or> loop_pc (loops s' i) = Ended)"

lemma set_loop_simps [simp]:
  "loops (set_loop i f s) = (loops s)(i := f (loops s i))" "next_loop (set_loop i f s) = next_loop s"
  "app_done (set_loop i f s) = app_done s" "manager (set_loop i f s) = manager s" "kv (set_loop i f s) = kv s"
  "context_of (set_loop i f s) = context_of s"
  by (simp_all add: set_loop_def context_of_def fun_eq_iff)

lemma goto_simps [simp]:
  "loops (goto i pc s) = (loops s)(i := (loops s i)\<lparr>loop_pc := pc\<rparr>)" "next_loop (goto i pc s) = next_loop s"
  "app_done (goto i pc s) = app_done s" "manager (goto i pc s) = manager s" "kv (goto i pc s) = kv s"
  "context_of (goto i pc s) = context_of s"
  by (simp_all add: goto_def)

lemma set_lock_simps [simp]:
  "loops (set_lock key g s) = loops s" "next_loop (set_lock key g s) = next_loop s"
  "app_done (set_lock key g s) = app_done s" "manager (set_lock key g s) = manager s" "kv (set_lock key g s) = kv s"
  by (simp_all add: set_lock_def)

lemma change_state_simps [simp]:
  "loops (change_state i st g s) = loops s" "next_loop (change_state i st g s) = next_loop s"
  "app_done (change_state i st g s) = app_done s" "manager (change_state i st g s) = manager s"
  "kv (change_state i st g s) = kv s"
  by (simp_all add: change_state_def)

lemma context_of_fields [simp]:
  "context_of (s\<lparr>kv := k\<rparr>) = context_of s" "context_of (s\<lparr>manager := m\<rparr>) = context_of s"
  "context_of (s\<lparr>next_loop := n\<rparr>) = context_of s" "context_of (s\<lparr>callers := cs\<rparr>) = context_of s"
  "context_of (s\<lparr>app_done := b\<rparr>) = context_of s"
  by (simp_all add: context_of_def fun_eq_iff)

lemma loopContext_updateState: "(\<And>l. loopContext (f l) = loopContext l) \<Longrightarrow> loopContext (updateState st f l) = loopContext l"
  by (simp add: updateState_def make_lost_def close_lost_def Let_def split: option.split)

lemma context_of_change_state:
  "(\<And>l. loopContext (f l) = loopContext l) \<Longrightarrow> context_of (change_state i st f s) = context_of s"
  by (auto simp: context_of_def change_state_def set_lock_def fun_eq_iff loopContext_updateState option.map_comp comp_def)

lemma context_of_set_lock: "context_of (set_lock key (\<lambda>l. l\<lparr>loopContext := c\<rparr>) s) =
    (context_of s)(key := map_option (\<lambda>_. c) (context_of s key))"
  by (auto simp: context_of_def set_lock_def fun_eq_iff option.map_comp comp_def)

lemmas loop_defs = lockLoop_def waitForSession_def take_session_def manager_startLoop_def acquireLock_def
  handleAcquisitionFailure_def monitorLock_def

lemmas loop_splits = loop_pc.splits sum.splits option.splits if_splits prod.splits bool.splits

lemma own_step_lockLoop: "lockLoop kc fired i s = Some s' \<Longrightarrow> own_step i s s'"
  by (auto simp: own_step_def loop_defs on_error_def Let_def context_of_change_state
      split: loop_splits)

lemma loops_ok_own: "own_step i s s' \<Longrightarrow> loops_ok s \<Longrightarrow> loops_ok s'"
  unfolding loops_ok_def own_step_def
  apply (intro conjI allI)
  subgoal by metis
  subgoal by metis
  subgoal by metis
  done

lemma loops_ok_same:
  "loops s' = loops s \<Longrightarrow> next_loop s' = next_loop s \<Longrightarrow> context_of s' = context_of s \<Longrightarrow> loops_ok s' \<longleftrightarrow> loops_ok s"
  by (simp add: loops_ok_def)

lemma loops_ok_fields [simp]:
  "loops_ok (s\<lparr>kv := k\<rparr>) \<longleftrightarrow> loops_ok s" "loops_ok (s\<lparr>manager := m\<rparr>) \<longleftrightarrow> loops_ok s"
  "loops_ok (s\<lparr>callers := cs\<rparr>) \<longleftrightarrow> loops_ok s" "loops_ok (s\<lparr>app_done := b\<rparr>) \<longleftrightarrow> loops_ok s"
  by (simp_all add: loops_ok_def)

lemma startLoop_simps:
  "loops (startLoop key s) = (loops s)(next_loop s := no_loop\<lparr>loop_key := key, loop_pc := AtHead\<rparr>)"
  "next_loop (startLoop key s) = Suc (next_loop s)" "app_done (startLoop key s) = app_done s"
  "kv (startLoop key s) = kv s" "manager (startLoop key s) = manager s"
  "context_of (startLoop key s) = (context_of s)(key := map_option (\<lambda>_. Some (next_loop s)) (context_of s key))"
  by (simp_all add: startLoop_def Let_def context_of_set_lock)

lemma lazyStart_context: "lazyStart key s = (if context_of s key = Some None then startLoop key s else s)"
  by (simp add: lazyStart_def context_of_def split: option.split)

lemma loops_ok_startLoop:
  assumes "loops_ok s" and "context_of s key = Some None"
  shows "loops_ok (startLoop key s)"
proof -
  let ?n = "next_loop s" and ?s' = "startLoop key s"
  have "loop_pc (loops ?s' i) = NotStarted \<longleftrightarrow> next_loop ?s' \<le> i" for i
    using assms(1) by (cases "i = ?n") (auto simp: loops_ok_def startLoop_simps no_loop_def)
  moreover have "context_of ?s' (loop_key (loops ?s' i)) = Some (Some i)"
    if "i < next_loop ?s'" "\<not> loop_cancelled (loops ?s' i)" for i
  proof (cases "i = ?n")
    case False
    with that have "context_of s (loop_key (loops s i)) = Some (Some i)"
      using assms(1) by (simp add: loops_ok_def startLoop_simps)
    moreover from this have "loop_key (loops s i) \<noteq> key" using assms(2) by auto
    ultimately show ?thesis using False by (simp add: startLoop_simps)
  qed (simp add: startLoop_simps assms(2))
  moreover have "i < next_loop ?s' \<and> loop_key (loops ?s' i) = k" if c: "context_of ?s' k = Some (Some i)" for k i
  proof (cases "k = key")
    case True
    with c assms(2) show ?thesis by (simp add: startLoop_simps)
  next
    case False
    with c have "i < ?n \<and> loop_key (loops s i) = k" using assms(1) by (simp add: loops_ok_def startLoop_simps)
    then show ?thesis by (simp add: startLoop_simps)
  qed
  ultimately show ?thesis by (simp add: loops_ok_def)
qed

lemma loops_ok_lazyStart: "loops_ok s \<Longrightarrow> loops_ok (lazyStart key s)"
  by (simp add: lazyStart_context loops_ok_startLoop)

lemma stopLoop_simps:
  "loops (stopLoop key i s) = (loops s)(i := (loops s i)\<lparr>loop_cancelled := True\<rparr>)"
  "next_loop (stopLoop key i s) = next_loop s" "app_done (stopLoop key i s) = app_done s"
  "kv (stopLoop key i s) = kv s" "manager (stopLoop key i s) = manager s"
  "context_of (stopLoop key i s) = (context_of s)(key := map_option (\<lambda>_. None) (context_of s key))"
  by (simp_all add: stopLoop_def context_of_set_lock)

text \<open>A release stops the goroutine of its lock and gives up the key for the session of the lock.\<close>

lemma release_cases:
  obtains "fst (release kc key s) = s"
  | i where "context_of s key = Some (Some i)" "fst (release kc key s) = stopLoop key i s"
  | i l where "locks s key = Some l" "loopContext l = Some i"
      "fst (release kc key s) = (stopLoop key i s)\<lparr>kv := fst (kvRelease kc (kv s) \<lparr>pair_Key = lock_key l, pair_Value = '''',
           pair_Session = lock_session l, pair_Flags = lockFlagValue\<rparr>)\<rparr>"
  by (cases "locks s key"; cases "loopContext (the (locks s key))"; cases "lock_session (the (locks s key)) = ''''")
    (auto simp: release_def Let_def context_of_def stopLoop_simps split: prod.split)

lemma loops_ok_stopLoop:
  assumes "loops_ok s" and "context_of s key = Some (Some i)"
  shows "loops_ok (stopLoop key i s)"
proof -
  let ?s' = "stopLoop key i s"
  have "loop_pc (loops ?s' j) = NotStarted \<longleftrightarrow> next_loop ?s' \<le> j" for j
    using assms(1) by (simp add: loops_ok_def stopLoop_simps)
  moreover have "context_of ?s' (loop_key (loops ?s' j)) = Some (Some j)"
    if "j < next_loop ?s'" "\<not> loop_cancelled (loops ?s' j)" for j
  proof -
    from that have j: "j \<noteq> i" and c: "context_of s (loop_key (loops s j)) = Some (Some j)"
      using assms(1) by (auto simp: loops_ok_def stopLoop_simps split: if_splits)
    with assms(2) have "loop_key (loops s j) \<noteq> key" by auto
    with j c show ?thesis by (simp add: stopLoop_simps)
  qed
  moreover have "j < next_loop ?s' \<and> loop_key (loops ?s' j) = k" if c: "context_of ?s' k = Some (Some j)" for k j
  proof -
    from c assms(2) have "context_of s k = Some (Some j)" by (simp add: stopLoop_simps split: if_splits)
    with assms(1) have "j < next_loop s \<and> loop_key (loops s j) = k" by (simp add: loops_ok_def)
    then show ?thesis by (auto simp: stopLoop_simps)
  qed
  ultimately show ?thesis by (simp add: loops_ok_def)
qed

lemma loops_ok_release: "loops_ok s \<Longrightarrow> loops_ok (fst (release kc key s))"
  by (rule release_cases [of kc key s]) (auto simp: loops_ok_stopLoop context_of_def)

lemma loops_ok_fold: "(\<And>x s. loops_ok s \<Longrightarrow> loops_ok (f x s)) \<Longrightarrow> loops_ok s \<Longrightarrow> loops_ok (fold f xs s)"
  by (induction xs arbitrary: s) auto

lemma loops_ok_refresh: "loops_ok s \<Longrightarrow> loops_ok (refresh key s)"
  by (auto simp: refresh_def loops_ok_def split: option.split)

lemma loops_ok_session_step: "session_step kc keys s = Some s' \<Longrightarrow> loops_ok s \<Longrightarrow> loops_ok s'"
  by (auto simp: session_step_def Let_def intro!: loops_ok_fold loops_ok_refresh
      split: session_pc.splits prod.splits sum.splits option.splits if_splits)

lemma loops_ok_new_lock:
  "loops_ok s \<Longrightarrow> locks s key = None \<Longrightarrow> loops_ok (s\<lparr>locks := (locks s)(key \<mapsto> newConsulLock key val)\<rparr>)"
  by (auto simp: loops_ok_def context_of_def newConsulLock_def split: if_splits)

lemma sync_step_loops_ok: "sync_step kc world s s' \<Longrightarrow> loops_ok s \<Longrightarrow> loops_ok s'"
proof (induction rule: sync_step.induct)
  case (Create s key val)
  then show ?case by - (rule manager_Lock_cases [of key val s], auto simp: loops_ok_new_lock)
next
  case (Call c key tr s s')
  then show ?case by (auto simp: call_lock_def loops_ok_lazyStart split: if_splits option.splits caller.splits)
next
  case (Wait c s s')
  then show ?case by (auto simp: waitForState_def split: if_splits option.splits caller.splits)
next
  case (GiveUp c e s s')
  then show ?case by (auto simp: give_up_def split: if_splits option.splits caller.splits)
next
  case (Stop s keys)
  then show ?case by (simp add: manager_Stop_def loops_ok_fold loops_ok_release)
qed (auto simp: loops_ok_release intro: loops_ok_session_step loops_ok_own own_step_lockLoop)

lemma reach_loops_ok: "sync_reach kc world (new_system k) s \<Longrightarrow> loops_ok s"
  by (erule sync_invariant) (simp add: loops_ok_def new_system_def context_of_def no_loop_def, rule sync_step_loops_ok)

section \<open>The end of a goroutine\<close>

text \<open>A bound on the steps that a goroutine makes after its context is done.\<close>

fun remaining :: "loop_pc \<Rightarrow> nat" where
  "remaining NotStarted = 0"
| "remaining Ended = 0"
| "remaining AtEnd = 1"
| "remaining AtHead = 2"
| "remaining (AtFailed e) = 3"
| "remaining (AtWaitCheck sid) = 3"
| "remaining (AtDelay sid) = 3"
| "remaining (AtMonitor sid err) = 4"
| "remaining (AtAcquired sid) = 5"
| "remaining (AtWait sid) = 6"
| "remaining (AtAcquire sid) = 7"
| "remaining (AtSleep sid) = 8"
| "remaining (AtSetSession sid) = 8"
| "remaining (AtSessionWait n) = 9"
| "remaining AtSession = 10"
| "remaining AtRefresh = 11"

lemma done_decreases:
  assumes "lockLoop kc fired i s = Some s'" and "ctx_done s (loops s i)"
  shows "remaining (loop_pc (loops s' i)) < remaining (loop_pc (loops s i))
    \<or> (\<exists>n m. loop_pc (loops s i) = AtSessionWait n \<and> loop_pc (loops s' i) = AtSessionWait m \<and> sessionCond (manager s) \<noteq> n)"
  using assms
  by (auto simp: loop_defs on_error_def refresh_done_def Let_def
      split: loop_splits)

lemma done_not_stuck:
  assumes "ctx_done s (loops s i)" and "loop_pc (loops s i) \<noteq> Ended" and "loop_pc (loops s i) \<noteq> NotStarted"
  shows "\<exists>s'. lockLoop kc False i s = Some s'"
  using assms
  by (cases "loop_pc (loops s i)")
    (auto simp: lockLoop_def waitForSession_def acquireLock_def handleAcquisitionFailure_def monitorLock_def refresh_done_def Let_def
      split: sum.splits option.splits prod.splits bool.splits)

text \<open>What the other steps do to a goroutine: at most, its contexts are cancelled.\<close>

definition spared :: "nat \<Rightarrow> 'k sync_system \<Rightarrow> 'k sync_system \<Rightarrow> bool" where
  "spared i s s' \<longleftrightarrow> loop_pc (loops s' i) = loop_pc (loops s i) \<and> loop_key (loops s' i) = loop_key (loops s i)
     \<and> (loop_cancelled (loops s i) \<longrightarrow> loop_cancelled (loops s' i)) \<and> (app_done s \<longrightarrow> app_done s')"

lemma spared_refl [simp]: "spared i s s"
  by (simp add: spared_def)

lemma spared_trans: "spared i s s' \<Longrightarrow> spared i s' s'' \<Longrightarrow> spared i s s''"
  by (simp add: spared_def)

lemma spared_done: "spared i s s' \<Longrightarrow> ctx_done s (loops s i) \<Longrightarrow> ctx_done s' (loops s' i)"
  by (auto simp: spared_def ctx_done_def)

lemma spared_fold: "(\<And>x s. spared i s (f x s)) \<Longrightarrow> spared i s (fold f xs s)"
  by (induction xs arbitrary: s) (auto intro: spared_trans)

lemma spared_release: "spared i s (fst (release kc key s))"
  by (rule release_cases [of kc key s]) (auto simp: spared_def stopLoop_simps)

lemma spared_refresh: "spared i s (refresh key s)"
  by (auto simp: refresh_def spared_def split: option.split)

lemma spared_manager [simp]: "spared i s (s'\<lparr>manager := m\<rparr>) \<longleftrightarrow> spared i s s'" "spared i s (s'\<lparr>kv := k\<rparr>) \<longleftrightarrow> spared i s s'"
  by (simp_all add: spared_def)

lemma spared_session_step: "session_step kc keys s = Some s' \<Longrightarrow> spared i s s'"
  by (auto simp: session_step_def Let_def intro!: spared_fold spared_refresh
      split: session_pc.splits prod.splits sum.splits option.splits if_splits)

lemma spared_Stop: "spared i s (manager_Stop kc keys s)"
  unfolding manager_Stop_def by (rule spared_trans [OF _ spared_fold]) (auto intro: spared_release)

lemma spared_call: "i < next_loop s \<Longrightarrow> call_lock c key try s = Some s' \<Longrightarrow> spared i s s'"
  by (auto simp: call_lock_def spared_def lazyStart_context startLoop_simps split: if_splits option.splits caller.splits)

lemma sync_step_loop:
  assumes "sync_step kc world s s'" and "i < next_loop s"
  shows "(\<exists>fired. lockLoop kc fired i s = Some s') \<or> spared i s s'"
  using assms
proof (induction rule: sync_step.induct)
  case (Create s key val)
  show ?case by (rule manager_Lock_cases [of key val s]) (auto simp: spared_def)
next
  case (Wait c s s')
  then show ?case by (auto simp: waitForState_def spared_def split: if_splits option.splits caller.splits)
next
  case (GiveUp c e s s')
  then show ?case by (auto simp: give_up_def spared_def split: if_splits option.splits caller.splits)
next
  case (Loop fired j s s')
  then show ?case using own_step_lockLoop [OF Loop(1)] by (cases "j = i") (auto simp: spared_def own_step_def)
next
  case (AppDone s)
  then show ?case by (simp add: spared_def)
qed (auto simp: spared_call spared_release spared_Stop intro: spared_session_step)

section \<open>Held locks\<close>

fun pc_session :: "loop_pc \<Rightarrow> string option" where
  "pc_session (AtSetSession sid) = Some sid"
| "pc_session (AtAcquire sid) = Some sid"
| "pc_session (AtWait sid) = Some sid"
| "pc_session (AtWaitCheck sid) = Some sid"
| "pc_session (AtDelay sid) = Some sid"
| "pc_session (AtSleep sid) = Some sid"
| "pc_session (AtAcquired sid) = Some sid"
| "pc_session (AtMonitor sid err) = Some sid"
| "pc_session _ = None"

fun pc_holds :: "loop_pc \<Rightarrow> string option" where
  "pc_holds (AtAcquired sid) = Some sid"
| "pc_holds (AtMonitor sid err) = Some sid"
| "pc_holds _ = None"

lemma pc_holds_session: "pc_holds pc = Some sid \<Longrightarrow> pc_session pc = Some sid"
  by (cases pc) auto

text \<open>Every session in use was given out by Consul, and a goroutine that believes to hold the lock with a valid session does.\<close>

definition manager_ok :: "consul_view \<Rightarrow> sync_manager \<Rightarrow> bool" where
  "manager_ok v m \<longleftrightarrow> (session m \<noteq> '''' \<longrightarrow> issued v (session m))
     \<and> (\<forall>sid. session_pc m = SessionUpdate sid \<longrightarrow> sid \<noteq> '''' \<and> issued v sid)"

definition holds_ok :: "consul_view \<Rightarrow> 'k sync_system \<Rightarrow> bool" where
  "holds_ok v s \<longleftrightarrow>
     (\<forall>i sid. pc_session (loop_pc (loops s i)) = Some sid \<longrightarrow> issued v sid)
     \<and> (\<forall>i sid. pc_holds (loop_pc (loops s i)) = Some sid \<and> \<not> loop_cancelled (loops s i) \<and> valid v sid \<longrightarrow>
          owner v (loop_key (loops s i)) = sid)"

lemma manager_ok_kept: "manager_ok v m \<Longrightarrow> kept v v' \<Longrightarrow> manager_ok v' m"
  by (auto simp: manager_ok_def kept_def)

lemma holds_ok_kept: "holds_ok v s \<Longrightarrow> kept v v' \<Longrightarrow> holds_ok v' s"
  unfolding holds_ok_def kept_def using pc_holds_session by blast

lemma holds_ok_spared: "holds_ok v s \<Longrightarrow> (\<And>i. spared i s s') \<Longrightarrow> holds_ok v s'"
  unfolding holds_ok_def spared_def by metis

lemma loop_kv:
  assumes "consul_docs kc view" and "lockLoop kc fired i s = Some s'"
  shows "kept (view (kv s)) (view (kv s'))"
  using assms(2)
  by (auto simp: loop_defs Let_def intro: docs_acquire(1) [OF assms(1)]
      split: loop_splits)

lemma loop_manager:
  assumes "lockLoop kc fired i s = Some s'"
  shows "session (manager s') = session (manager s)
    \<and> (session_pc (manager s') = session_pc (manager s) \<or> session_pc (manager s') = SessionHead)"
  using assms
  by (auto simp: loop_defs Let_def
      split: loop_splits)

lemma loop_session:
  assumes "lockLoop kc fired i s = Some s'" and "pc_session (loop_pc (loops s' i)) = Some sid"
  shows "pc_session (loop_pc (loops s i)) = Some sid \<or> (sid = session (manager s) \<and> sid \<noteq> '''')"
  using assms
  by (auto simp: loop_defs on_error_def Let_def
      split: loop_splits)

lemma loop_holds:
  assumes "consul_docs kc view" and "lockLoop kc fired i s = Some s'" and "pc_holds (loop_pc (loops s' i)) = Some sid"
  shows "pc_holds (loop_pc (loops s i)) = Some sid \<or> owner (view (kv s')) (loop_key (loops s i)) = sid"
  using assms(2,3)
  by (auto simp: loop_defs on_error_def Let_def dest!: docs_acquire(2) [OF assms(1)] docs_get [OF assms(1)]
        split: loop_splits)

lemma holds_ok_lockLoop:
  assumes "consul_docs kc view" and step: "lockLoop kc fired i s = Some s'"
    and ok: "holds_ok (view (kv s)) s" "manager_ok (view (kv s)) (manager s)"
  shows "holds_ok (view (kv s')) s' \<and> manager_ok (view (kv s')) (manager s')"
proof
  let ?v = "view (kv s')"
  note kept = loop_kv [OF assms(1,2)] and own = own_step_lockLoop [OF step]
  have old: "holds_ok ?v s" and m: "manager_ok ?v (manager s)"
    using ok kept by (auto intro: holds_ok_kept manager_ok_kept)
  show "manager_ok ?v (manager s')" using loop_manager [OF step] m by (auto simp: manager_ok_def)
  have "issued ?v sid" if "pc_session (loop_pc (loops s' j)) = Some sid" for j sid
  proof (cases "j = i")
    case True
    with loop_session [OF step, of sid] that m old show ?thesis by (auto simp: manager_ok_def holds_ok_def)
  next
    case False
    with own that old show ?thesis by (auto simp: own_step_def holds_ok_def)
  qed
  moreover have "owner ?v (loop_key (loops s' j)) = sid"
    if "pc_holds (loop_pc (loops s' j)) = Some sid" "\<not> loop_cancelled (loops s' j)" "valid ?v sid" for j sid
  proof (cases "j = i")
    case True
    with loop_holds [OF assms(1) step, of sid] that own old show ?thesis by (auto simp: own_step_def holds_ok_def)
  next
    case False
    with own that old show ?thesis by (auto simp: own_step_def holds_ok_def)
  qed
  ultimately show "holds_ok ?v s'" by (simp add: holds_ok_def)
qed

lemma holds_ok_fields [simp]:
  "holds_ok v (s\<lparr>kv := k\<rparr>) \<longleftrightarrow> holds_ok v s" "holds_ok v (s\<lparr>callers := cs\<rparr>) \<longleftrightarrow> holds_ok v s"
  "holds_ok v (s\<lparr>manager := m\<rparr>) \<longleftrightarrow> holds_ok v s" "holds_ok v (s\<lparr>app_done := b\<rparr>) \<longleftrightarrow> holds_ok v s"
  "holds_ok v (s\<lparr>locks := ls\<rparr>) \<longleftrightarrow> holds_ok v s"
  by (simp_all add: holds_ok_def)

lemma locks_ok_evolved: "evolved s s' \<Longrightarrow> locks_ok s \<Longrightarrow> locks_ok s'"
  by (auto simp: locks_ok_def evolves_def elim!: evolvedD)

lemma holds_ok_release:
  assumes "consul_docs kc view" and "locks_ok s" and "loops_ok s" and "holds_ok (view (kv s)) s"
  shows "holds_ok (view (kv (fst (release kc key s)))) (fst (release kc key s))"
proof (rule release_cases [of kc key s])
  fix i
  assume "context_of s key = Some (Some i)" and r: "fst (release kc key s) = stopLoop key i s"
  have "holds_ok (view (kv s)) (fst (release kc key s))" using assms(4) by (rule holds_ok_spared) (rule spared_release)
  with r show ?thesis by (simp add: stopLoop_simps)
next
  fix i and l :: consul_lock
  let ?s' = "fst (release kc key s)" and ?v = "view (kv s)"
  let ?pair = "\<lparr>pair_Key = lock_key l, pair_Value = '''', pair_Session = lock_session l, pair_Flags = lockFlagValue\<rparr>"
  assume l: "locks s key = Some l" "loopContext l = Some i" and r: "?s' = (stopLoop key i s)\<lparr>kv := fst (kvRelease kc (kv s) ?pair)\<rparr>"
  let ?v' = "view (fst (kvRelease kc (kv s) ?pair))"
  from l(1) assms(2) have "lock_key l = key" by (simp add: locks_ok_def)
  with docs_release [OF assms(1), of ?pair "kv s"] have rel: "released key (lock_session l) ?v ?v'" by simp
  have "owner ?v' (loop_key (loops s j)) = sid"
    if "pc_holds (loop_pc (loops s j)) = Some sid" "\<not> loop_cancelled (loops s j)" "j \<noteq> i" "valid ?v' sid" for j sid
  proof -
    have "loop_pc (loops s j) \<noteq> NotStarted" using that(1) by auto
    with assms(3) have "j < next_loop s" by (simp add: loops_ok_def)
    with that(2) assms(3) have "context_of s (loop_key (loops s j)) = Some (Some j)" by (simp add: loops_ok_def)
    with l that(3) have other: "loop_key (loops s j) \<noteq> key" by (auto simp: context_of_def)
    have "issued ?v sid" using that(1) assms(4) pc_holds_session by (auto simp: holds_ok_def)
    with rel that(4) have "valid ?v sid" by (simp add: released_def)
    with assms(4) that(1,2) have "owner ?v (loop_key (loops s j)) = sid" by (simp add: holds_ok_def)
    with rel other \<open>issued ?v sid\<close> that(4) show ?thesis by (simp add: released_def)
  qed
  moreover have "issued ?v' sid" if "pc_session (loop_pc (loops s j)) = Some sid" for j sid
    using rel assms(4) that by (auto simp: released_def holds_ok_def)
  ultimately show ?thesis unfolding r by (auto simp: holds_ok_def stopLoop_simps split: if_splits)
qed (use assms in auto)

lemma release_issued:
  assumes "consul_docs kc view" and "manager_ok (view (kv s)) m"
  shows "manager_ok (view (kv (fst (release kc key s)))) m"
  by (rule release_cases [of kc key s])
    (use assms docs_release [OF assms(1)] in \<open>auto simp: manager_ok_def stopLoop_simps released_def\<close>)

lemma release_manager: "manager (fst (release kc key s)) = manager s"
  by (rule release_cases [of kc key s]) (auto simp: stopLoop_simps)

text \<open>The invariant of a process that runs against Consul.\<close>

definition sync_ok :: "('k \<Rightarrow> consul_view) \<Rightarrow> 'k sync_system \<Rightarrow> bool" where
  "sync_ok view s \<longleftrightarrow> locks_ok s \<and> loops_ok s \<and> holds_ok (view (kv s)) s \<and> manager_ok (view (kv s)) (manager s)"

lemma sync_ok_release: "consul_docs kc view \<Longrightarrow> sync_ok view s \<Longrightarrow> sync_ok view (fst (release kc key s))"
  by (auto simp: sync_ok_def release_manager release_issued loops_ok_release holds_ok_release
      intro: locks_ok_evolved [OF evolved_release])

lemma sync_ok_Stop:
  assumes "consul_docs kc view" and "sync_ok view s"
  shows "sync_ok view (manager_Stop kc keys s)"
proof -
  have "sync_ok view (fold (\<lambda>key s. fst (release kc key s)) keys s)" if "sync_ok view s" for s
    using that by (induction keys arbitrary: s) (auto intro: sync_ok_release [OF assms(1)])
  moreover have "sync_ok view (s\<lparr>manager := (manager s)\<lparr>shutdown := True, session_cancelled := True\<rparr>\<rparr>)"
    using assms(2) by (auto simp: sync_ok_def locks_ok_def holds_ok_def manager_ok_def)
  ultimately show ?thesis by (simp add: manager_Stop_def)
qed

lemma refresh_kv: "kv (refresh key s) = kv s \<and> manager (refresh key s) = manager s"
  by (simp add: refresh_def split: option.split)

lemma fold_refresh_kv: "kv (fold refresh keys s) = kv s \<and> manager (fold refresh keys s) = manager s"
  by (induction keys arbitrary: s) (auto simp: refresh_kv)

lemma session_step_kv:
  assumes "consul_docs kc view" and "session_step kc keys s = Some s'" and "manager_ok (view (kv s)) (manager s)"
  shows "kept (view (kv s)) (view (kv s')) \<and> manager_ok (view (kv s')) (manager s')"
proof (cases "session_pc (manager s)")
  case SessionCreate
  let ?b = "app_done s \<or> session_cancelled (manager s)"
  obtain k r where c: "sessionCreate kc (kv s) ?b = (k, r)" by fastforce
  with docs_create [OF assms(1) c] assms(2,3) SessionCreate manager_ok_kept [of "view (kv s)" _ "view k"]
  show ?thesis by (auto simp: session_step_def Let_def manager_ok_def split: sum.splits)
next
  case (SessionKeep sid)
  have "kept (view (kv s)) (view (kv s')) \<and> session (manager s') = session (manager s)
      \<and> (\<forall>sid. session_pc (manager s') \<noteq> SessionUpdate sid)"
    using assms(2) SessionKeep docs_renew [OF assms(1), of "kv s"]
    by (auto simp: session_step_def Let_def split: if_splits prod.splits option.splits) (metis fst_conv)+
  with assms(3) show ?thesis by (auto simp: manager_ok_def kept_def)
qed (use assms(2,3) in \<open>auto simp: session_step_def Let_def manager_ok_def updateSession_def fold_refresh_kv split: if_splits\<close>)

lemma sync_ok_session_step:
  assumes "consul_docs kc view" and "session_step kc keys s = Some s'" and "sync_ok view s"
  shows "sync_ok view s'"
proof -
  note kv = session_step_kv [OF assms(1,2)]
  from assms(3) kv have "holds_ok (view (kv s')) s" by (auto simp: sync_ok_def intro: holds_ok_kept)
  then have "holds_ok (view (kv s')) s'" by (rule holds_ok_spared) (rule spared_session_step [OF assms(2)])
  with assms(2,3) kv show ?thesis
    by (auto simp: sync_ok_def intro: locks_ok_evolved [OF evolved_session_step] loops_ok_session_step)
qed

lemma holds_ok_fresh: "holds_ok v s \<Longrightarrow> holds_ok v (startLoop key s)"
  by (auto simp: holds_ok_def startLoop_simps no_loop_def)

lemma sync_step_sync_ok:
  assumes "consul_docs kc view" and "world_docs world view"
  shows "sync_step kc world s s' \<Longrightarrow> sync_ok view s \<Longrightarrow> sync_ok view s'"
proof (induction rule: sync_step.induct)
  case (Create s key val)
  then have "locks_ok (fst (manager_Lock key val s))" "loops_ok (fst (manager_Lock key val s))"
    by (auto simp: sync_ok_def intro: sync_step_locks_ok sync_step_loops_ok sync_step.Create)
  with Create show ?case
    by - (rule manager_Lock_cases [of key val s], auto simp: sync_ok_def holds_ok_def)
next
  case (Call c key tr s s')
  then have "locks_ok s'" "loops_ok s'"
    by (auto simp: sync_ok_def intro: sync_step_locks_ok sync_step_loops_ok sync_step.Call)
  with Call show ?case
    by (auto simp: sync_ok_def call_lock_def lazyStart_context startLoop_simps holds_ok_fresh
        split: if_splits option.splits caller.splits)
next
  case (Wait c s s')
  then show ?case
    by (auto simp: waitForState_def sync_ok_def locks_ok_def holds_ok_def split: if_splits option.splits caller.splits)
next
  case (GiveUp c e s s')
  then show ?case
    by (auto simp: give_up_def sync_ok_def locks_ok_def holds_ok_def split: if_splits option.splits caller.splits)
next
  case (Loop fired i s s')
  then have "locks_ok s'" "loops_ok s'"
    by (auto simp: sync_ok_def intro: sync_step_locks_ok sync_step_loops_ok sync_step.Loop)
  with Loop holds_ok_lockLoop [OF assms(1) Loop(1)] show ?case by (simp add: sync_ok_def)
next
  case (World s k)
  then have "kept (view (kv s)) (view k)" using assms(2) by (simp add: world_docs_def)
  with World show ?case
    by (auto simp: sync_ok_def locks_ok_def intro: manager_ok_kept holds_ok_kept)
next
  case (AppDone s)
  then show ?case by (simp add: sync_ok_def locks_ok_def holds_ok_def)
qed (auto intro: sync_ok_release sync_ok_Stop sync_ok_session_step assms)

lemma reach_sync_ok:
  assumes "consul_docs kc view" and "world_docs world view" and "sync_reach kc world (new_system k) s"
  shows "sync_ok view s"
  using assms(3)
  by (rule sync_invariant)
    (simp add: sync_ok_def locks_ok_def loops_ok_def holds_ok_def manager_ok_def new_system_def context_of_def no_loop_def
      NewConsulLockManager_def, rule sync_step_sync_ok [OF assms(1,2)])

end
