(* ===== verification/Lock_Runs.thy ===== *)
theory Lock_Runs
  imports Lock_Safety
begin

text \<open>
  The guarantees of the Consul locks, and three runs that show what is not guaranteed. The runs, and the
  witnesses of the guarantees, are played by \<open>run\<close> on \<open>mem_consul\<close>, a server in memory that meets \<open>consul_docs\<close>: it
  holds the owner of every key, the sessions that are valid and all it ever issued, and it may be out of reach.
\<close>

section \<open>A Consul server\<close>

record consul_server =
  srv_owner :: "string \<Rightarrow> string"
  srv_valid :: "string list"
  srv_issued :: "string list"
  srv_down :: bool

definition server_view :: "consul_server \<Rightarrow> consul_view" where
  "server_view k = \<lparr>owner = srv_owner k, valid = (\<lambda>sid. sid \<noteq> '''' \<and> sid \<in> set (srv_valid k)),
     issued = (\<lambda>sid. sid \<in> set (srv_issued k))\<rparr>"

definition network_error :: kv_error where
  "network_error = \<lparr>kv_msg = ''connection refused'', kv_retryable = True, kv_canceled = False\<rparr>"

definition session_error :: kv_error where
  "session_error = \<lparr>kv_msg = ''session expired'', kv_retryable = False, kv_canceled = False\<rparr>"

definition new_session_id :: "consul_server \<Rightarrow> string" where
  "new_session_id k = replicate (Suc (sum_list (map length (srv_issued k)))) CHR ''s''"

definition server_create :: "consul_server \<Rightarrow> consul_server" where
  "server_create k = k\<lparr>srv_valid := new_session_id k # srv_valid k, srv_issued := new_session_id k # srv_issued k\<rparr>"

definition server_acquire :: "string \<Rightarrow> string \<Rightarrow> consul_server \<Rightarrow> consul_server \<times> (kv_error + bool)" where
  "server_acquire key sid k =
     (if sid = '''' \<or> sid \<notin> set (srv_valid k) then (k, Inl session_error)
      else if srv_owner k key = '''' \<or> srv_owner k key = sid then (k\<lparr>srv_owner := (srv_owner k)(key := sid)\<rparr>, Inr True)
      else (k, Inr False))"

definition mem_consul :: "consul_server consul" where
  "mem_consul =
     \<lparr>kvAcquire = (\<lambda>k pair. if srv_down k then (k, Inl network_error) else server_acquire (pair_Key pair) (pair_Session pair) k),
      kvGet = (\<lambda>k key canceled. if srv_down k then Inl network_error
                 else Inr (if srv_owner k key = '''' then None
                           else Some \<lparr>pair_Key = key, pair_Value = '''', pair_Session = srv_owner k key, pair_Flags = lockFlagValue\<rparr>)),
      kvRelease = (\<lambda>k pair. if srv_down k then (k, Some network_error)
                 else (if srv_owner k (pair_Key pair) = pair_Session pair then k\<lparr>srv_owner := (srv_owner k)(pair_Key pair := '''')\<rparr> else k, None)),
      sessionCreate = (\<lambda>k canceled. if srv_down k then (k, Inl network_error) else (server_create k, Inr (new_session_id k))),
      sessionRenew = (\<lambda>k sid canceled. (k, if srv_down k then Some network_error
                 else if sid \<in> set (srv_valid k) then None else Some session_error))\<rparr>"

text \<open>What happens elsewhere: a session expires and loses its locks, another process opens a session and tries
  to lock a key, and the network fails or recovers.\<close>

datatype server_event = Expire string | Other string | Network bool

fun happens :: "server_event \<Rightarrow> consul_server \<Rightarrow> consul_server" where
  "happens (Expire sid) k =
     k\<lparr>srv_valid := removeAll sid (srv_valid k), srv_owner := (\<lambda>key. if srv_owner k key = sid then '''' else srv_owner k key)\<rparr>"
| "happens (Other key) k = fst (server_acquire key (new_session_id k) (server_create k))"
| "happens (Network down) k = k\<lparr>srv_down := down\<rparr>"

definition mem_world :: "consul_server \<Rightarrow> consul_server \<Rightarrow> bool" where
  "mem_world k k' \<longleftrightarrow> (\<exists>e. k' = happens e k)"

definition empty_server :: consul_server where
  "empty_server = \<lparr>srv_owner = (\<lambda>_. ''''), srv_valid = [], srv_issued = [], srv_down = False\<rparr>"

lemma new_session_id_fresh: "new_session_id k \<notin> set (srv_issued k)"
proof
  assume "new_session_id k \<in> set (srv_issued k)"
  then have "length (new_session_id k) \<le> sum_list (map length (srv_issued k))"
    by (intro member_le_sum_list) auto
  then show False by (simp add: new_session_id_def)
qed

lemma kept_create: "kept (server_view k) (server_view (server_create k))"
  using new_session_id_fresh [of k] by (auto simp: kept_def server_view_def server_create_def)

lemma kept_acquire: "kept (server_view k) (server_view (fst (server_acquire key sid k)))"
  by (auto simp: kept_def server_view_def server_acquire_def)

lemma kept_trans: "kept v v' \<Longrightarrow> kept v' v'' \<Longrightarrow> kept v v''"
  unfolding kept_def by blast

lemma mem_consul_docs: "consul_docs mem_consul server_view"
  unfolding consul_docs_def
proof (intro conjI allI)
  fix k key sid b and pair :: kv_pair
  have acquired: "owner (server_view k') key = sid" if "server_acquire key sid k = (k', Inr True)" for k' key sid
    using that by (auto simp: server_acquire_def server_view_def split: if_splits)
  show "case kvAcquire mem_consul k pair of (k', r) \<Rightarrow> kept (server_view k) (server_view k')
      \<and> (r = Inr True \<longrightarrow> owner (server_view k') (pair_Key pair) = pair_Session pair)"
    using kept_acquire [of k "pair_Key pair" "pair_Session pair"] acquired
    by (auto simp: mem_consul_def split: prod.split)
  show "case kvGet mem_consul k key b of Inl e \<Rightarrow> True | Inr None \<Rightarrow> owner (server_view k) key = ''''
      | Inr (Some pair) \<Rightarrow> owner (server_view k) key = pair_Session pair"
    by (simp add: mem_consul_def server_view_def)
  show "released (pair_Key pair) (pair_Session pair) (server_view k) (server_view (fst (kvRelease mem_consul k pair)))"
    by (auto simp: released_def mem_consul_def server_view_def)
  show "case sessionCreate mem_consul k b of (k', r) \<Rightarrow> kept (server_view k) (server_view k')
      \<and> (\<forall>sid. r = Inr sid \<longrightarrow> sid \<noteq> '''' \<and> issued (server_view k') sid)"
    using kept_create by (auto simp: mem_consul_def server_view_def server_create_def new_session_id_def)
  show "kept (server_view k) (server_view (fst (sessionRenew mem_consul k sid b)))"
    by (simp add: mem_consul_def)
qed

lemma mem_world_docs: "world_docs mem_world server_view"
  unfolding world_docs_def
proof (intro allI impI)
  fix k k'
  assume "mem_world k k'"
  then obtain e where "k' = happens e k" by (auto simp: mem_world_def)
  then show "kept (server_view k) (server_view k')"
    by (cases e) (auto intro: kept_trans [OF kept_create kept_acquire], auto simp: kept_def server_view_def)
qed

section \<open>Runs\<close>

datatype action =
    ACreate string string | ACall nat string bool | AWait nat | ARelease string | ALoop bool nat | ASession "string list"
  | AWorld server_event

fun act :: "action \<Rightarrow> consul_server sync_system \<Rightarrow> consul_server sync_system option" where
  "act (ACreate key val) s = Some (fst (manager_Lock key val s))"
| "act (ACall c key tr) s = call_lock c key tr s"
| "act (AWait c) s = waitForState c s"
| "act (ARelease key) s = Some (fst (release mem_consul key s))"
| "act (ALoop fired i) s = lockLoop mem_consul fired i s"
| "act (ASession keys) s = session_step mem_consul keys s"
| "act (AWorld e) s = Some (s\<lparr>kv := happens e (kv s)\<rparr>)"

fun run :: "action list \<Rightarrow> consul_server sync_system \<Rightarrow> consul_server sync_system option" where
  "run [] s = Some s"
| "run (a # as) s = (case act a s of None \<Rightarrow> None | Some s' \<Rightarrow> run as s')"

lemma act_step: "act a s = Some s' \<Longrightarrow> sync_step mem_consul mem_world s s'"
proof (cases a)
  case (AWorld e)
  have "mem_world (kv s) (happens e (kv s))" by (auto simp: mem_world_def)
  then show "act a s = Some s' \<Longrightarrow> sync_step mem_consul mem_world s s'" using AWorld by (auto intro: sync_step.World)
qed (auto intro: sync_step.intros)

lemma run_reach: "run as s = Some s' \<Longrightarrow> sync_reach mem_consul mem_world s s'"
  by (induction as arbitrary: s) (auto split: option.splits intro: converse_rtranclp_into_rtranclp act_step)

lemma run_append: "run (as @ bs) s = (case run as s of None \<Rightarrow> None | Some s' \<Rightarrow> run bs s')"
  by (induction as arbitrary: s) (auto split: option.split)

text \<open>A lock on the key \<open>k\<close> that its process waits for, until it has it.\<close>

definition to_session :: "action list" where
  "to_session = [ACreate ''k'' ''v'', ACall 0 ''k'' False, AWait 0, ALoop False 0, ALoop False 0, ALoop False 0]"

definition to_monitor :: "action list" where
  "to_monitor = to_session @ [ASession [], ASession [], ASession [], ASession [],
     ALoop True 0, ALoop False 0, ALoop False 0, ALoop False 0, AWait 0, AWait 0]"

definition start :: "consul_server sync_system" where "start = new_system empty_server"

lemma run_reaches:
  assumes "case run as start of None \<Rightarrow> False | Some s \<Rightarrow> P s"
  obtains s where "sync_reach mem_consul mem_world (new_system empty_server) s" and "P s"
  using assms run_reach [of as start] by (auto simp: start_def split: option.splits)

section \<open>What the locks guarantee\<close>

text \<open>C29: In every reachable state of a process, however its goroutines, its callers and the rest of the world interleave,
  the current \<^verbatim>\<open>Lost\<close> channel of a lock is open exactly while the lock is in the state acquired, every channel
  handed out before is closed, and no channel is ever closed twice (which would panic).\<close>

theorem lost_channel:
  assumes "sync_reach kc world (new_system k) s" and "locks s key = Some l"
  shows "open_chs l = (if lock_state l = stateAcquired then [lockLostCh l] else []) \<and> \<not> crashed l"
  using reach_locks_ok [OF assms(1)] assms(2) by (simp add: locks_ok_def lock_ok_def)

theorem lost_channel_witness:
  "\<exists>s l. sync_reach mem_consul mem_world (new_system empty_server) s \<and> locks s ''k'' = Some l
     \<and> lock_state l = stateAcquired \<and> open_chs l = [lockLostCh l] \<and> \<not> crashed l"
proof -
  have "case run to_monitor start of None \<Rightarrow> False | Some s \<Rightarrow> map_option lock_state (locks s ''k'') = Some stateAcquired"
    by code_simp
  then obtain s l where "sync_reach mem_consul mem_world (new_system empty_server) s" "locks s ''k'' = Some l" "lock_state l = stateAcquired"
    by (rule run_reaches) auto
  with lost_channel show ?thesis by fastforce
qed

text \<open>C30: No wake-up is missed: in every reachable state, a call of \<^verbatim>\<open>Lock\<close> that waits on the condition and was
  not notified since it began to wait finds the lock not acquired, and one of \<^verbatim>\<open>TryLock\<close> finds it neither acquired nor failed.\<close>

theorem no_missed_wakeup:
  assumes "sync_reach kc world (new_system k) s"
    and "callers s c = Some (Waiting key tr (stateCond l))" and "locks s key = Some l"
  shows "lock_state l \<noteq> stateAcquired \<and> (tr \<longrightarrow> lock_state l \<noteq> stateError)"
  using reach_callers_ok [OF assms(1)] assms(2,3) by (force simp: callers_ok_def)

theorem no_missed_wakeup_witness:
  "\<exists>s l. sync_reach mem_consul mem_world (new_system empty_server) s \<and> locks s ''k'' = Some l
     \<and> callers s 0 = Some (Waiting ''k'' False (stateCond l)) \<and> lock_state l \<noteq> stateAcquired"
proof -
  have "case run to_session start of None \<Rightarrow> False | Some s \<Rightarrow>
      callers s 0 = Some (Waiting ''k'' False 0) \<and> map_option stateCond (locks s ''k'') = Some 0"
    by code_simp
  then obtain s l where s: "sync_reach mem_consul mem_world (new_system empty_server) s" "locks s ''k'' = Some l"
      "callers s 0 = Some (Waiting ''k'' False (stateCond l))"
    by (rule run_reaches) auto
  with no_missed_wakeup [OF s(1,3,2)] show ?thesis by blast
qed

text \<open>C31: A goroutine whose context is done, after a release or when the application stops, ends: it can always make a step
  until it has ended, whatever Consul answers, no step of the process revives it, and every step of its own leaves fewer than before,
  of eleven at most, except that it may be woken while it waits for a session and find none.\<close>

theorem released_goroutine_ends:
  assumes "sync_reach kc world (new_system k) s" and "i < next_loop s" and "ctx_done s (loops s i)"
  shows "(loop_pc (loops s i) \<noteq> Ended \<longrightarrow> (\<exists>s'. lockLoop kc False i s = Some s'))
    \<and> (\<forall>s'. sync_step kc world s s' \<longrightarrow> ctx_done s' (loops s' i)
         \<and> (loop_pc (loops s' i) = loop_pc (loops s i) \<or> remaining (loop_pc (loops s' i)) < remaining (loop_pc (loops s i))
            \<or> (\<exists>n m. loop_pc (loops s i) = AtSessionWait n \<and> loop_pc (loops s' i) = AtSessionWait m \<and> sessionCond (manager s) \<noteq> n)))
    \<and> remaining (loop_pc (loops s i)) \<le> 11"
proof (intro conjI impI allI)
  have "loop_pc (loops s i) \<noteq> NotStarted"
    using reach_loops_ok [OF assms(1)] assms(2) by (simp add: loops_ok_def not_le)
  then show "\<exists>s'. lockLoop kc False i s = Some s'" if "loop_pc (loops s i) \<noteq> Ended"
    using that assms(3) by (intro done_not_stuck)
  fix s'
  assume step: "sync_step kc world s s'"
  from sync_step_loop [OF step assms(2)]
  have "ctx_done s' (loops s' i)
    \<and> (loop_pc (loops s' i) = loop_pc (loops s i) \<or> remaining (loop_pc (loops s' i)) < remaining (loop_pc (loops s i))
       \<or> (\<exists>n m. loop_pc (loops s i) = AtSessionWait n \<and> loop_pc (loops s' i) = AtSessionWait m \<and> sessionCond (manager s) \<noteq> n))"
  proof
    assume "\<exists>fired. lockLoop kc fired i s = Some s'"
    then obtain fired where l: "lockLoop kc fired i s = Some s'" ..
    with assms(3) own_step_lockLoop [OF l] have "ctx_done s' (loops s' i)" by (auto simp: own_step_def ctx_done_def)
    with done_decreases [OF l assms(3)] show ?thesis by blast
  next
    assume "spared i s s'"
    with assms(3) show ?thesis by (simp add: spared_done) (simp add: spared_def)
  qed
  then show "ctx_done s' (loops s' i)"
    and "loop_pc (loops s' i) = loop_pc (loops s i) \<or> remaining (loop_pc (loops s' i)) < remaining (loop_pc (loops s i))
      \<or> (\<exists>n m. loop_pc (loops s i) = AtSessionWait n \<and> loop_pc (loops s' i) = AtSessionWait m \<and> sessionCond (manager s) \<noteq> n)"
    by blast+
next
  show "remaining (loop_pc (loops s i)) \<le> 11" by (cases "loop_pc (loops s i)") simp_all
qed

theorem released_goroutine_ends_witness:
  "\<exists>s s'. sync_reach mem_consul mem_world (new_system empty_server) s \<and> ctx_done s (loops s 0)
     \<and> loop_pc (loops s 0) = AtMonitor ''s'' None \<and> lockLoop mem_consul False 0 s = Some s'
     \<and> remaining (loop_pc (loops s 0)) \<le> 11"
proof -
  have "case run (to_monitor @ [ARelease ''k'']) start of None \<Rightarrow> False | Some s \<Rightarrow>
      next_loop s = 1 \<and> ctx_done s (loops s 0) \<and> loop_pc (loops s 0) = AtMonitor ''s'' None"
    by code_simp
  then obtain s where s: "sync_reach mem_consul mem_world (new_system empty_server) s" "next_loop s = 1"
      "ctx_done s (loops s 0)" "loop_pc (loops s 0) = AtMonitor ''s'' None"
    by (rule run_reaches) auto
  with released_goroutine_ends [of mem_consul mem_world empty_server s 0] show ?thesis by auto
qed



section \<open>What they do not\<close>

text \<open>C32: After \<^verbatim>\<open>Release\<close> a call of \<^verbatim>\<open>Lock\<close> can succeed at once although another session holds the lock:
  releasing leaves the state acquired until the stopped goroutine has ended, and \<^verbatim>\<open>Lock\<close> looks at the state only.\<close>

theorem relock_succeeds_without_lock:
  "\<exists>s l. sync_reach mem_consul mem_world (new_system empty_server) s \<and> locks s ''k'' = Some l
     \<and> callers s 1 = Some (Returned None)
     \<and> owner (server_view (kv s)) ''k'' \<notin> {'''', lock_session l} \<and> valid (server_view (kv s)) (owner (server_view (kv s)) ''k'')"
proof -
  have "case run (to_monitor @ [ARelease ''k'', AWorld (Other ''k''), ACall 1 ''k'' False, AWait 1]) start of None \<Rightarrow> False
      | Some s \<Rightarrow> callers s 1 = Some (Returned None) \<and> map_option lock_session (locks s ''k'') = Some ''s''
          \<and> srv_owner (kv s) ''k'' = ''ss'' \<and> ''ss'' \<in> set (srv_valid (kv s))"
    by code_simp
  then obtain s l where s: "sync_reach mem_consul mem_world (new_system empty_server) s" "locks s ''k'' = Some l"
      "callers s 1 = Some (Returned None)" "lock_session l = ''s''" "srv_owner (kv s) ''k'' = ''ss''" "''ss'' \<in> set (srv_valid (kv s))"
    by (rule run_reaches) auto
  then show ?thesis by (intro exI [of _ s] exI [of _ l]) (simp add: server_view_def)
qed



end
