(* ===== verification/Placeholder.thy ===== *)
theory Placeholder
  imports Go_Strings "HOL-Library.AList"
begin

text \<open>
  Placeholders in configuration values, the second half of \<^verbatim>\<open>pkg/appconfig/config.go\<close>, and the guess of the type of a
  value, \<^verbatim>\<open>ParseString\<close> of \<^verbatim>\<open>pkg/utils/string.go\<close>. Numbers are a type variable: what
  \<^verbatim>\<open>strconv.ParseFloat\<close> makes of a string, how \<^verbatim>\<open>fmt\<close> prints numbers, lists and maps, and
  the JSON decoder are the record \<open>go_values\<close>. The iteration over a Go map has the order that the argument \<open>ord\<close> gives
  to the keys.

  The lemmas read a string as a list of segments, text and holes, and show that scanning finds the holes and that
  replacing them one after the other is substitution.
\<close>

section \<open>Values\<close>

datatype 'x cval =
    CNil
  | CStr string
  | CStrs "string list"
  | CBool bool
  | CNum 'x
  | CMap "(string \<times> 'x cval) list"
  | CList "'x cval list"

record 'x go_values =
  ParseFloat :: "string \<Rightarrow> 'x option"
  UnmarshalObject :: "string \<Rightarrow> (string \<times> 'x cval) list option"
  UnmarshalArray :: "string \<Rightarrow> 'x cval list option"
  SprintOther :: "'x cval \<Rightarrow> string"

definition strconv_ParseBool :: "string \<Rightarrow> bool option" where
  "strconv_ParseBool s =
     (if s \<in> set [''1'', ''t'', ''T'', ''TRUE'', ''true'', ''True''] then Some True
      else if s \<in> set [''0'', ''f'', ''F'', ''FALSE'', ''false'', ''False''] then Some False
      else None)"

definition ParseString :: "'x go_values \<Rightarrow> string \<Rightarrow> 'x cval" where
  "ParseString lib s =
     (case ParseFloat lib s of
        Some x \<Rightarrow> CNum x
      | None \<Rightarrow>
         (case strconv_ParseBool s of
            Some b \<Rightarrow> CBool b
          | None \<Rightarrow>
              let trimmed = strings_TrimSpace s;
                  obj = (if strings_HasPrefix trimmed ''{'' then UnmarshalObject lib trimmed else None);
                  arr = (if strings_HasPrefix trimmed ''['' then UnmarshalArray lib trimmed else None)
              in case obj of
                   Some m \<Rightarrow> CMap m
                 | None \<Rightarrow> (case arr of Some xs \<Rightarrow> CList xs | None \<Rightarrow> CStr s)))"

definition Sprint :: "'x go_values \<Rightarrow> 'x cval \<Rightarrow> string" where
  "Sprint lib v =
     (case v of CStr s \<Rightarrow> s | CBool b \<Rightarrow> (if b then ''true'' else ''false'') | _ \<Rightarrow> SprintOther lib v)"

section \<open>Placeholders\<close>

definition placeHolderPrefix :: string where "placeHolderPrefix = ''${''"
definition placeHolderSuffix :: string where "placeHolderSuffix = ''}''"
definition placeHolderDefaultDelimiter :: string where "placeHolderDefaultDelimiter = '':''"

record 'x placeholder =
  ph_key :: string
  ph_default :: "'x cval option"

definition placeholder_String :: "'x go_values \<Rightarrow> 'x placeholder \<Rightarrow> string" where
  "placeholder_String lib ph =
     (case ph_default ph of
        None \<Rightarrow> placeHolderPrefix @ ph_key ph @ placeHolderSuffix
      | Some v \<Rightarrow> placeHolderPrefix @ ph_key ph @ placeHolderDefaultDelimiter @ Sprint lib v @ placeHolderSuffix)"

text \<open>The placeholder of the characters between the brackets.\<close>

definition make_placeholder :: "'x go_values \<Rightarrow> string \<Rightarrow> 'x placeholder" where
  "make_placeholder lib inner =
     (case strings_SplitN2 inner (CHR '':'') of
        (key, rest) \<Rightarrow> \<lparr>ph_key = key, ph_default = map_option (ParseString lib) rest\<rparr>)"

text \<open>
  The scan: \<open>past\<close> are the characters before the index, so the index is its length; the stack holds the
  positions of open brackets.
\<close>

fun parse_loop ::
    "'x go_values \<Rightarrow> string \<Rightarrow> string \<Rightarrow> nat list \<Rightarrow> 'x placeholder list \<Rightarrow> bool \<Rightarrow> string + 'x placeholder list \<times> bool" where
  "parse_loop lib past [] stack phs embedded = Inr (phs, embedded)"
| "parse_loop lib past (c # rest) stack phs embedded =
     (let i = length past;
          stack = (if prefix placeHolderPrefix (c # rest) then stack @ [i + 1] else stack)
      in if prefix placeHolderPrefix (c # rest) \<and> length stack > 1
         then Inl (past @ c # rest @ '' has nested place holders, which is not supported'')
         else if [c] = placeHolderSuffix \<and> stack \<noteq> []
         then let left = last stack
              in parse_loop lib (past @ [c]) rest (butlast stack) (phs @ [make_placeholder lib (drop (left + 1) past)])
                   (embedded \<or> left > length placeHolderPrefix - 1 \<or> rest \<noteq> [])
         else parse_loop lib (past @ [c]) rest stack phs embedded)"

definition parsePlaceHolder :: "'x go_values \<Rightarrow> string \<Rightarrow> string + 'x placeholder list \<times> bool" where
  "parsePlaceHolder lib strValue = parse_loop lib [] strValue [] [] False"

text \<open>Replacing the placeholders in a string: \<open>kvs\<close> has for each key that was resolved its placeholder, the last one with
  that key, and the value.\<close>

definition replace_placeholders ::
    "'x go_values \<Rightarrow> (string list \<Rightarrow> string list) \<Rightarrow> (string \<times> 'x placeholder \<times> 'x cval) list \<Rightarrow> string \<Rightarrow> string" where
  "replace_placeholders lib ord kvs str =
     fold (\<lambda>key str. case map_of kvs key of
               None \<Rightarrow> str
             | Some (ph, resolved) \<Rightarrow> strings_ReplaceAll str (placeholder_String lib ph) (Sprint lib resolved))
       (ord (map fst kvs)) str"

section \<open>Segments\<close>

datatype seg = Text string | Hole string "string option"

fun show_seg :: "seg \<Rightarrow> string" where
  "show_seg (Text t) = t"
| "show_seg (Hole key None) = ''${'' @ key @ ''}''"
| "show_seg (Hole key (Some d)) = ''${'' @ key @ '':'' @ d @ ''}''"

fun seg_ok :: "seg \<Rightarrow> bool" where
  "seg_ok (Text t) = (CHR ''$'' \<notin> set t)"
| "seg_ok (Hole key d) =
     (set key \<inter> {CHR ''$'', CHR ''}'', CHR '':''} = {} \<and> (case d of None \<Rightarrow> True | Some d \<Rightarrow> set d \<inter> {CHR ''$'', CHR ''}''} = {}))"

fun is_hole :: "seg \<Rightarrow> bool" where
  "is_hole (Text t) = False"
| "is_hole (Hole key d) = True"

definition show_segs :: "seg list \<Rightarrow> string" where
  "show_segs segs = concat (map show_seg segs)"

fun hole_placeholder :: "'x go_values \<Rightarrow> seg \<Rightarrow> 'x placeholder" where
  "hole_placeholder lib (Hole key d) = \<lparr>ph_key = key, ph_default = map_option (ParseString lib) d\<rparr>"
| "hole_placeholder lib (Text t) = \<lparr>ph_key = t, ph_default = None\<rparr>"

lemma show_segs_simps [simp]: "show_segs [] = []" "show_segs (x # xs) = show_seg x @ show_segs xs"
  "show_segs (xs @ ys) = show_segs xs @ show_segs ys"
  by (simp_all add: show_segs_def)

lemma parse_text:
  "CHR ''$'' \<notin> set t \<Longrightarrow> parse_loop lib past (t @ rest) [] phs emb = parse_loop lib (past @ t) rest [] phs emb"
  by (induction t arbitrary: past) (auto simp: placeHolderPrefix_def Let_def)

lemma parse_inner:
  "set t \<inter> {CHR ''$'', CHR ''}''} = {} \<Longrightarrow>
   parse_loop lib past (t @ rest) [n] phs emb = parse_loop lib (past @ t) rest [n] phs emb"
  by (induction t arbitrary: past) (auto simp: placeHolderPrefix_def placeHolderSuffix_def Let_def)

lemma parse_bracketed:
  assumes "set t \<inter> {CHR ''$'', CHR ''}''} = {}"
  shows "parse_loop lib past (''${'' @ t @ ''}'' @ rest) [] phs emb =
    parse_loop lib (past @ ''${'' @ t @ ''}'') rest [] (phs @ [make_placeholder lib t]) (emb \<or> past \<noteq> [] \<or> rest \<noteq> [])"
proof -
  have "parse_loop lib past (''${'' @ t @ ''}'' @ rest) [] phs emb =
      parse_loop lib (past @ ''$'') (''{'' @ t @ ''}'' @ rest) [length past + 1] phs emb"
    by (simp add: placeHolderPrefix_def placeHolderSuffix_def Let_def)
  also have "\<dots> = parse_loop lib (past @ ''${'') (t @ ''}'' @ rest) [length past + 1] phs emb"
    by (simp add: placeHolderPrefix_def placeHolderSuffix_def Let_def)
  also have "\<dots> = parse_loop lib (past @ ''${'' @ t) (''}'' @ rest) [length past + 1] phs emb"
    using assms by (subst parse_inner) simp_all
  also have "\<dots> = parse_loop lib (past @ ''${'' @ t @ ''}'') rest [] (phs @ [make_placeholder lib t])
      (emb \<or> past \<noteq> [] \<or> rest \<noteq> [])"
    by (simp add: placeHolderPrefix_def placeHolderSuffix_def Let_def)
  finally show ?thesis .
qed

lemma make_placeholder_hole:
  "seg_ok (Hole key None) \<Longrightarrow> make_placeholder lib key = hole_placeholder lib (Hole key None)"
  "seg_ok (Hole key (Some d)) \<Longrightarrow> make_placeholder lib (key @ '':'' @ d) = hole_placeholder lib (Hole key (Some d))"
  by (auto simp: make_placeholder_def strings_SplitN2_word strings_SplitN2_append)

lemma parse_hole:
  assumes "seg_ok (Hole key d)"
  shows "parse_loop lib past (show_seg (Hole key d) @ rest) [] phs emb =
    parse_loop lib (past @ show_seg (Hole key d)) rest [] (phs @ [hole_placeholder lib (Hole key d)]) (emb \<or> past \<noteq> [] \<or> rest \<noteq> [])"
proof (cases d)
  case None
  with assms parse_bracketed [of key lib past rest phs emb] make_placeholder_hole(1) [of key lib] show ?thesis by auto
next
  case (Some v)
  with assms have "set (key @ '':'' @ v) \<inter> {CHR ''$'', CHR ''}''} = {}" by auto
  from parse_bracketed [OF this, of lib past rest phs emb] Some assms make_placeholder_hole(2) [of key v lib]
  show ?thesis by simp
qed

lemma show_seg_hole [simp]: "show_seg (Hole key d) \<noteq> []"
  by (cases d) auto

lemma show_segs_Nil: "show_segs segs = [] \<longleftrightarrow> filter (\<lambda>s. show_seg s \<noteq> []) segs = []"
  by (induction segs) auto

lemma holes_shown: "filter is_hole segs \<noteq> [] \<Longrightarrow> filter (\<lambda>s. show_seg s \<noteq> []) segs \<noteq> []"
  by (auto simp: filter_empty_conv elim!: is_hole.elims(2)) (use show_seg_hole in blast)

lemma parse_segs:
  "list_all seg_ok segs \<Longrightarrow>
   parse_loop lib past (show_segs segs) [] phs emb =
     Inr (phs @ map (hole_placeholder lib) (filter is_hole segs),
          emb \<or> (filter is_hole segs \<noteq> [] \<and> (past \<noteq> [] \<or> length (filter (\<lambda>s. show_seg s \<noteq> []) segs) > 1)))"
proof (induction segs arbitrary: past phs emb)
  case (Cons x segs)
  show ?case
  proof (cases x)
    case (Text t)
    with Cons.prems have "parse_loop lib past (show_segs (x # segs)) [] phs emb = parse_loop lib (past @ t) (show_segs segs) [] phs emb"
      by (simp add: parse_text)
    moreover have "filter is_hole segs \<noteq> [] \<Longrightarrow> 0 < length (filter (\<lambda>s. show_seg s \<noteq> []) segs)"
      using holes_shown [of segs] by auto
    ultimately show ?thesis using Cons Text by (cases "t = []") auto
  next
    case (Hole key d)
    with Cons.prems have "parse_loop lib past (show_segs (x # segs)) [] phs emb =
        parse_loop lib (past @ show_seg x) (show_segs segs) [] (phs @ [hole_placeholder lib x]) (emb \<or> past \<noteq> [] \<or> show_segs segs \<noteq> [])"
      by (simp add: parse_hole)
    with Cons Hole holes_shown [of segs] show ?thesis by (auto simp: show_segs_Nil)
  qed
qed simp

section \<open>Replacing holes\<close>

lemma replace_text:
  "c \<notin> set t \<Longrightarrow> strings_ReplaceAll (t @ rest) (c # old) new = t @ strings_ReplaceAll rest (c # old) new"
  by (induction t) auto

lemma hole_body:
  assumes "is_hole h" and "seg_ok h"
  obtains u where "show_seg h = CHR ''$'' # u @ ''}''" and "CHR ''$'' \<notin> set u" and "CHR ''}'' \<notin> set u"
proof (cases h)
  case (Hole key d)
  with assms(2) that [of "CHR ''{'' # key"] that [of "CHR ''{'' # key @ '':'' @ the d"] show thesis by (cases d) auto
qed (use assms in simp)

lemma first_occurrence:
  "c \<notin> set u \<Longrightarrow> c \<notin> set v \<Longrightarrow> u @ c # a = v @ c # b \<Longrightarrow> u = v"
proof (induction u arbitrary: v)
  case Nil
  then show ?case by (cases v) auto
next
  case (Cons x u)
  then show ?case by (cases v) auto
qed

lemma hole_prefix:
  assumes "is_hole h" "seg_ok h" "is_hole h'" "seg_ok h'" and "prefix (show_seg h) (show_seg h' @ rest)"
  shows "show_seg h = show_seg h'"
proof -
  obtain u where u: "show_seg h = CHR ''$'' # u @ ''}''" "CHR ''}'' \<notin> set u" using hole_body assms(1,2) by metis
  obtain v where v: "show_seg h' = CHR ''$'' # v @ ''}''" "CHR ''}'' \<notin> set v" using hole_body assms(3,4) by metis
  from assms(5) obtain z where "u @ CHR ''}'' # z = v @ CHR ''}'' # rest" unfolding u v by (auto simp: prefix_def)
  with first_occurrence u(2) v(2) have "u = v" by metis
  with u v show ?thesis by simp
qed

lemma show_seg_inj:
  assumes "is_hole h" "seg_ok h" "is_hole h'" "seg_ok h'" and "show_seg h = show_seg h'"
  shows "h = h'"
proof (cases h; cases h')
  fix k d k' d'
  assume h: "h = Hole k d" "h' = Hole k' d'"
  define body where "body k d = k @ (case d of None \<Rightarrow> [] | Some v \<Rightarrow> '':'' @ v)" for k d
  have split: "strings_SplitN2 (body k d) (CHR '':'') = (k, d)" if "seg_ok (Hole k d)" for k d
    using that by (cases d) (auto simp: body_def strings_SplitN2_word strings_SplitN2_append)
  have "body k d = body k' d'" using assms(5) h by (cases d; cases d') (auto simp: body_def)
  then have "(k, d) = (k', d')" using split [of k d] split [of k' d'] assms(2,4) h by metis
  then show ?thesis using h by simp
qed (use assms in auto)

lemma replace_segs:
  assumes "is_hole h" and "seg_ok h"
  shows "list_all seg_ok segs \<Longrightarrow>
    strings_ReplaceAll (show_segs segs) (show_seg h) new = show_segs (map (\<lambda>s. if s = h then Text new else s) segs)"
proof (induction segs)
  case (Cons s segs)
  obtain u where u: "show_seg h = CHR ''$'' # u @ ''}''" using hole_body assms by metis
  show ?case
  proof (cases s)
    case (Text t)
    with Cons assms(1) u replace_text [of "CHR ''$''" t "show_segs segs" "u @ ''}''" new] show ?thesis by auto
  next
    case (Hole k d)
    have hs: "is_hole s" "seg_ok s" using Cons.prems Hole by auto
    then obtain v where v: "show_seg s = CHR ''$'' # v @ ''}''" "CHR ''$'' \<notin> set v" using hole_body by metis
    show ?thesis
    proof (cases "s = h")
      case True
      with Cons u show ?thesis by (auto simp: prefix_def)
    next
      case False
      then have "\<not> prefix (show_seg h) (show_seg s @ show_segs segs)"
        using hole_prefix [OF assms hs] show_seg_inj [OF hs assms] by metis
      then have "strings_ReplaceAll (show_seg s @ show_segs segs) (show_seg h) new =
          CHR ''$'' # strings_ReplaceAll ((v @ ''}'') @ show_segs segs) (show_seg h) new"
        unfolding v by simp
      also have "\<dots> = show_seg s @ strings_ReplaceAll (show_segs segs) (show_seg h) new"
        unfolding u v using v(2) by (subst replace_text) auto
      finally show ?thesis using Cons False by simp
    qed
  qed
qed (simp add: show_segs_def)

text \<open>The default of a hole is printed the way it was written.\<close>

fun default_prints :: "'x go_values \<Rightarrow> seg \<Rightarrow> bool" where
  "default_prints lib (Hole key (Some d)) = (Sprint lib (ParseString lib d) = d)"
| "default_prints lib _ = True"

fun substituted :: "'x go_values \<Rightarrow> (string \<rightharpoonup> 'x placeholder \<times> 'x cval) \<Rightarrow> seg \<Rightarrow> string" where
  "substituted lib kv (Text t) = t"
| "substituted lib kv (Hole key d) = (case kv key of None \<Rightarrow> show_seg (Hole key d) | Some (ph, v) \<Rightarrow> Sprint lib v)"

lemma placeholder_String_hole: "default_prints lib (Hole key d) \<Longrightarrow> placeholder_String lib (hole_placeholder lib (Hole key d)) = show_seg (Hole key d)"
  by (cases d) (auto simp: placeholder_String_def placeHolderPrefix_def placeHolderSuffix_def placeHolderDefaultDelimiter_def)

text \<open>The segments after the keys \<open>ks\<close> were replaced.\<close>

fun replaced :: "'x go_values \<Rightarrow> (string \<rightharpoonup> 'x placeholder \<times> 'x cval) \<Rightarrow> string set \<Rightarrow> seg \<Rightarrow> seg" where
  "replaced lib kv ks (Hole key d) = (case kv key of Some (ph, v) \<Rightarrow> if key \<in> ks then Text (Sprint lib v) else Hole key d | None \<Rightarrow> Hole key d)"
| "replaced lib kv ks (Text t) = Text t"

lemma show_replaced: "show_segs (map (replaced lib kv UNIV) segs) = concat (map (substituted lib kv) segs)"
proof (induction segs)
  case (Cons s segs)
  then show ?case by (cases s) (auto split: option.split)
qed simp

text \<open>What replacement relies on: every resolved key has a hole, all holes of a key have the same default, defaults
  print back, and the values have no dollar sign.\<close>

definition replaceable :: "'x go_values \<Rightarrow> seg list \<Rightarrow> (string \<rightharpoonup> 'x placeholder \<times> 'x cval) \<Rightarrow> bool" where
  "replaceable lib segs kv \<longleftrightarrow> list_all seg_ok segs \<and> list_all (default_prints lib) segs
     \<and> (\<forall>key d d'. Hole key d \<in> set segs \<and> Hole key d' \<in> set segs \<longrightarrow> d = d')
     \<and> (\<forall>key ph v. kv key = Some (ph, v) \<longrightarrow>
          CHR ''$'' \<notin> set (Sprint lib v) \<and> (\<exists>d. Hole key d \<in> set segs \<and> ph = hole_placeholder lib (Hole key d)))"

lemma replaced_insert:
  assumes "replaceable lib segs kv" and "Hole key d \<in> set segs" and "kv key = Some (ph, v)" and "key \<notin> ks" and "s \<in> set segs"
  shows "(if replaced lib kv ks s = Hole key d then Text (Sprint lib v) else replaced lib kv ks s) = replaced lib kv (insert key ks) s"
proof (cases s)
  case (Hole k' d')
  with assms have "k' = key \<Longrightarrow> d' = d" by (auto simp: replaceable_def)
  with Hole assms show ?thesis by (auto split: option.split)
qed auto

lemma replaced_ok: "replaceable lib segs kv \<Longrightarrow> list_all seg_ok (map (replaced lib kv ks) segs)"
proof (unfold list_all_iff, intro ballI)
  fix s
  assume r: "replaceable lib segs kv" and "s \<in> set (map (replaced lib kv ks) segs)"
  then obtain s' where s: "s' \<in> set segs" "s = replaced lib kv ks s'" by auto
  with r have "seg_ok s'" by (auto simp: replaceable_def list_all_iff)
  with r s show "seg_ok s" by (cases s') (auto simp: replaceable_def split: option.splits)
qed

lemma replace_fold:
  assumes "replaceable lib segs kv"
  shows "distinct keys \<Longrightarrow> set keys \<subseteq> dom kv \<Longrightarrow> set keys \<inter> ks = {} \<Longrightarrow>
    fold (\<lambda>key str. case kv key of None \<Rightarrow> str
        | Some (ph, v) \<Rightarrow> strings_ReplaceAll str (placeholder_String lib ph) (Sprint lib v)) keys (show_segs (map (replaced lib kv ks) segs)) =
      show_segs (map (replaced lib kv (ks \<union> set keys)) segs)"
proof (induction keys arbitrary: ks)
  case (Cons key keys)
  then obtain ph v where kv: "kv key = Some (ph, v)" by auto
  with assms obtain d where d: "Hole key d \<in> set segs" "ph = hole_placeholder lib (Hole key d)"
    unfolding replaceable_def by blast
  have ok: "seg_ok (Hole key d)" "default_prints lib (Hole key d)"
    using assms d(1) by (auto simp: replaceable_def list_all_iff)
  have "strings_ReplaceAll (show_segs (map (replaced lib kv ks) segs)) (placeholder_String lib ph) (Sprint lib v) =
      show_segs (map (\<lambda>s. if s = Hole key d then Text (Sprint lib v) else s) (map (replaced lib kv ks) segs))"
    unfolding d(2) placeholder_String_hole [OF ok(2)] by (rule replace_segs [OF _ ok(1) replaced_ok [OF assms]]) simp
  also have "map (\<lambda>s. if s = Hole key d then Text (Sprint lib v) else s) (map (replaced lib kv ks) segs) =
      map (replaced lib kv (insert key ks)) segs"
    using Cons.prems(3) replaced_insert [OF assms d(1) kv, of ks] by simp
  finally show ?case using Cons kv by simp
qed simp

text \<open>A library with whole numbers only.\<close>

definition whole_numbers :: "nat go_values" where
  "whole_numbers =
     \<lparr>ParseFloat = (\<lambda>s. if s \<noteq> [] \<and> list_all is_digit s then Some (digits_value s) else None),
      UnmarshalObject = (\<lambda>_. None), UnmarshalArray = (\<lambda>_. None),
      SprintOther = (\<lambda>v. case v of CNum n \<Rightarrow> digits n | _ \<Rightarrow> [])\<rparr>"

text \<open>Scanning a string that is text and placeholders finds the placeholders from left to right, each with its key and the
  value its default parses to, and says that they are embedded unless the string is one placeholder and nothing else.\<close>

lemma placeholders_found:
  assumes "list_all seg_ok segs"
  shows "parsePlaceHolder lib (show_segs segs) =
    Inr (map (hole_placeholder lib) (filter is_hole segs),
         filter is_hole segs \<noteq> [] \<and> length (filter (\<lambda>s. show_seg s \<noteq> []) segs) > 1)"
  using parse_segs [OF assms, of lib "[]" "[]" False] by (simp add: parsePlaceHolder_def)

text \<open>Replacing the placeholders of a string one after the other, in whatever order the map of values is iterated, is
  substitution: every placeholder with a value becomes that value, all others stay.\<close>

lemma embedded_substitution:
  assumes "replaceable lib segs (map_of kvs)" and "distinct (map fst kvs)" and "mset (ord (map fst kvs)) = mset (map fst kvs)"
  shows "replace_placeholders lib ord kvs (show_segs segs) = concat (map (substituted lib (map_of kvs)) segs)"
proof -
  have "set (ord (map fst kvs)) = set (map fst kvs)" using assms(3) by (metis set_mset_mset)
  then have keys: "set (ord (map fst kvs)) \<subseteq> dom (map_of kvs)" by (simp add: dom_map_of_conv_image_fst)
  have "distinct (ord (map fst kvs))" using assms(2,3) by (metis mset_eq_imp_distinct_iff)
  have r: "replaced lib (map_of kvs) {} = id"
  proof
    show "replaced lib (map_of kvs) {} s = id s" for s by (cases s) (auto split: option.split)
  qed
  have "replaced lib (map_of kvs) (set (ord (map fst kvs))) s = replaced lib (map_of kvs) UNIV s" for s
    using \<open>set (ord (map fst kvs)) = set (map fst kvs)\<close>
    by (cases s) (auto split: option.split dest!: map_of_SomeD intro: rev_image_eqI)
  then have "replaced lib (map_of kvs) (set (ord (map fst kvs))) = replaced lib (map_of kvs) UNIV" by blast
  then show ?thesis
    using replace_fold [OF assms(1) \<open>distinct (ord (map fst kvs))\<close> keys, of "{}"]
    by (simp add: replace_placeholders_def r show_replaced)
qed

text \<open>C35: A placeholder inside a longer string whose default is not printed the way it is written (a number such as 1.0, or TRUE)
  is not replaced at all: the text that is looked for is made from the parsed default, and the placeholder stays in the value.\<close>

theorem reprinted_default_is_not_found:
  assumes "list_all seg_ok segs" and "Hole key (Some d) \<in> set segs"
    and "seg_ok (Hole key (Some (Sprint lib (ParseString lib d))))" and "Hole key (Some (Sprint lib (ParseString lib d))) \<notin> set segs"
    and "ord [key] = [key]"
  shows "replace_placeholders lib ord [(key, hole_placeholder lib (Hole key (Some d)), v)] (show_segs segs) = show_segs segs"
proof -
  let ?h = "Hole key (Some (Sprint lib (ParseString lib d)))"
  have "placeholder_String lib (hole_placeholder lib (Hole key (Some d))) = show_seg ?h"
    by (simp add: placeholder_String_def placeHolderPrefix_def placeHolderSuffix_def placeHolderDefaultDelimiter_def)
  moreover have "map (\<lambda>s. if s = ?h then Text (Sprint lib v) else s) segs = segs"
    using assms(4) by (intro map_idI) auto
  ultimately show ?thesis
    using replace_segs [OF _ assms(3,1), of "Sprint lib v"] assms(5) by (simp add: replace_placeholders_def)
qed

theorem reprinted_default_is_not_found_witness:
  "replace_placeholders whole_numbers id [(''port'', \<lparr>ph_key = ''port'', ph_default = Some (CNum 80)\<rparr>, CNum 8080)] ''host:${port:080}'' =
     ''host:${port:080}''"
proof -
  have p: "ParseString whole_numbers ''080'' = CNum 80" by code_simp
  have s: "Sprint whole_numbers (CNum 80) = ''80''" by code_simp
  show ?thesis
    using reprinted_default_is_not_found [of "[Text ''host:'', Hole ''port'' (Some ''080'')]" "''port''" "''080''" whole_numbers id "CNum 8080"]
    by (simp add: p s)
qed

end
