(* ===== verification/Config_Store.thy ===== *)
theory Config_Store
  imports Placeholder
begin

text \<open>
  Nested properties, \<^verbatim>\<open>pkg/appconfig/map_util.go\<close> and the helpers of \<^verbatim>\<open>pkg/appconfig/config.go\<close>: keys and
  their normal form (with \<^verbatim>\<open>CamelToSnakeCase\<close> of \<^verbatim>\<open>pkg/utils/string.go\<close>), reading and writing along a path,
  and visiting every property.

  Maps and slices are references in Go, and resolving a placeholder can make two properties share one map, so they live in an
  explicit heap, a list of nodes indexed by reference; a map is the list of its entries in the order of iteration.
  A key that a loop adds to the map it iterates over is not visited by that loop, which Go allows.
\<close>

section \<open>Keys\<close>

fun camel_loop :: "char option \<Rightarrow> string \<Rightarrow> string" where
  "camel_loop prev [] = []"
| "camel_loop prev (c # s) =
     (if is_upper c \<and> (case prev of None \<Rightarrow> False | Some p \<Rightarrow> is_lower p) then [CHR ''-'', to_lower c] else [to_lower c])
     @ camel_loop (Some c) s"

definition CamelToSnakeCase :: "string \<Rightarrow> string" where
  "CamelToSnakeCase camelCase = camel_loop None camelCase"

definition UnFlattenKey :: "string \<Rightarrow> string list" where
  "UnFlattenKey k = strings_Split k (CHR ''.'')"

definition NormalizeKey :: "string \<Rightarrow> string" where
  "NormalizeKey key = strings_Join (map CamelToSnakeCase (UnFlattenKey key)) ''.''"

definition joinKeyPaths :: "string \<Rightarrow> string \<Rightarrow> string" where
  "joinKeyPaths left right = (if left = [] then right else if right = [] then left else left @ ''.'' @ right)"

section \<open>The heap\<close>

datatype 'x hval = HNil | HStr string | HStrs "string list" | HBool bool | HNum 'x | HRef nat

datatype 'x node = NMap "(string \<times> 'x hval) list" | NList "'x hval list"

type_synonym 'x heap = "'x node list"

definition as_map :: "'x heap \<Rightarrow> 'x hval \<Rightarrow> (nat \<times> (string \<times> 'x hval) list) option" where
  "as_map h v =
     (case v of
        HRef r \<Rightarrow> if r < length h then (case h ! r of NMap m \<Rightarrow> Some (r, m) | NList xs \<Rightarrow> None) else None
      | _ \<Rightarrow> None)"

definition as_list :: "'x heap \<Rightarrow> 'x hval \<Rightarrow> (nat \<times> 'x hval list) option" where
  "as_list h v =
     (case v of
        HRef r \<Rightarrow> if r < length h then (case h ! r of NMap m \<Rightarrow> None | NList xs \<Rightarrow> Some (r, xs)) else None
      | _ \<Rightarrow> None)"

definition entry :: "(string \<times> 'x hval) list \<Rightarrow> string \<Rightarrow> 'x hval" where
  "entry m k = (case map_of m k of None \<Rightarrow> HNil | Some v \<Rightarrow> v)"

definition put_map :: "'x heap \<Rightarrow> nat \<Rightarrow> string \<Rightarrow> 'x hval \<Rightarrow> 'x heap" where
  "put_map h r k v = (case h ! r of NMap m \<Rightarrow> h[r := NMap (AList.update k v m)] | NList xs \<Rightarrow> h)"

definition put_list :: "'x heap \<Rightarrow> nat \<Rightarrow> nat \<Rightarrow> 'x hval \<Rightarrow> 'x heap" where
  "put_list h r i v = (case h ! r of NMap m \<Rightarrow> h | NList xs \<Rightarrow> h[r := NList (xs[i := v])])"

section \<open>Walking along a path\<close>

text \<open>A walk may change the heap before it fails.\<close>

datatype 's walk = Walked 's | Stopped string 's

text \<open>\<^verbatim>\<open>strconv.Atoi\<close> without a look at its error: zero, or the nearest number that fits.\<close>

definition Atoi_value :: "string \<Rightarrow> int" where
  "Atoi_value s =
     (case strconv_Atoi s of
        Some n \<Rightarrow> n
      | None \<Rightarrow>
          let (neg, ds) = (case s of CHR ''-'' # t \<Rightarrow> (True, t) | CHR ''+'' # t \<Rightarrow> (False, t) | _ \<Rightarrow> (False, s))
          in if ds = [] \<or> \<not> list_all is_digit ds then 0 else if neg then - (2 ^ 63) else 2 ^ 63 - 1)"

text \<open>The name and the index of a part of a key; slicing panics if the brackets are in the wrong order.\<close>

definition split_index :: "string \<Rightarrow> (string \<times> int) call" where
  "split_index nestedKey =
     (case (strings_Index nestedKey (CHR ''[''), strings_Index nestedKey (CHR '']'')) of
        (Some start, Some stop) \<Rightarrow>
          if stop < start + 1 then Panics
          else Returns (take start nestedKey, Atoi_value (take (stop - (start + 1)) (drop (start + 1) nestedKey)))
      | _ \<Rightarrow> Returns (nestedKey, -1))"

type_synonym ('x, 's) override = "string \<Rightarrow> 'x hval \<Rightarrow> bool \<Rightarrow> int \<Rightarrow> 'x heap \<times> 's \<Rightarrow> 'x hval \<times> 'x heap \<times> 's"

text \<open>The successor of a 64-bit integer.\<close>

definition int_succ :: "int \<Rightarrow> int" where
  "int_succ n = (if n = 2 ^ 63 - 1 then - (2 ^ 63) else n + 1)"

text \<open>One step of the walk, at the value \<open>tmp\<close>, for the part \<open>name\<close>: the value that is reached.\<close>

definition visit_step ::
    "('x, 's) override \<Rightarrow> bool \<Rightarrow> string \<Rightarrow> int \<Rightarrow> string \<Rightarrow> 'x hval \<Rightarrow> 'x heap \<times> 's \<Rightarrow> (string \<times> 'x hval \<times> 'x heap \<times> 's) walk" where
  "visit_step f isLast name index partial tmp st =
     (case as_map (fst st) tmp of
        None \<Rightarrow> Stopped (''incorrect type at key path '' @ partial) (partial, tmp, st)
      | Some (r, m) \<Rightarrow>
          let tmp = entry m name;
              partial = joinKeyPaths partial name;
              (v, h, s) = f partial tmp (isLast \<and> index < 0) (int_succ index) st;
              (h, tmp) = (if v \<noteq> HNil then (put_map h r name v, v) else (h, tmp))
          in if index < 0 then Walked (partial, tmp, h, s)
             else (case as_list h tmp of
                     None \<Rightarrow> Stopped (''index out of bound at key path '' @ partial) (partial, tmp, h, s)
                   | Some (r', xs) \<Rightarrow>
                       if int (length xs) \<le> index then Stopped (''index out of bound at key path '' @ partial) (partial, tmp, h, s)
                       else
                         let i = nat index;
                             tmp = xs ! i;
                             partial = joinKeyPaths partial name;
                             (v, h, s) = f partial tmp isLast (-1) (h, s)
                         in if v \<noteq> HNil then Walked (partial, v, put_list h r' i v, s) else Walked (partial, tmp, h, s)))"

fun visit_loop ::
    "('x, 's) override \<Rightarrow> string list \<Rightarrow> string \<Rightarrow> 'x hval \<Rightarrow> 'x heap \<times> 's \<Rightarrow> ('x heap \<times> 's) walk call" where
  "visit_loop f [] partial tmp st = Returns (Walked st)"
| "visit_loop f (nestedKey # rest) partial tmp st =
     and_then (split_index nestedKey) (\<lambda>(name, index).
       case visit_step f (rest = []) name index partial tmp st of
         Stopped e (p, v, st') \<Rightarrow> Returns (Stopped e st')
       | Walked (p, v, st') \<Rightarrow> visit_loop f rest p v st')"

definition visit :: "('x, 's) override \<Rightarrow> nat \<Rightarrow> string \<Rightarrow> 'x heap \<times> 's \<Rightarrow> ('x heap \<times> 's) walk call" where
  "visit overrideFunc nested flatKey st = visit_loop overrideFunc (UnFlattenKey (NormalizeKey flatKey)) [] (HRef nested) st"

definition config_value :: "'x heap \<Rightarrow> nat \<Rightarrow> string \<Rightarrow> 'x hval call" where
  "config_value h nested flatKey =
     and_then (visit (\<lambda>_ v isLeaf _ (h, ret). (HNil, h, if isLeaf then v else ret)) nested flatKey (h, HNil)) (\<lambda>w.
       case w of Stopped e st \<Rightarrow> Returns HNil | Walked (h', ret) \<Rightarrow> Returns ret)"

text \<open>The node that \<^verbatim>\<open>setValue\<close> puts where there is none.\<close>

definition new_node :: "int \<Rightarrow> 'x heap \<Rightarrow> 'x hval \<times> 'x heap" where
  "new_node expectedSliceLen h =
     (if expectedSliceLen > 0
      then let n = nat expectedSliceLen
           in (HRef (length h + n), h @ replicate n (NMap []) @ [NList (map (\<lambda>i. HRef (length h + i)) [0..<n])])
      else (HRef (length h), h @ [NMap []]))"

definition set_override :: "'x hval \<Rightarrow> bool \<Rightarrow> ('x, unit) override" where
  "set_override val createIntermediateNodes _ v isLeaf expectedSliceLen st =
     (if isLeaf then (val, st)
      else if v \<noteq> HNil \<or> \<not> createIntermediateNodes then (HNil, st)
      else (case new_node expectedSliceLen (fst st) of (node, h) \<Rightarrow> (node, h, snd st)))"

definition setValue :: "'x heap \<Rightarrow> nat \<Rightarrow> string \<Rightarrow> 'x hval \<Rightarrow> bool \<Rightarrow> ('x heap \<times> string option) call" where
  "setValue h nested flatKey val createIntermediateNodes =
     and_then (visit (set_override val createIntermediateNodes) nested flatKey (h, ())) (\<lambda>w.
       case w of Stopped e st \<Rightarrow> Returns (fst st, Some e) | Walked st \<Rightarrow> Returns (fst st, None))"

section \<open>Visiting all properties\<close>

text \<open>
  The recursion follows references, so it does not end on a map that contains itself: \<open>fuel\<close> bounds the depth, and
  running out of it is \<open>Runs_forever\<close>. The entries are read when the loop reaches them.
\<close>

function recursiveVisit ::
    "nat \<Rightarrow> (string \<Rightarrow> 'x hval \<Rightarrow> 'x heap \<Rightarrow> ('x heap \<times> string option) call) \<Rightarrow> string \<Rightarrow> 'x hval \<Rightarrow> 'x heap \<Rightarrow>
     ('x heap \<times> string option) call"
  and visit_entries ::
    "nat \<Rightarrow> (string \<Rightarrow> 'x hval \<Rightarrow> 'x heap \<Rightarrow> ('x heap \<times> string option) call) \<Rightarrow> string \<Rightarrow> nat \<Rightarrow> string list \<Rightarrow> 'x heap \<Rightarrow>
     ('x heap \<times> string option) call"
  and visit_items ::
    "nat \<Rightarrow> (string \<Rightarrow> 'x hval \<Rightarrow> 'x heap \<Rightarrow> ('x heap \<times> string option) call) \<Rightarrow> string \<Rightarrow> nat \<Rightarrow> nat list \<Rightarrow> 'x heap \<Rightarrow>
     ('x heap \<times> string option) call" where
  "recursiveVisit 0 app key v h = Runs_forever"
| "recursiveVisit (Suc fuel) app key v h =
     (case as_map h v of
        Some (r, m) \<Rightarrow> visit_entries fuel app key r (map fst m) h
      | None \<Rightarrow>
         (case as_list h v of
            Some (r, xs) \<Rightarrow> visit_items fuel app key r [0..<length xs] h
          | None \<Rightarrow> app key v h))"
| "visit_entries fuel app key r [] h = Returns (h, None)"
| "visit_entries fuel app key r (k # ks) h =
     (case as_map h (HRef r) of
        None \<Rightarrow> Returns (h, None)
      | Some (_, m) \<Rightarrow>
          and_then (recursiveVisit fuel app (if key \<noteq> [] then key @ ''.'' @ k else k) (entry m k) h) (\<lambda>(h', fe).
            if fe \<noteq> None then Returns (h', fe) else visit_entries fuel app key r ks h'))"
| "visit_items fuel app key r [] h = Returns (h, None)"
| "visit_items fuel app key r (i # is) h =
     (case as_list h (HRef r) of
        None \<Rightarrow> Returns (h, None)
      | Some (_, xs) \<Rightarrow>
          and_then (recursiveVisit fuel app (key @ ''['' @ digits i @ '']'') (xs ! i) h) (\<lambda>(h', fe).
            if fe \<noteq> None then Returns (h', fe) else visit_items fuel app key r is h'))"
  by pat_completeness auto
termination
  by (relation "measures
        [\<lambda>x. case x of Inl (n, _) \<Rightarrow> 2 * n | Inr (Inl (n, _)) \<Rightarrow> 2 * n + 1 | Inr (Inr (n, _)) \<Rightarrow> 2 * n + 1,
         \<lambda>x. case x of Inl _ \<Rightarrow> 0 | Inr (Inl (_, _, _, _, ks, _)) \<Rightarrow> length ks | Inr (Inr (_, _, _, _, is, _)) \<Rightarrow> length is]") auto

definition VisitEach ::
    "nat \<Rightarrow> nat \<Rightarrow> (string \<Rightarrow> 'x hval \<Rightarrow> 'x heap \<Rightarrow> ('x heap \<times> string option) call) \<Rightarrow> 'x heap \<Rightarrow> ('x heap \<times> string option) call" where
  "VisitEach fuel nested app h = recursiveVisit fuel app [] (HRef nested) h"

section \<open>Normal form of keys\<close>

lemma camel_no_upper: "c \<in> set (camel_loop prev s) \<Longrightarrow> \<not> is_upper c"
  by (induction prev s rule: camel_loop.induct) (auto simp: is_upper_def [of "CHR ''-''"] split: if_splits)

lemma camel_lower: "(\<And>c. c \<in> set s \<Longrightarrow> \<not> is_upper c) \<Longrightarrow> camel_loop prev s = s"
  by (induction prev s rule: camel_loop.induct) (auto simp: to_lower_id)

lemma CamelToSnakeCase_idem [simp]: "CamelToSnakeCase (CamelToSnakeCase s) = CamelToSnakeCase s"
  using camel_no_upper by (auto simp: CamelToSnakeCase_def intro: camel_lower)

lemma to_lower_char: "is_lower c \<or> \<not> is_lower (to_lower c) \<Longrightarrow> to_lower c = c"
  by (auto simp: to_lower_def is_lower_def Let_def)

lemma camel_dot: "CHR ''.'' \<notin> set s \<Longrightarrow> CHR ''.'' \<notin> set (camel_loop prev s)"
proof (induction prev s rule: camel_loop.induct)
  case (2 prev c s)
  have "to_lower c \<noteq> CHR ''.''"
  proof
    assume "to_lower c = CHR ''.''"
    then have "(of_char (to_lower c) :: nat) = 46" by simp
    then have "(of_char c :: nat) = 46" by (simp add: of_char_to_lower is_upper_def split: if_splits)
    then have "(of_char c :: nat) = of_char (CHR ''.'')" by simp
    then have "c = CHR ''.''" by (simp only: of_char_eq_iff)
    with 2 show False by simp
  qed
  with 2 show ?case by auto
qed simp

lemma NormalizeKey_idem: "NormalizeKey (NormalizeKey key) = NormalizeKey key"
proof -
  have "strings_Split (strings_Join (map CamelToSnakeCase (UnFlattenKey key)) ''.'') (CHR ''.'') = map CamelToSnakeCase (UnFlattenKey key)"
    by (rule strings_Split_Join) (auto simp: UnFlattenKey_def CamelToSnakeCase_def dest!: strings_Split_no_sep dest: camel_dot [where prev = None])
  then show ?thesis by (simp add: NormalizeKey_def UnFlattenKey_def comp_def)
qed

section \<open>Where a property is\<close>

datatype slot = MapSlot nat string | ListSlot nat nat

fun slot_of :: "'x heap \<Rightarrow> 'x hval \<Rightarrow> (string \<times> int) list \<Rightarrow> slot option" where
  "slot_of h v [] = None"
| "slot_of h v ((name, index) # rest) =
     (case as_map h v of
        None \<Rightarrow> None
      | Some (r, m) \<Rightarrow>
          if index < 0 then (if rest = [] then Some (MapSlot r name) else slot_of h (entry m name) rest)
          else (case as_list h (entry m name) of
                  None \<Rightarrow> None
                | Some (r', xs) \<Rightarrow>
                    if int (length xs) \<le> index then None
                    else if rest = [] then Some (ListSlot r' (nat index)) else slot_of h (xs ! nat index) rest))"

fun read_slot :: "'x heap \<Rightarrow> slot \<Rightarrow> 'x hval" where
  "read_slot h (MapSlot r k) = (case h ! r of NMap m \<Rightarrow> entry m k | NList xs \<Rightarrow> HNil)"
| "read_slot h (ListSlot r i) = (case h ! r of NMap m \<Rightarrow> HNil | NList xs \<Rightarrow> xs ! i)"

fun write_slot :: "'x heap \<Rightarrow> slot \<Rightarrow> 'x hval \<Rightarrow> 'x heap" where
  "write_slot h (MapSlot r k) v = put_map h r k v"
| "write_slot h (ListSlot r i) v = put_list h r i v"

fun slot_ok :: "'x heap \<Rightarrow> slot \<Rightarrow> bool" where
  "slot_ok h (MapSlot r k) = (r < length h \<and> (\<exists>m. h ! r = NMap m))"
| "slot_ok h (ListSlot r i) = (r < length h \<and> (\<exists>xs. h ! r = NList xs \<and> i < length xs))"

text \<open>The parts of a key; a key with brackets in the wrong order is not proper.\<close>

definition key_parts :: "string \<Rightarrow> (string \<times> int) call list" where
  "key_parts key = map split_index (UnFlattenKey (NormalizeKey key))"

fun returned :: "'a call \<Rightarrow> 'a" where
  "returned (Returns a) = a"
| "returned c = undefined"

definition proper_key :: "string \<Rightarrow> bool" where
  "proper_key key \<longleftrightarrow> list_all (\<lambda>c. c \<noteq> Panics) (key_parts key)"

definition find_slot :: "'x heap \<Rightarrow> nat \<Rightarrow> string \<Rightarrow> slot option" where
  "find_slot h nested key = slot_of h (HRef nested) (map returned (key_parts key))"

lemma as_map_SomeD: "as_map h v = Some (r, m) \<Longrightarrow> v = HRef r \<and> r < length h \<and> h ! r = NMap m"
  by (auto simp: as_map_def split: hval.splits if_splits node.splits)

lemma as_list_SomeD: "as_list h v = Some (r, xs) \<Longrightarrow> v = HRef r \<and> r < length h \<and> h ! r = NList xs"
  by (auto simp: as_list_def split: hval.splits if_splits node.splits)

lemma slot_of_ok: "slot_of h v parts = Some sl \<Longrightarrow> slot_ok h sl"
  by (induction h v parts rule: slot_of.induct)
    (auto simp: nat_less_iff split: option.splits if_splits dest!: as_map_SomeD as_list_SomeD)

lemma split_index_cases: "split_index k = Panics \<or> (\<exists>name index. split_index k = Returns (name, index))"
  by (auto simp: split_index_def split: option.split)

abbreviation capture :: "('x, 'x hval) override" where
  "capture \<equiv> \<lambda>_ v isLeaf _ (h, ret). (HNil, h, if isLeaf then v else ret)"

lemma visit_capture:
  assumes "list_all (\<lambda>k. split_index k \<noteq> Panics) ks" and "ks \<noteq> []"
  shows "map_call (\<lambda>w. case w of Walked st \<Rightarrow> Some (snd st) | Stopped e st \<Rightarrow> None) (visit_loop capture ks partial v (h, HNil)) =
    Returns (map_option (read_slot h) (slot_of h v (map (returned \<circ> split_index) ks)))"
  using assms
proof (induction ks arbitrary: partial v)
  case (Cons k ks)
  from Cons.prems split_index_cases [of k] obtain name index where k: "split_index k = Returns (name, index)" by auto
  show ?case
  proof (cases "as_map h v")
    case None
    with k show ?thesis by (simp add: visit_step_def)
  next
    case (Some rm)
    obtain r m where rm: "as_map h v = Some (r, m)" using Some by (cases rm) auto
    show ?thesis
    proof (cases "ks = []")
      case True
      with rm k as_map_SomeD [OF rm] show ?thesis
        by (auto simp: visit_step_def Let_def split: option.split dest!: as_list_SomeD)
    next
      case False
      with Cons rm k show ?thesis by (auto simp: visit_step_def Let_def split: option.split)
    qed
  qed
qed simp

lemma config_value_slot:
  assumes "proper_key key"
  shows "config_value h nested key = Returns (case find_slot h nested key of None \<Rightarrow> HNil | Some sl \<Rightarrow> read_slot h sl)"
proof -
  have "list_all (\<lambda>k. split_index k \<noteq> Panics) (UnFlattenKey (NormalizeKey key))" "UnFlattenKey (NormalizeKey key) \<noteq> []"
    using assms by (auto simp: proper_key_def key_parts_def UnFlattenKey_def list_all_iff)
  from visit_capture [OF this, of "[]" "HRef nested" h] show ?thesis
    by (cases "visit_loop capture (UnFlattenKey (NormalizeKey key)) [] (HRef nested) (h, HNil)")
      (auto simp: config_value_def visit_def find_slot_def key_parts_def split: walk.splits option.splits)
qed

lemma visit_set:
  assumes "list_all (\<lambda>k. split_index k \<noteq> Panics) ks" and "ks \<noteq> []"
  shows "map_call (\<lambda>w. case w of Walked st \<Rightarrow> (fst st, True) | Stopped e st \<Rightarrow> (fst st, False))
      (visit_loop (set_override val False) ks partial v (h, ())) =
    Returns (case slot_of h v (map (returned \<circ> split_index) ks) of
        None \<Rightarrow> (h, False) | Some sl \<Rightarrow> (if val = HNil then h else write_slot h sl val, True))"
  using assms
proof (induction ks arbitrary: partial v)
  case (Cons k ks)
  from Cons.prems split_index_cases [of k] obtain name index where k: "split_index k = Returns (name, index)" by auto
  show ?case
  proof (cases "as_map h v")
    case None
    with k show ?thesis by (simp add: visit_step_def)
  next
    case (Some rm)
    obtain r m where rm: "as_map h v = Some (r, m)" using Some by (cases rm) auto
    show ?thesis
    proof (cases "ks = []")
      case True
      with rm k as_map_SomeD [OF rm] show ?thesis
        by (auto simp: visit_step_def set_override_def Let_def split: option.split dest!: as_list_SomeD)
    next
      case False
      with Cons rm k show ?thesis by (auto simp: visit_step_def set_override_def Let_def split: option.split)
    qed
  qed
qed simp

lemma setValue_slot:
  assumes "proper_key key"
  shows "case find_slot h nested key of
      Some sl \<Rightarrow> setValue h nested key val False = Returns (if val = HNil then h else write_slot h sl val, None)
    | None \<Rightarrow> \<exists>e. setValue h nested key val False = Returns (h, Some e)"
proof -
  have "list_all (\<lambda>k. split_index k \<noteq> Panics) (UnFlattenKey (NormalizeKey key))" "UnFlattenKey (NormalizeKey key) \<noteq> []"
    using assms by (auto simp: proper_key_def key_parts_def UnFlattenKey_def list_all_iff)
  from visit_set [OF this, of val "[]" "HRef nested" h] show ?thesis
    by (cases "visit_loop (set_override val False) (UnFlattenKey (NormalizeKey key)) [] (HRef nested) (h, ())")
      (auto simp: setValue_def visit_def find_slot_def key_parts_def split: walk.splits option.splits)
qed

section \<open>Writing a property\<close>

text \<open>A scalar is anything but a map or a list.\<close>

fun scalar :: "'x hval \<Rightarrow> bool" where
  "scalar (HRef r) = False"
| "scalar _ = True"

lemma scalar_no_node: "scalar v \<Longrightarrow> as_map h v = None" "scalar v \<Longrightarrow> as_list h v = None"
  by (cases v; simp add: as_map_def as_list_def)+

lemma entry_update: "entry (AList.update k v m) name = (if name = k then v else entry m name)"
  by (simp add: entry_def update_conv)

lemma read_write_slot:
  assumes "slot_ok h sl" and "slot_ok h sl'"
  shows "read_slot (write_slot h sl v) sl' = (if sl' = sl then v else read_slot h sl')"
  using assms by (cases sl; cases sl') (auto simp: put_map_def put_list_def entry_update nth_list_update split: node.split)

lemma slot_ok_write: "slot_ok h sl \<Longrightarrow> slot_ok (write_slot h sl v) sl' \<longleftrightarrow> slot_ok h sl'"
  by (cases sl; cases sl') (auto simp: put_map_def put_list_def nth_list_update split: if_splits)

lemma slot_of_scalar: "scalar v \<Longrightarrow> slot_of h v parts = None"
  by (cases parts) (auto simp: scalar_no_node)

text \<open>Overwriting a scalar with a scalar changes neither which values are maps and lists nor where they lead.\<close>

lemma as_map_write:
  assumes "slot_ok h sl"
  shows "as_map (write_slot h sl w) v =
    map_option (\<lambda>(r, m). (r, case sl of MapSlot r' k \<Rightarrow> if r' = r then AList.update k w m else m | ListSlot r' i \<Rightarrow> m)) (as_map h v)"
  using assms by (cases sl; cases v) (auto simp: as_map_def put_map_def put_list_def nth_list_update split: node.splits)

lemma as_list_write:
  assumes "slot_ok h sl"
  shows "as_list (write_slot h sl w) v =
    map_option (\<lambda>(r, xs). (r, case sl of MapSlot r' k \<Rightarrow> xs | ListSlot r' i \<Rightarrow> if r' = r then xs[i := w] else xs)) (as_list h v)"
  using assms by (cases sl; cases v) (auto simp: as_list_def put_map_def put_list_def nth_list_update split: node.splits)

lemma slot_of_write:
  assumes "slot_ok h sl" and "scalar (read_slot h sl)" and "scalar w"
  shows "slot_of (write_slot h sl w) v parts = slot_of h v parts"
proof (induction parts arbitrary: v)
  case (Cons p rest)
  obtain name index where p: "p = (name, index)" by (cases p)
  let ?h' = "write_slot h sl w"
  show ?case
  proof (cases "as_map h v")
    case None
    with p as_map_write [OF assms(1), of w v] show ?thesis by simp
  next
    case (Some rm)
    then obtain r m where m: "as_map h v = Some (r, m)" by (cases rm) auto
    define e where "e = entry m name"
    obtain m' where m': "as_map ?h' v = Some (r, m')" and e': "entry m' name = (if sl = MapSlot r name then w else e)"
      using as_map_write [OF assms(1), of w v] m by (cases sl) (auto simp: entry_update e_def split: if_splits)
    show ?thesis
    proof (cases "sl = MapSlot r name")
      case True
      with assms(2) as_map_SomeD [OF m] have "scalar e" by (simp add: e_def)
      with True p m m' e' assms(3) show ?thesis by (simp add: slot_of_scalar scalar_no_node flip: e_def)
    next
      case False
      with e' have same: "entry m' name = e" by simp
      show ?thesis
      proof (cases "as_list h e")
        case None
        with as_list_write [OF assms(1), of w e] have "as_list ?h' e = None" by simp
        with None p m m' same Cons.IH show ?thesis by (simp flip: e_def)
      next
        case (Some rx)
        then obtain r' xs where xs: "as_list h e = Some (r', xs)" by (cases rx) auto
        obtain xs' where xs': "as_list ?h' e = Some (r', xs')" and len: "length xs' = length xs"
          and nth: "\<And>i. i < length xs \<Longrightarrow> xs' ! i = (if sl = ListSlot r' i then w else xs ! i)"
          using as_list_write [OF assms(1), of w e] xs by (cases sl) (auto simp: nth_list_update)
        have item: "slot_of ?h' (xs' ! i) rest = slot_of h (xs ! i) rest" if "i < length xs" for i
        proof (cases "sl = ListSlot r' i")
          case True
          with assms(2) as_list_SomeD [OF xs] that have "scalar (xs ! i)" by simp
          with True that nth assms(3) show ?thesis by (simp add: slot_of_scalar)
        next
          case False
          with nth [OF that] Cons.IH show ?thesis by simp
        qed
        have "slot_of ?h' v (p # rest) =
            (if index < 0 then if rest = [] then Some (MapSlot r name) else slot_of ?h' e rest
             else if int (length xs') \<le> index then None
             else if rest = [] then Some (ListSlot r' (nat index)) else slot_of ?h' (xs' ! nat index) rest)"
          using p m' same xs' by simp
        moreover have "slot_of h v (p # rest) =
            (if index < 0 then if rest = [] then Some (MapSlot r name) else slot_of h e rest
             else if int (length xs) \<le> index then None
             else if rest = [] then Some (ListSlot r' (nat index)) else slot_of h (xs ! nat index) rest)"
          using p m xs by (simp flip: e_def)
        ultimately show ?thesis using Cons.IH [of e] item [of "nat index"] len by (simp add: nat_less_iff)
      qed
    qed
  qed
qed simp



end
