(* ===== verification/Config_Resolve.thy ===== *)
theory Config_Resolve
  imports Config_Store
begin

text \<open>
  Resolving placeholders, \<^verbatim>\<open>resolve\<close> and \<^verbatim>\<open>resolveValue\<close> of \<^verbatim>\<open>pkg/appconfig/config.go\<close>: every property is visited,
  its placeholders are resolved recursively, and the result is written back, so that properties serve as memory of
  the values that are already known. Where the code iterates over a Go map, \<open>ord\<close> gives the order, depending on
  the chain of keys that are being resolved. \<open>fuel\<close> bounds the depth of the recursion.
\<close>

section \<open>Values inside and outside the heap\<close>

text \<open>Allocation of a value, as the parser of a default does it.\<close>

fun alloc :: "'x cval \<Rightarrow> 'x heap \<Rightarrow> 'x heap \<times> 'x hval"
  and alloc_entries :: "(string \<times> 'x cval) list \<Rightarrow> 'x heap \<Rightarrow> 'x heap \<times> (string \<times> 'x hval) list"
  and alloc_items :: "'x cval list \<Rightarrow> 'x heap \<Rightarrow> 'x heap \<times> 'x hval list" where
  "alloc CNil h = (h, HNil)"
| "alloc (CStr s) h = (h, HStr s)"
| "alloc (CStrs xs) h = (h, HStrs xs)"
| "alloc (CBool b) h = (h, HBool b)"
| "alloc (CNum x) h = (h, HNum x)"
| "alloc (CMap m) h = (case alloc_entries m h of (h, m') \<Rightarrow> (h @ [NMap m'], HRef (length h)))"
| "alloc (CList xs) h = (case alloc_items xs h of (h, xs') \<Rightarrow> (h @ [NList xs'], HRef (length h)))"
| "alloc_entries [] h = (h, [])"
| "alloc_entries ((k, v) # m) h = (case alloc v h of (h, v') \<Rightarrow> case alloc_entries m h of (h, m') \<Rightarrow> (h, (k, v') # m'))"
| "alloc_items [] h = (h, [])"
| "alloc_items (v # xs) h = (case alloc v h of (h, v') \<Rightarrow> case alloc_items xs h of (h, xs') \<Rightarrow> (h, v' # xs'))"

fun call_list :: "'a call list \<Rightarrow> 'a list call" where
  "call_list [] = Returns []"
| "call_list (c # cs) = and_then c (\<lambda>a. and_then (call_list cs) (\<lambda>as. Returns (a # as)))"

text \<open>The tree that a reference leads to; a path through more nodes than there are goes round in a circle.\<close>

fun tree :: "nat \<Rightarrow> 'x heap \<Rightarrow> 'x hval \<Rightarrow> 'x cval call" where
  "tree n h HNil = Returns CNil"
| "tree n h (HStr s) = Returns (CStr s)"
| "tree n h (HStrs xs) = Returns (CStrs xs)"
| "tree n h (HBool b) = Returns (CBool b)"
| "tree n h (HNum x) = Returns (CNum x)"
| "tree 0 h (HRef r) = Runs_forever"
| "tree (Suc n) h (HRef r) =
     (if r < length h
      then (case h ! r of
              NMap m \<Rightarrow> map_call CMap (call_list (map (\<lambda>(k, v). map_call (Pair k) (tree n h v)) m))
            | NList xs \<Rightarrow> map_call CList (call_list (map (tree n h) xs)))
      else Returns CNil)"

definition tree_of :: "'x heap \<Rightarrow> 'x hval \<Rightarrow> 'x cval call" where
  "tree_of h v = tree (Suc (length h)) h v"

section \<open>Resolving\<close>

definition circular_error :: "string list \<Rightarrow> string \<Rightarrow> string" where
  "circular_error visited key =
     ''placeholder ${'' @ key @ ''} can't be resolved due to circular reference: ''
     @ strings_Join (dropWhile (\<lambda>k. k \<noteq> key) visited) ''->'' @ ''->'' @ key"

type_synonym 'x resolved_kvs = "(string \<times> 'x placeholder \<times> 'x hval) list"

definition replace_resolved ::
    "'x go_values \<Rightarrow> (string list \<Rightarrow> string list) \<Rightarrow> 'x heap \<Rightarrow> 'x resolved_kvs \<Rightarrow> string \<Rightarrow> string call" where
  "replace_resolved lib ord h kvs str =
     map_call (\<lambda>kvs. replace_placeholders lib ord kvs str)
       (call_list (map (\<lambda>(key, ph, v). map_call (\<lambda>c. (key, ph, c)) (tree_of h v)) kvs))"

function resolveValue ::
    "'x go_values \<Rightarrow> (string list \<Rightarrow> string list \<Rightarrow> string list) \<Rightarrow> nat \<Rightarrow> nat \<Rightarrow> string \<Rightarrow> 'x hval \<Rightarrow> string list \<Rightarrow> 'x heap \<Rightarrow>
     ('x heap \<times> (string + 'x hval)) call"
  and resolve_each ::
    "'x go_values \<Rightarrow> (string list \<Rightarrow> string list \<Rightarrow> string list) \<Rightarrow> nat \<Rightarrow> nat \<Rightarrow> 'x placeholder list \<Rightarrow> string list \<Rightarrow> 'x heap \<Rightarrow>
     'x resolved_kvs \<Rightarrow> ('x heap \<times> (string + 'x resolved_kvs)) call" where
  "resolveValue lib ord 0 source key val visited h = Runs_forever"
| "resolveValue lib ord (Suc fuel) source key val visited h =
     (case val of
        HStr s \<Rightarrow>
          (case parsePlaceHolder lib s of
             Inl e \<Rightarrow> Returns (h, Inl e)
           | Inr (placeholders, isEmbedded) \<Rightarrow>
               if placeholders = [] then Returns (h, Inr val)
               else
                 (case find (\<lambda>ph. ph_key ph \<in> set (visited @ [key])) placeholders of
                    Some ph \<Rightarrow> Returns (h, Inl (circular_error (visited @ [key]) (ph_key ph)))
                  | None \<Rightarrow>
                     and_then (resolve_each lib ord fuel source placeholders (visited @ [key]) h []) (\<lambda>(h, r).
                       case r of
                         Inl e \<Rightarrow> Returns (h, Inl e)
                       | Inr kvs \<Rightarrow>
                           and_then
                             (if isEmbedded then map_call HStr (replace_resolved lib (ord (visited @ [key])) h kvs s)
                              else Returns (case map_of kvs (ph_key (hd placeholders)) of None \<Rightarrow> HNil | Some (_, v) \<Rightarrow> v)) (\<lambda>resolvedValue.
                           and_then (setValue h source key resolvedValue False) (\<lambda>(h, e).
                             case e of Some err \<Rightarrow> Returns (h, Inl err) | None \<Rightarrow> Returns (h, Inr resolvedValue))))))
      | _ \<Rightarrow> Returns (h, Inr val))"
| "resolve_each lib ord fuel source [] visited h kvs = Returns (h, Inr kvs)"
| "resolve_each lib ord fuel source (ph # phs) visited h kvs =
     and_then (config_value h source (ph_key ph)) (\<lambda>v.
     and_then (resolveValue lib ord fuel source (ph_key ph) v visited h) (\<lambda>(h, r).
       case r of
         Inr resolved \<Rightarrow>
           if resolved = HNil
           then (case ph_default ph of
                   None \<Rightarrow> resolve_each lib ord fuel source phs visited h kvs
                 | Some d \<Rightarrow>
                     (case alloc d h of (h, v) \<Rightarrow> resolve_each lib ord fuel source phs visited h (AList.update (ph_key ph) (ph, v) kvs)))
           else resolve_each lib ord fuel source phs visited h (AList.update (ph_key ph) (ph, resolved) kvs)
       | Inl e \<Rightarrow>
           (case ph_default ph of
              None \<Rightarrow> Returns (h, Inl e)
            | Some d \<Rightarrow>
                (case alloc d h of (h, v) \<Rightarrow> resolve_each lib ord fuel source phs visited h (AList.update (ph_key ph) (ph, v) kvs)))))"
  by pat_completeness auto
termination
  by (relation "measures
        [\<lambda>x. case x of Inl (_, _, n, _) \<Rightarrow> 2 * n | Inr (_, _, n, _) \<Rightarrow> 2 * n + 1,
         \<lambda>x. case x of Inl _ \<Rightarrow> 0 | Inr (_, _, _, _, phs, _) \<Rightarrow> length phs]") auto

definition resolve ::
    "'x go_values \<Rightarrow> (string list \<Rightarrow> string list \<Rightarrow> string list) \<Rightarrow> nat \<Rightarrow> nat \<Rightarrow> nat \<Rightarrow> 'x heap \<Rightarrow> ('x heap \<times> string option) call" where
  "resolve lib ord depth fuel nested h =
     VisitEach depth nested (\<lambda>key v h.
       map_call (\<lambda>(h, r). (h, case r of Inl e \<Rightarrow> Some e | Inr _ \<Rightarrow> None)) (resolveValue lib ord fuel nested key v [] h)) h"

section \<open>What placeholders mean\<close>

text \<open>The value of a scalar outside the heap, and of a default inside.\<close>

fun cval_of :: "'x hval \<Rightarrow> 'x cval" where
  "cval_of (HStr s) = CStr s"
| "cval_of (HStrs xs) = CStrs xs"
| "cval_of (HBool b) = CBool b"
| "cval_of (HNum x) = CNum x"
| "cval_of _ = CNil"

fun hval_of :: "'x cval \<Rightarrow> 'x hval" where
  "hval_of (CStr s) = HStr s"
| "hval_of (CStrs xs) = HStrs xs"
| "hval_of (CBool b) = HBool b"
| "hval_of (CNum x) = HNum x"
| "hval_of _ = HNil"

text \<open>A placeholder means the value of its key, or its default where the key has none.\<close>

definition hole_value :: "'x go_values \<Rightarrow> (string \<Rightarrow> 'x hval) \<Rightarrow> string \<Rightarrow> string option \<Rightarrow> 'x hval" where
  "hole_value lib get key d =
     (if get key \<noteq> HNil then get key else case d of None \<Rightarrow> HNil | Some d \<Rightarrow> hval_of (ParseString lib d))"

fun seg_text :: "'x go_values \<Rightarrow> (string \<Rightarrow> 'x hval) \<Rightarrow> seg \<Rightarrow> string" where
  "seg_text lib get (Text t) = t"
| "seg_text lib get (Hole key d) = Sprint lib (cval_of (hole_value lib get key d))"

definition lone_hole :: "seg list \<Rightarrow> (string \<times> string option) option" where
  "lone_hole segs = (case filter (\<lambda>s. show_seg s \<noteq> []) segs of [Hole key d] \<Rightarrow> Some (key, d) | _ \<Rightarrow> None)"

definition expand :: "'x go_values \<Rightarrow> (string \<Rightarrow> 'x hval) \<Rightarrow> seg list \<Rightarrow> 'x hval" where
  "expand lib get segs =
     (case lone_hole segs of
        Some (key, d) \<Rightarrow> hole_value lib get key d
      | None \<Rightarrow> HStr (concat (map (seg_text lib get) segs)))"

definition meaning :: "'x go_values \<Rightarrow> (string \<Rightarrow> seg list) \<Rightarrow> (string \<Rightarrow> 'x hval) \<Rightarrow> 'x hval \<Rightarrow> 'x hval" where
  "meaning lib text get v = (case v of HStr s \<Rightarrow> expand lib get (text s) | _ \<Rightarrow> v)"

lemma lone_hole_in: "lone_hole segs = Some (key, d) \<Longrightarrow> Hole key d \<in> set segs"
proof -
  assume "lone_hole segs = Some (key, d)"
  then have "filter (\<lambda>s. show_seg s \<noteq> []) segs = [Hole key d]"
    by (auto simp: lone_hole_def split: list.splits seg.splits)
  then have "set (filter (\<lambda>s. show_seg s \<noteq> []) segs) = {Hole key d}" by (simp only: list.set)
  then show ?thesis by auto
qed

lemma expand_cong:
  assumes "\<And>key d. Hole key d \<in> set segs \<Longrightarrow> get key = get' key"
  shows "expand lib get segs = expand lib get' segs"
proof -
  have "seg_text lib get s = seg_text lib get' s" if "s \<in> set segs" for s
    by (cases s) (use that assms in \<open>auto simp: hole_value_def\<close>)
  then have "map (seg_text lib get) segs = map (seg_text lib get') segs" by simp
  moreover have "hole_value lib get key d = hole_value lib get' key d" if "lone_hole segs = Some (key, d)" for key d
    using assms [OF lone_hole_in [OF that]] by (simp add: hole_value_def)
  ultimately show ?thesis by (auto simp: expand_def simp del: map_eq_conv split: option.split)
qed

section \<open>Properties that can be resolved\<close>

definition slots :: "'x heap \<Rightarrow> slot list" where
  "slots h = concat (map (\<lambda>r. case h ! r of
       NMap m \<Rightarrow> map (\<lambda>(k, v). MapSlot r k) m
     | NList xs \<Rightarrow> map (ListSlot r) [0..<length xs]) [0..<length h])"

text \<open>
  What a placeholder in the property at \<open>sl\<close> needs: a key that does not panic, a default that is a scalar, and a value: that of a property of a smaller
  rank which is a scalar, or else the default.
\<close>

fun hole_ok :: "'x go_values \<Rightarrow> (slot \<Rightarrow> nat) \<Rightarrow> 'x heap \<Rightarrow> nat \<Rightarrow> slot \<Rightarrow> seg \<Rightarrow> bool" where
  "hole_ok lib rank h nested sl (Text t) = True"
| "hole_ok lib rank h nested sl (Hole key d) =
     (proper_key key
      \<and> (case d of None \<Rightarrow> True | Some d \<Rightarrow> hval_of (ParseString lib d) \<noteq> HNil)
      \<and> (case find_slot h nested key of
           None \<Rightarrow> d \<noteq> None
         | Some sl' \<Rightarrow> rank sl' < rank sl \<and> scalar (read_slot h sl') \<and> (read_slot h sl' = HNil \<longrightarrow> d \<noteq> None)))"

definition same_defaults :: "seg list \<Rightarrow> bool" where
  "same_defaults segs = list_all (\<lambda>s. case s of Text t \<Rightarrow> True | Hole key d \<Rightarrow>
     list_all (\<lambda>s'. case s' of Text t \<Rightarrow> True | Hole key' d' \<Rightarrow> key' = key \<longrightarrow> d' = d) segs) segs"

definition value_ok ::
    "'x go_values \<Rightarrow> (string \<Rightarrow> seg list) \<Rightarrow> (slot \<Rightarrow> nat) \<Rightarrow> 'x heap \<Rightarrow> nat \<Rightarrow> slot \<Rightarrow> bool" where
  "value_ok lib text rank h nested sl =
     (case read_slot h sl of
        HStr s \<Rightarrow> show_segs (text s) = s \<and> list_all seg_ok (text s) \<and> list_all (default_prints lib) (text s)
          \<and> same_defaults (text s) \<and> list_all (hole_ok lib rank h nested sl) (text s)
      | HRef r \<Rightarrow> True
      | v \<Rightarrow> CHR ''$'' \<notin> set (Sprint lib (cval_of v)))"

fun leaves :: "nat \<Rightarrow> 'x heap \<Rightarrow> string \<Rightarrow> slot \<Rightarrow> 'x hval \<Rightarrow> (string \<times> slot) list option" where
  "leaves 0 h key sl v = None"
| "leaves (Suc n) h key sl v =
     (case as_map h v of
        Some (r, m) \<Rightarrow>
          map_option concat (those (map (\<lambda>(k, v). leaves n h (if key \<noteq> [] then key @ ''.'' @ k else k) (MapSlot r k) (entry m k)) m))
      | None \<Rightarrow>
         (case as_list h v of
            Some (r, xs) \<Rightarrow>
              map_option concat (those (map (\<lambda>i. leaves n h (key @ ''['' @ digits i @ '']'') (ListSlot r i) (xs ! i)) [0..<length xs]))
          | None \<Rightarrow> Some [(key, sl)]))"

text \<open>The visit reaches every property, under a key that leads to it.\<close>

definition well_keyed :: "nat \<Rightarrow> 'x heap \<Rightarrow> nat \<Rightarrow> bool" where
  "well_keyed depth h nested =
     (case leaves depth h [] (MapSlot nested []) (HRef nested) of
        None \<Rightarrow> False
      | Some ls \<Rightarrow> list_all (\<lambda>(key, sl). proper_key key \<and> find_slot h nested key = Some sl) ls)"

definition resolvable ::
    "'x go_values \<Rightarrow> (string \<Rightarrow> seg list) \<Rightarrow> (slot \<Rightarrow> nat) \<Rightarrow> 'x heap \<Rightarrow> nat \<Rightarrow> bool" where
  "resolvable lib text rank h nested =
     (list_all (value_ok lib text rank h nested) (slots h) \<and> CHR ''$'' \<notin> set (Sprint lib CNil))"

lemma slot_listed:
  assumes "slot_ok h sl" and "read_slot h sl \<noteq> HNil"
  shows "sl \<in> set (slots h)"
proof (cases sl)
  case (MapSlot r k)
  with assms obtain m where m: "r < length h" "h ! r = NMap m" "entry m k \<noteq> HNil" by auto
  then obtain v where "(k, v) \<in> set m" by (auto simp: entry_def split: option.splits dest: map_of_SomeD)
  with m MapSlot show ?thesis by (force simp: slots_def)
next
  case (ListSlot r i)
  with assms show ?thesis by (force simp: slots_def)
qed

lemma resolvableD:
  assumes "resolvable lib text rank h nested" and "slot_ok h sl"
  shows "value_ok lib text rank h nested sl"
proof (cases "read_slot h sl = HNil")
  case True
  with assms(1) show ?thesis by (simp add: resolvable_def value_ok_def)
next
  case False
  with slot_listed [OF assms(2)] assms(1) show ?thesis by (auto simp: resolvable_def list_all_iff)
qed

section \<open>The resolved values\<close>

text \<open>The value of each property with its placeholders replaced, by recursion over the rank.\<close>

fun solution :: "'x go_values \<Rightarrow> (string \<Rightarrow> seg list) \<Rightarrow> 'x heap \<Rightarrow> nat \<Rightarrow> nat \<Rightarrow> slot \<Rightarrow> 'x hval" where
  "solution lib text h nested 0 sl = meaning lib text (\<lambda>key. HNil) (read_slot h sl)"
| "solution lib text h nested (Suc n) sl =
     meaning lib text (\<lambda>key. case find_slot h nested key of None \<Rightarrow> HNil | Some sl' \<Rightarrow> solution lib text h nested n sl') (read_slot h sl)"

definition final :: "'x go_values \<Rightarrow> (string \<Rightarrow> seg list) \<Rightarrow> (slot \<Rightarrow> nat) \<Rightarrow> 'x heap \<Rightarrow> nat \<Rightarrow> slot \<Rightarrow> 'x hval" where
  "final lib text rank h nested sl = solution lib text h nested (Suc (rank sl)) sl"

definition final_key :: "'x go_values \<Rightarrow> (string \<Rightarrow> seg list) \<Rightarrow> (slot \<Rightarrow> nat) \<Rightarrow> 'x heap \<Rightarrow> nat \<Rightarrow> string \<Rightarrow> 'x hval" where
  "final_key lib text rank h nested key =
     (case find_slot h nested key of None \<Rightarrow> HNil | Some sl \<Rightarrow> final lib text rank h nested sl)"

lemma find_slot_ok: "find_slot h nested key = Some sl \<Longrightarrow> slot_ok h sl"
  using slot_of_ok by (auto simp: find_slot_def)

lemma hole_smaller:
  assumes "resolvable lib text rank h nested" and "slot_ok h sl" and "read_slot h sl = HStr s" and "Hole key d \<in> set (text s)"
    and "find_slot h nested key = Some sl'"
  shows "rank sl' < rank sl" and "scalar (read_slot h sl')" and "read_slot h sl' = HNil \<Longrightarrow> d \<noteq> None"
  using resolvableD [OF assms(1,2)] assms(3,4,5) by (auto simp: value_ok_def list_all_iff)

lemma solution_stable:
  assumes "resolvable lib text rank h nested"
  shows "slot_ok h sl \<Longrightarrow> rank sl < n \<Longrightarrow> rank sl < n' \<Longrightarrow> solution lib text h nested n sl = solution lib text h nested n' sl"
proof (induction "rank sl" arbitrary: sl n n' rule: less_induct)
  case less
  obtain k k' where k: "n = Suc k" "n' = Suc k'" using less.prems by (cases n; cases n') auto
  let ?get = "\<lambda>k key. case find_slot h nested key of None \<Rightarrow> HNil | Some sl' \<Rightarrow> solution lib text h nested k sl'"
  have "expand lib (?get k) (text s) = expand lib (?get k') (text s)" if s: "read_slot h sl = HStr s" for s
  proof (rule expand_cong)
    fix key d
    assume hole: "Hole key d \<in> set (text s)"
    show "?get k key = ?get k' key"
    proof (cases "find_slot h nested key")
      case (Some sl')
      from hole_smaller(1) [OF assms less.prems(1) s hole Some] have "rank sl' < rank sl" .
      with less.hyps [OF this find_slot_ok [OF Some], of k k'] less.prems(2,3) k Some show ?thesis by simp
    qed simp
  qed
  with k show ?case by (auto simp: meaning_def split: hval.split)
qed

lemma final_eq:
  assumes "resolvable lib text rank h nested" and "slot_ok h sl"
  shows "final lib text rank h nested sl = meaning lib text (final_key lib text rank h nested) (read_slot h sl)"
proof (cases "\<exists>s. read_slot h sl = HStr s")
  case True
  then obtain s where s: "read_slot h sl = HStr s" by blast
  have "expand lib (\<lambda>key. case find_slot h nested key of None \<Rightarrow> HNil | Some sl' \<Rightarrow> solution lib text h nested (rank sl) sl') (text s) =
      expand lib (final_key lib text rank h nested) (text s)"
  proof (rule expand_cong)
    fix key d
    assume hole: "Hole key d \<in> set (text s)"
    show "(case find_slot h nested key of None \<Rightarrow> HNil | Some sl' \<Rightarrow> solution lib text h nested (rank sl) sl') =
        final_key lib text rank h nested key"
    proof (cases "find_slot h nested key")
      case (Some sl')
      from hole_smaller(1) [OF assms s hole Some] solution_stable [OF assms(1) find_slot_ok [OF Some], of "rank sl" "Suc (rank sl')"] Some
      show ?thesis by (simp add: final_key_def final_def del: solution.simps)
    qed (simp add: final_key_def)
  qed
  with s show ?thesis by (simp add: final_def meaning_def)
next
  case False
  then show ?thesis by (cases "read_slot h sl") (auto simp: final_def meaning_def)
qed

text \<open>A resolved scalar is a scalar, not nil, and prints without a dollar sign.\<close>

definition plain :: "'x go_values \<Rightarrow> 'x hval \<Rightarrow> bool" where
  "plain lib v \<longleftrightarrow> scalar v \<and> CHR ''$'' \<notin> set (Sprint lib (cval_of v))"

lemma default_plain:
  assumes "seg_ok (Hole key (Some d))" and "default_prints lib (Hole key (Some d))" and "hval_of (ParseString lib d) \<noteq> HNil"
  shows "plain lib (hval_of (ParseString lib d))"
proof -
  have "scalar (hval_of (ParseString lib d))" by (cases "ParseString lib d") auto
  moreover have "cval_of (hval_of (ParseString lib d)) = ParseString lib d" using assms(3) by (cases "ParseString lib d") auto
  ultimately show ?thesis using assms(1,2) by (auto simp: plain_def)
qed

lemma hole_plain:
  assumes "seg_ok (Hole key d)" and "default_prints lib (Hole key d)" and "\<And>d'. d = Some d' \<Longrightarrow> hval_of (ParseString lib d') \<noteq> HNil"
    and "plain lib (get key)" and "get key = HNil \<Longrightarrow> d \<noteq> None"
  shows "plain lib (hole_value lib get key d) \<and> hole_value lib get key d \<noteq> HNil"
proof (cases "get key = HNil")
  case True
  with assms(5) obtain d' where d: "d = Some d'" by auto
  with True default_plain [of key d' lib] assms(1,2,3) show ?thesis by (simp add: hole_value_def)
next
  case False
  with assms(4) show ?thesis by (simp add: hole_value_def)
qed

lemma expand_plain:
  assumes "list_all seg_ok segs"
    and "\<And>key d. Hole key d \<in> set segs \<Longrightarrow> plain lib (hole_value lib get key d) \<and> hole_value lib get key d \<noteq> HNil"
  shows "plain lib (expand lib get segs) \<and> expand lib get segs \<noteq> HNil"
proof (cases "lone_hole segs")
  case None
  have "CHR ''$'' \<notin> set (seg_text lib get s)" if "s \<in> set segs" for s
    by (cases s) (use that assms in \<open>auto simp: list_all_iff plain_def\<close>)
  with None show ?thesis by (auto simp: expand_def plain_def Sprint_def)
next
  case (Some kd)
  obtain key d where "lone_hole segs = Some (key, d)" using Some by (cases kd) auto
  with assms(2) [OF lone_hole_in [OF this]] show ?thesis by (simp add: expand_def)
qed

lemma final_plain:
  assumes "resolvable lib text rank h nested"
  shows "slot_ok h sl \<Longrightarrow> scalar (read_slot h sl) \<Longrightarrow>
    plain lib (final lib text rank h nested sl) \<and> (final lib text rank h nested sl = HNil \<longleftrightarrow> read_slot h sl = HNil)"
proof (induction "rank sl" arbitrary: sl rule: less_induct)
  case less
  note ok = resolvableD [OF assms less.prems(1)]
  show ?case
  proof (cases "\<exists>s. read_slot h sl = HStr s")
    case True
    then obtain s where s: "read_slot h sl = HStr s" by blast
    have "plain lib (expand lib (final_key lib text rank h nested) (text s)) \<and> expand lib (final_key lib text rank h nested) (text s) \<noteq> HNil"
    proof (rule expand_plain)
      fix key d
      assume hole: "Hole key d \<in> set (text s)"
      have h: "seg_ok (Hole key d)" "default_prints lib (Hole key d)" "hole_ok lib rank h nested sl (Hole key d)"
        using ok s hole by (auto simp: value_ok_def list_all_iff simp del: seg_ok.simps default_prints.simps hole_ok.simps)
      have nil: "plain lib HNil" using assms by (simp add: plain_def resolvable_def)
      show "plain lib (hole_value lib (final_key lib text rank h nested) key d) \<and> hole_value lib (final_key lib text rank h nested) key d \<noteq> HNil"
      proof (rule hole_plain [OF h(1,2)])
        show "plain lib (final_key lib text rank h nested key)"
        proof (cases "find_slot h nested key")
          case (Some sl')
          from hole_smaller(1,2) [OF assms less.prems(1) s hole Some] less.hyps find_slot_ok [OF Some] Some
          show ?thesis by (simp add: final_key_def)
        qed (simp add: final_key_def nil)
        assume "final_key lib text rank h nested key = HNil"
        then show "d \<noteq> None"
        proof (cases "find_slot h nested key")
          case (Some sl')
          from hole_smaller [OF assms less.prems(1) s hole Some] less.hyps find_slot_ok [OF Some] Some \<open>final_key _ _ _ _ _ _ = _\<close>
          show ?thesis by (simp add: final_key_def)
        qed (use h(3) in simp)
      qed (use h(3) in \<open>auto split: option.splits\<close>)
    qed (use ok s in \<open>simp add: value_ok_def\<close>)
    with final_eq [OF assms less.prems(1)] s show ?thesis by (simp add: meaning_def)
  next
    case False
    with final_eq [OF assms less.prems(1)] less.prems ok show ?thesis
      by (cases "read_slot h sl") (auto simp: meaning_def plain_def value_ok_def)
  qed
qed

section \<open>Resolution in progress\<close>

fun shape :: "'x node \<Rightarrow> string list + nat" where
  "shape (NMap m) = Inl (map fst m)"
| "shape (NList xs) = Inr (length xs)"

text \<open>Some properties are resolved, all others are as they were; \<open>h\<close> is the heap at the start.\<close>

definition resolving ::
    "'x go_values \<Rightarrow> (string \<Rightarrow> seg list) \<Rightarrow> (slot \<Rightarrow> nat) \<Rightarrow> 'x heap \<Rightarrow> nat \<Rightarrow> 'x heap \<Rightarrow> bool" where
  "resolving lib text rank h nested h' \<longleftrightarrow>
     map shape h' = map shape h \<and> (\<forall>v parts. slot_of h' v parts = slot_of h v parts)
     \<and> (\<forall>sl. slot_ok h sl \<longrightarrow> read_slot h' sl = read_slot h sl \<or> read_slot h' sl = final lib text rank h nested sl)"

definition resolved ::
    "'x go_values \<Rightarrow> (string \<Rightarrow> seg list) \<Rightarrow> (slot \<Rightarrow> nat) \<Rightarrow> 'x heap \<Rightarrow> nat \<Rightarrow> 'x heap \<Rightarrow> slot set" where
  "resolved lib text rank h nested h' = {sl. slot_ok h sl \<and> read_slot h' sl = final lib text rank h nested sl}"

lemma resolving_slot_ok:
  assumes "map shape h' = map shape h"
  shows "slot_ok h' sl \<longleftrightarrow> slot_ok h sl"
proof -
  have l: "length h' = length h" using assms by (metis length_map)
  have "shape (h' ! r) = shape (h ! r)" if "r < length h" for r
    using assms that l by (metis nth_map)
  then have "(\<exists>m. h' ! r = NMap m) \<longleftrightarrow> (\<exists>m. h ! r = NMap m)"
    "(\<exists>xs. h' ! r = NList xs \<and> i < length xs) \<longleftrightarrow> (\<exists>xs. h ! r = NList xs \<and> i < length xs)" if "r < length h" for r i
    using that by (cases "h' ! r"; cases "h ! r"; force)+
  then show ?thesis using l by (cases sl) (simp_all cong: conj_cong)
qed

lemma shape_write:
  assumes "slot_ok h sl" and "read_slot h sl \<noteq> HNil"
  shows "map shape (write_slot h sl v) = map shape h"
proof (cases sl)
  case (MapSlot r k)
  with assms obtain m where m: "r < length h" "h ! r = NMap m" "entry m k \<noteq> HNil" by auto
  then have "k \<in> fst ` set m" by (auto simp: entry_def split: option.splits dest: map_of_SomeD intro: rev_image_eqI)
  then have "map fst (AList.update k v m) = map fst m" by (simp add: update_keys)
  with m MapSlot show ?thesis by (auto simp: put_map_def map_update intro!: list_update_same_conv [THEN iffD2])
next
  case (ListSlot r i)
  with assms obtain xs where "r < length h" "h ! r = NList xs" by auto
  with ListSlot show ?thesis by (auto simp: put_list_def map_update intro!: list_update_same_conv [THEN iffD2])
qed

lemma final_nonstring:
  assumes "resolvable lib text rank h nested" and "slot_ok h sl" and "\<And>s. read_slot h sl \<noteq> HStr s"
  shows "final lib text rank h nested sl = read_slot h sl"
  using final_eq [OF assms(1,2)] assms(3) by (cases "read_slot h sl") (auto simp: meaning_def)

lemma resolving_write:
  assumes "resolvable lib text rank h nested" and "resolving lib text rank h nested h'" and "slot_ok h sl" and "read_slot h sl = HStr s"
  defines "h'' \<equiv> write_slot h' sl (final lib text rank h nested sl)"
  shows "resolving lib text rank h nested h''"
    and "resolved lib text rank h nested h'' = insert sl (resolved lib text rank h nested h')"
proof -
  have shape: "map shape h' = map shape h" using assms(2) by (simp add: resolving_def)
  note ok = resolving_slot_ok [OF shape]
  have f: "plain lib (final lib text rank h nested sl)" "final lib text rank h nested sl \<noteq> HNil"
    using final_plain [OF assms(1,3)] assms(4) by auto
  have now: "scalar (read_slot h' sl)" "read_slot h' sl \<noteq> HNil"
    using assms(2,3,4) f unfolding resolving_def plain_def by (metis scalar.simps(3) hval.distinct(1))+
  have r: "read_slot h'' sl' = (if sl' = sl then final lib text rank h nested sl else read_slot h' sl')" if "slot_ok h sl'" for sl'
    using read_write_slot [of h' sl sl'] ok that assms(3) by (simp add: h''_def)
  have "slot_of h'' v parts = slot_of h v parts" for v parts
    using slot_of_write [of h' sl "final lib text rank h nested sl" v parts] ok assms(2,3) now f
    by (simp add: h''_def resolving_def plain_def)
  moreover have "map shape h'' = map shape h" using shape_write [of h' sl] ok assms(3) now shape by (simp add: h''_def)
  ultimately show "resolving lib text rank h nested h''"
    using r assms(2) by (simp add: resolving_def)
  show "resolved lib text rank h nested h'' = insert sl (resolved lib text rank h nested h')"
    using r assms(3) by (auto simp: resolved_def)
qed

section \<open>Replacing the placeholders of a value\<close>

fun add_hole :: "'x go_values \<Rightarrow> (string \<Rightarrow> 'x hval) \<Rightarrow> seg \<Rightarrow> 'x resolved_kvs \<Rightarrow> 'x resolved_kvs" where
  "add_hole lib get (Text t) kvs = kvs"
| "add_hole lib get (Hole key d) kvs = AList.update key (hole_placeholder lib (Hole key d), hole_value lib get key d) kvs"

lemma distinct_add_holes: "distinct (map fst kvs) \<Longrightarrow> distinct (map fst (fold (add_hole lib get) hs kvs))"
proof (induction hs arbitrary: kvs)
  case (Cons x hs)
  then show ?case by (cases x) (auto simp: distinct_update)
qed simp

lemma map_of_add_holes:
  "map_of (fold (add_hole lib get) hs kvs) key =
     (case find (\<lambda>s. case s of Text t \<Rightarrow> False | Hole k d \<Rightarrow> k = key) (rev hs) of
        Some (Hole k d) \<Rightarrow> Some (hole_placeholder lib (Hole k d), hole_value lib get k d)
      | _ \<Rightarrow> map_of kvs key)"
proof (induction hs rule: rev_induct)
  case (snoc x hs)
  then show ?case by (cases x) (auto simp: update_conv)
qed simp

lemma same_defaultsD: "same_defaults segs \<Longrightarrow> Hole key d \<in> set segs \<Longrightarrow> Hole key d' \<in> set segs \<Longrightarrow> d = d'"
  by (fastforce simp: same_defaults_def list_all_iff)

lemma map_of_holes:
  assumes "same_defaults segs"
  shows "Hole key d \<in> set segs \<Longrightarrow>
      map_of (fold (add_hole lib get) (filter is_hole segs) []) key = Some (hole_placeholder lib (Hole key d), hole_value lib get key d)"
    and "map_of (fold (add_hole lib get) (filter is_hole segs) []) key = Some (ph, v) \<Longrightarrow>
      \<exists>d. Hole key d \<in> set segs \<and> ph = hole_placeholder lib (Hole key d) \<and> v = hole_value lib get key d"
proof -
  let ?P = "\<lambda>s. case s of Text t \<Rightarrow> False | Hole k d \<Rightarrow> k = key"
  have hit: "\<exists>d. s = Hole key d \<and> Hole key d \<in> set segs" if "find ?P (rev (filter is_hole segs)) = Some s" for s
    using find_SomeD [OF that] by (cases s) auto
  show "map_of (fold (add_hole lib get) (filter is_hole segs) []) key = Some (hole_placeholder lib (Hole key d), hole_value lib get key d)"
    if d: "Hole key d \<in> set segs"
  proof (cases "find ?P (rev (filter is_hole segs))")
    case None
    with d show ?thesis by (force simp: find_None_iff)
  next
    case (Some s)
    with hit same_defaultsD [OF assms d] obtain d' where "s = Hole key d'" "d' = d" by blast
    with Some show ?thesis by (simp add: map_of_add_holes)
  qed
  show "\<exists>d. Hole key d \<in> set segs \<and> ph = hole_placeholder lib (Hole key d) \<and> v = hole_value lib get key d"
    if "map_of (fold (add_hole lib get) (filter is_hole segs) []) key = Some (ph, v)"
    using that hit by (auto simp: map_of_add_holes split: option.splits seg.splits)
qed

lemma tree_of_scalar: "scalar v \<Longrightarrow> tree_of h v = Returns (cval_of v)"
  by (cases v) (auto simp: tree_of_def)

lemma call_list_Returns: "(\<And>x. x \<in> set xs \<Longrightarrow> f x = Returns (g x)) \<Longrightarrow> call_list (map f xs) = Returns (map g xs)"
  by (induction xs) auto

lemma replace_holes:
  assumes "list_all seg_ok segs" and "list_all (default_prints lib) segs" and "same_defaults segs"
    and "\<And>key d. Hole key d \<in> set segs \<Longrightarrow> plain lib (hole_value lib get key d)"
    and "mset (ord (map fst kvs)) = mset (map fst kvs)"
    and kvs: "kvs = fold (add_hole lib get) (filter is_hole segs) []"
  shows "replace_resolved lib ord h kvs (show_segs segs) = Returns (concat (map (seg_text lib get) segs))"
proof -
  define kvs' where "kvs' = map (\<lambda>(key, ph, v). (key, ph, cval_of v)) kvs"
  have dist: "distinct (map fst kvs)" using distinct_add_holes [of "[]"] by (simp add: kvs)
  have m: "map_of kvs' key = map_option (\<lambda>(ph, v). (ph, cval_of v)) (map_of kvs key)" for key
    unfolding kvs'_def by (induction kvs) auto
  have trees: "call_list (map (\<lambda>(key, ph, v). map_call (\<lambda>c. (key, ph, c)) (tree_of h v)) kvs) = Returns kvs'"
    unfolding kvs'_def
  proof (rule call_list_Returns)
    fix x
    assume "x \<in> set kvs"
    obtain key ph v where x: "x = (key, ph, v)" by (cases x) auto
    with \<open>x \<in> set kvs\<close> dist have "map_of kvs key = Some (ph, v)" by simp
    with map_of_holes(2) [OF assms(3), of lib get key ph v] assms(4) have "scalar v" by (auto simp: kvs plain_def)
    with x show "(case x of (key, ph, v) \<Rightarrow> map_call (\<lambda>c. (key, ph, c)) (tree_of h v)) =
        Returns (case x of (key, ph, v) \<Rightarrow> (key, ph, cval_of v))"
      by (simp add: tree_of_scalar)
  qed
  have "replaceable lib segs (map_of kvs')"
    unfolding replaceable_def
  proof (intro conjI allI impI)
    show "d = d'" if "Hole key d \<in> set segs \<and> Hole key d' \<in> set segs" for key d d'
      using that same_defaultsD [OF assms(3)] by blast
    fix key ph c
    assume "map_of kvs' key = Some (ph, c)"
    then obtain v where v: "map_of kvs key = Some (ph, v)" "c = cval_of v" by (auto simp: m)
    with map_of_holes(2) [OF assms(3), of lib get key ph v]
    obtain d where d: "Hole key d \<in> set segs" "ph = hole_placeholder lib (Hole key d)" "v = hole_value lib get key d"
      by (auto simp: kvs)
    with assms(4) [OF d(1)] v show "CHR ''$'' \<notin> set (Sprint lib c)" "\<exists>d. Hole key d \<in> set segs \<and> ph = hole_placeholder lib (Hole key d)"
      by (auto simp: plain_def)
  qed (use assms in auto)
  moreover have "map fst kvs' = map fst kvs" by (auto simp: kvs'_def)
  ultimately have "replace_placeholders lib ord kvs' (show_segs segs) = concat (map (substituted lib (map_of kvs')) segs)"
    using embedded_substitution [of lib segs kvs' ord] dist assms(5) by simp
  moreover have "substituted lib (map_of kvs') s = seg_text lib get s" if "s \<in> set segs" for s
  proof (cases s)
    case (Hole key d)
    with that map_of_holes(1) [OF assms(3), of key d lib get] show ?thesis by (simp add: m kvs)
  qed simp
  ultimately show ?thesis using trees by (simp add: replace_resolved_def cong: map_cong)
qed

lemma parse_plain: "CHR ''$'' \<notin> set s \<Longrightarrow> parsePlaceHolder lib s = Inr ([], False)"
  using parse_segs [of "[Text s]" lib "[]" "[]" False] by (simp add: parsePlaceHolder_def)

lemma parse_value:
  assumes "list_all seg_ok segs"
  shows "parsePlaceHolder lib (show_segs segs) = Inr (map (hole_placeholder lib) (filter is_hole segs),
    filter is_hole segs \<noteq> [] \<and> lone_hole segs = None)"
proof -
  let ?shown = "filter (\<lambda>s. show_seg s \<noteq> []) segs"
  have "lone_hole segs = None \<longleftrightarrow> length ?shown > 1" if holes: "filter is_hole segs \<noteq> []"
  proof (cases ?shown)
    case Nil
    with holes_shown [OF holes] show ?thesis by simp
  next
    case (Cons s rest)
    from holes obtain x where x: "x \<in> set segs" "is_hole x" by (auto simp: filter_empty_conv)
    then have "x \<in> set ?shown" using show_seg_hole by (auto elim!: is_hole.elims(2))
    with Cons x(2) show ?thesis by (cases s; cases x; cases rest) (auto simp: lone_hole_def)
  qed
  then show ?thesis using parse_segs [OF assms, of lib "[]" "[]" False] by (auto simp: parsePlaceHolder_def)
qed

lemma expand_no_holes: "filter is_hole segs = [] \<Longrightarrow> expand lib get segs = HStr (show_segs segs)"
proof -
  assume none: "filter is_hole segs = []"
  have "lone_hole segs = None"
  proof (cases "lone_hole segs")
    case (Some kd)
    then obtain key d where "lone_hole segs = Some (key, d)" by (cases kd) auto
    with lone_hole_in none show ?thesis by (force simp: filter_empty_conv)
  qed
  moreover have "seg_text lib get s = show_seg s" if "s \<in> set segs" for s
    by (cases s) (use that none in \<open>auto simp: filter_empty_conv\<close>)
  ultimately show ?thesis by (simp add: expand_def show_segs_def cong: map_cong)
qed

lemma hole_hd:
  assumes "lone_hole segs = Some (key, d)"
  shows "hd (filter is_hole segs) = Hole key d"
proof -
  have "filter (\<lambda>s. show_seg s \<noteq> []) segs = [Hole key d]"
    using assms by (auto simp: lone_hole_def split: list.splits seg.splits)
  moreover have "filter is_hole segs = filter is_hole (filter (\<lambda>s. show_seg s \<noteq> []) segs)"
    by (auto simp: filter_filter intro!: filter_cong elim!: is_hole.elims(2))
  ultimately show ?thesis by simp
qed

section \<open>Resolving one property\<close>

text \<open>What a call of \<^verbatim>\<open>resolveValue\<close> achieves, with keys above it that are still being resolved.\<close>

definition resolves ::
    "'x go_values \<Rightarrow> (string list \<Rightarrow> string list \<Rightarrow> string list) \<Rightarrow> (string \<Rightarrow> seg list) \<Rightarrow> (slot \<Rightarrow> nat) \<Rightarrow> 'x heap \<Rightarrow> nat \<Rightarrow> nat \<Rightarrow>
     bool" where
  "resolves lib ord text rank h nested fuel \<longleftrightarrow>
     (\<forall>key sl visited h'. resolving lib text rank h nested h' \<and> proper_key key \<and> find_slot h nested key = Some sl
        \<and> (\<forall>k \<in> set visited. \<exists>sl'. find_slot h nested k = Some sl' \<and> rank sl < rank sl') \<and> rank sl + 2 \<le> fuel
      \<longrightarrow> (\<exists>h''. resolveValue lib ord fuel nested key (read_slot h' sl) visited h' = Returns (h'', Inr (final lib text rank h nested sl))
            \<and> resolving lib text rank h nested h'' \<and> insert sl (resolved lib text rank h nested h') \<subseteq> resolved lib text rank h nested h''))"

lemma alloc_scalar: "hval_of c \<noteq> HNil \<Longrightarrow> alloc c h = (h, hval_of c)"
  by (cases c) auto

lemma resolving_find_slot: "resolving lib text rank h nested h' \<Longrightarrow> find_slot h' nested key = find_slot h nested key"
  by (simp add: resolving_def find_slot_def)

lemma resolve_one_hole:
  assumes ok: "resolvable lib text rank h nested" and IH: "resolves lib ord text rank h nested fuel" and fuel: "0 < fuel" "rank sl + 1 \<le> fuel"
    and h': "resolving lib text rank h nested h'"
    and sl: "slot_ok h sl" "read_slot h sl = HStr s" "Hole key d \<in> set (text s)"
    and visited: "\<forall>k \<in> set visited. \<exists>sl'. find_slot h nested k = Some sl' \<and> rank sl \<le> rank sl'"
  shows "\<exists>h''. resolve_each lib ord fuel nested (hole_placeholder lib (Hole key d) # phs) visited h' kvs =
      resolve_each lib ord fuel nested phs visited h'' (add_hole lib (final_key lib text rank h nested) (Hole key d) kvs)
    \<and> resolving lib text rank h nested h'' \<and> resolved lib text rank h nested h' \<subseteq> resolved lib text rank h nested h''"
proof -
  let ?get = "final_key lib text rank h nested"
  have hole: "hole_ok lib rank h nested sl (Hole key d)"
    using resolvableD [OF ok sl(1)] sl(2,3) by (auto simp: value_ok_def list_all_iff simp del: hole_ok.simps)
  obtain h'' where h'': "and_then (config_value h' nested key) (\<lambda>v. resolveValue lib ord fuel nested key v visited h') = Returns (h'', Inr (?get key))"
    "resolving lib text rank h nested h''" "resolved lib text rank h nested h' \<subseteq> resolved lib text rank h nested h''"
  proof (cases "find_slot h nested key")
    case None
    then have "config_value h' nested key = Returns HNil"
      using hole resolving_find_slot [OF h'] by (simp add: config_value_slot)
    with None that [of h'] h' fuel(1) show ?thesis by (cases fuel) (auto simp: final_key_def)
  next
    case (Some sl')
    then have cv: "config_value h' nested key = Returns (read_slot h' sl')"
      using hole resolving_find_slot [OF h'] by (simp add: config_value_slot)
    have "rank sl' < rank sl" using hole Some by simp
    with visited have "\<forall>k \<in> set visited. \<exists>sl''. find_slot h nested k = Some sl'' \<and> rank sl' < rank sl''" by fastforce
    moreover have "rank sl' + 2 \<le> fuel" using \<open>rank sl' < rank sl\<close> fuel(2) by simp
    ultimately have "\<exists>h''. resolveValue lib ord fuel nested key (read_slot h' sl') visited h' = Returns (h'', Inr (final lib text rank h nested sl'))
        \<and> resolving lib text rank h nested h'' \<and> insert sl' (resolved lib text rank h nested h') \<subseteq> resolved lib text rank h nested h''"
      using IH [unfolded resolves_def, rule_format, of h' key sl' visited] h' hole Some by simp
    with cv that Some show ?thesis by (auto simp: final_key_def)
  qed
  have "resolve_each lib ord fuel nested (hole_placeholder lib (Hole key d) # phs) visited h' kvs =
      resolve_each lib ord fuel nested phs visited h'' (add_hole lib ?get (Hole key d) kvs)"
  proof (cases "?get key = HNil")
    case True
    then have "d \<noteq> None"
    proof (cases "find_slot h nested key")
      case (Some sl')
      with True final_plain [OF ok find_slot_ok [OF Some]] hole show ?thesis by (auto simp: final_key_def)
    qed (use hole in simp)
    with True hole h''(1) show ?thesis
      by (cases "config_value h' nested key") (auto simp: hole_value_def alloc_scalar)
  next
    case False
    with h''(1) show ?thesis by (cases "config_value h' nested key") (auto simp: hole_value_def)
  qed
  with h'' show ?thesis by blast
qed

lemma resolve_holes:
  assumes "resolvable lib text rank h nested" and "resolves lib ord text rank h nested fuel" and "0 < fuel" "rank sl + 1 \<le> fuel"
    and "slot_ok h sl" "read_slot h sl = HStr s"
    and "\<forall>k \<in> set visited. \<exists>sl'. find_slot h nested k = Some sl' \<and> rank sl \<le> rank sl'"
  shows "resolving lib text rank h nested h' \<Longrightarrow> set hs \<subseteq> set (filter is_hole (text s)) \<Longrightarrow>
    \<exists>h''. resolve_each lib ord fuel nested (map (hole_placeholder lib) hs) visited h' kvs =
        Returns (h'', Inr (fold (add_hole lib (final_key lib text rank h nested)) hs kvs))
      \<and> resolving lib text rank h nested h'' \<and> resolved lib text rank h nested h' \<subseteq> resolved lib text rank h nested h''"
proof (induction hs arbitrary: h' kvs)
  case (Cons x hs)
  then obtain key d where x: "x = Hole key d" "Hole key d \<in> set (text s)" by (cases x) auto
  obtain h1 where h1: "resolve_each lib ord fuel nested (hole_placeholder lib (Hole key d) # map (hole_placeholder lib) hs) visited h' kvs =
      resolve_each lib ord fuel nested (map (hole_placeholder lib) hs) visited h1 (add_hole lib (final_key lib text rank h nested) (Hole key d) kvs)"
    "resolving lib text rank h nested h1" "resolved lib text rank h nested h' \<subseteq> resolved lib text rank h nested h1"
    using resolve_one_hole [OF assms(1-4) Cons.prems(1) assms(5,6) x(2) assms(7)] by blast
  have "set hs \<subseteq> set (filter is_hole (text s))" using Cons.prems(2) by simp
  from Cons.IH [OF h1(2) this, of "add_hole lib (final_key lib text rank h nested) x kvs"] obtain h2 where
    "resolve_each lib ord fuel nested (map (hole_placeholder lib) (x # hs)) visited h' kvs =
       Returns (h2, Inr (fold (add_hole lib (final_key lib text rank h nested)) (x # hs) kvs))"
    "resolving lib text rank h nested h2" "resolved lib text rank h nested h1 \<subseteq> resolved lib text rank h nested h2"
    unfolding list.map fold_simps x(1) h1(1) by (auto simp del: resolve_each.simps add_hole.simps hole_placeholder.simps)
  with h1(3) show ?case by blast
qed (use assms in auto)

lemma lone_value:
  assumes "same_defaults segs" and "lone_hole segs = Some (key, d)" and "kvs = fold (add_hole lib get) (filter is_hole segs) []"
  shows "(case map_of kvs (ph_key (hd (map (hole_placeholder lib) (filter is_hole segs)))) of None \<Rightarrow> HNil | Some (_, v) \<Rightarrow> v) = expand lib get segs"
proof -
  have "Hole key d \<in> set segs" using lone_hole_in [OF assms(2)] .
  then have "filter is_hole segs \<noteq> []" by (force simp: filter_empty_conv)
  with hole_hd [OF assms(2)] have "ph_key (hd (map (hole_placeholder lib) (filter is_hole segs))) = key" by (simp add: hd_map)
  with map_of_holes(1) [OF assms(1) \<open>Hole key d \<in> set segs\<close>, of lib get] assms(2,3) show ?thesis by (simp add: expand_def)
qed

lemma holes_plain:
  assumes "resolvable lib text rank h nested" and "slot_ok h sl" and "read_slot h sl = HStr s" and "Hole key d \<in> set (text s)"
  shows "plain lib (hole_value lib (final_key lib text rank h nested) key d)"
proof -
  have ok: "seg_ok (Hole key d)" "default_prints lib (Hole key d)" "hole_ok lib rank h nested sl (Hole key d)"
    using resolvableD [OF assms(1,2)] assms(3,4)
    by (auto simp: value_ok_def list_all_iff simp del: seg_ok.simps default_prints.simps hole_ok.simps)
  have "plain lib (final_key lib text rank h nested key) \<and> (final_key lib text rank h nested key = HNil \<longrightarrow> d \<noteq> None)"
  proof (cases "find_slot h nested key")
    case (Some sl')
    with final_plain [OF assms(1) find_slot_ok [OF Some]] ok(3) show ?thesis by (simp add: final_key_def)
  next
    case None
    with assms(1) ok(3) show ?thesis by (simp add: final_key_def plain_def resolvable_def)
  qed
  with hole_plain [OF ok(1,2), of "final_key lib text rank h nested"] ok(3) show ?thesis by (auto split: option.splits)
qed

lemma resolve_text:
  assumes ok: "resolvable lib text rank h nested" and IH: "resolves lib ord text rank h nested fuel" and fuel: "0 < fuel" "rank sl + 1 \<le> fuel"
    and ord: "\<And>visited ks. mset (ord visited ks) = mset ks"
    and h': "resolving lib text rank h nested h'"
    and key: "proper_key key" "find_slot h nested key = Some sl"
    and s: "read_slot h sl = HStr s" "filter is_hole (text s) \<noteq> []"
    and visited: "\<forall>k \<in> set visited. \<exists>sl'. find_slot h nested k = Some sl' \<and> rank sl < rank sl'"
  shows "\<exists>h''. resolveValue lib ord (Suc fuel) nested key (HStr s) visited h' = Returns (h'', Inr (final lib text rank h nested sl))
    \<and> resolving lib text rank h nested h'' \<and> insert sl (resolved lib text rank h nested h') \<subseteq> resolved lib text rank h nested h''"
proof -
  let ?get = "final_key lib text rank h nested" and ?segs = "text s" and ?holes = "filter is_hole (text s)"
  let ?kvs = "fold (add_hole lib ?get) ?holes []" and ?visited = "visited @ [key]"
  have slok: "slot_ok h sl" using find_slot_ok [OF key(2)] .
  have v: "show_segs ?segs = s" "list_all seg_ok ?segs" "list_all (default_prints lib) ?segs" "same_defaults ?segs"
    using resolvableD [OF ok slok] s(1) by (auto simp: value_ok_def)
  have parse: "parsePlaceHolder lib s = Inr (map (hole_placeholder lib) ?holes, lone_hole ?segs = None)"
    using parse_value [OF v(2), of lib] v(1) s(2) by simp
  have visited': "\<forall>k \<in> set ?visited. \<exists>sl'. find_slot h nested k = Some sl' \<and> rank sl \<le> rank sl'"
    using visited key(2) by (auto intro: less_imp_le)
  have nocycle: "find (\<lambda>ph. ph_key ph \<in> set ?visited) (map (hole_placeholder lib) ?holes) = None"
  proof -
    have "ph_key (hole_placeholder lib x) \<notin> set ?visited" if "x \<in> set ?holes" for x
    proof (cases x)
      case (Hole k d)
      with that visited' hole_smaller(1) [OF ok slok s(1), of k d] show ?thesis by fastforce
    qed (use that in simp)
    then show ?thesis unfolding find_None_iff by simp
  qed
  obtain h1 where h1: "resolve_each lib ord fuel nested (map (hole_placeholder lib) ?holes) ?visited h' [] = Returns (h1, Inr ?kvs)"
    "resolving lib text rank h nested h1" "resolved lib text rank h nested h' \<subseteq> resolved lib text rank h nested h1"
    using resolve_holes [OF ok IH fuel slok s(1) visited' h', of ?holes "[]"] by blast
  have final: "final lib text rank h nested sl = expand lib ?get ?segs" using final_eq [OF ok slok] s(1) by (simp add: meaning_def)
  have val: "(if lone_hole ?segs = None then map_call HStr (replace_resolved lib (ord ?visited) h1 ?kvs s)
      else Returns (case map_of ?kvs (ph_key (hd (map (hole_placeholder lib) ?holes))) of None \<Rightarrow> HNil | Some (_, v) \<Rightarrow> v)) =
    Returns (final lib text rank h nested sl)"
  proof (cases "lone_hole ?segs")
    case None
    with replace_holes [where get = ?get and ord = "ord ?visited" and kvs = ?kvs and h = h1,
        OF v(2,3,4) holes_plain [OF ok slok s(1)] ord refl] v(1) final show ?thesis
      by (simp add: expand_def)
  next
    case (Some kd)
    then obtain k d where "lone_hole ?segs = Some (k, d)" by (cases kd) auto
    with lone_value [OF v(4) this refl, of lib ?get] final show ?thesis by simp
  qed
  have "final lib text rank h nested sl \<noteq> HNil" using final_plain [OF ok slok] s(1) by simp
  then have "setValue h1 nested key (final lib text rank h nested sl) False = Returns (write_slot h1 sl (final lib text rank h nested sl), None)"
    using setValue_slot [OF key(1), of h1 nested] key(2) resolving_find_slot [OF h1(2)] by simp
  then have "resolveValue lib ord (Suc fuel) nested key (HStr s) visited h' =
      Returns (write_slot h1 sl (final lib text rank h nested sl), Inr (final lib text rank h nested sl))"
    using s(2) parse nocycle h1(1) val by simp
  with resolving_write [OF ok h1(2) slok s(1)] h1(3) show ?thesis by blast
qed

lemma no_holes:
  assumes "resolvable lib text rank h nested" and "slot_ok h sl" and "read_slot h sl = HStr s" and "filter is_hole (text s) = []"
  shows "parsePlaceHolder lib s = Inr ([], False)" and "final lib text rank h nested sl = HStr s"
proof -
  have v: "show_segs (text s) = s" "list_all seg_ok (text s)" using resolvableD [OF assms(1,2)] assms(3) by (auto simp: value_ok_def)
  show "parsePlaceHolder lib s = Inr ([], False)" using parse_value [OF v(2), of lib] assms(4) v(1) by simp
  have "final lib text rank h nested sl = expand lib (final_key lib text rank h nested) (text s)"
    using final_eq [OF assms(1,2)] assms(3) by (simp add: meaning_def)
  with expand_no_holes [OF assms(4)] v(1) show "final lib text rank h nested sl = HStr s" by simp
qed

lemma resolves_all:
  assumes ok: "resolvable lib text rank h nested" and ord: "\<And>visited ks. mset (ord visited ks) = mset ks"
  shows "resolves lib ord text rank h nested fuel"
proof (induction fuel)
  case 0
  show ?case by (simp add: resolves_def)
next
  case (Suc fuel)
  show ?case
    unfolding resolves_def
  proof (intro allI impI, elim conjE)
    fix key sl visited h'
    assume h': "resolving lib text rank h nested h'" and key: "proper_key key" "find_slot h nested key = Some sl"
      and visited: "\<forall>k \<in> set visited. \<exists>sl'. find_slot h nested k = Some sl' \<and> rank sl < rank sl'" and fuel: "rank sl + 2 \<le> Suc fuel"
    note slok = find_slot_ok [OF key(2)]
    have fuel': "0 < fuel" "rank sl + 1 \<le> fuel" using fuel by auto
    let ?f = "final lib text rank h nested sl" and ?v = "read_slot h' sl"
    have finished: "\<exists>h''. resolveValue lib ord (Suc fuel) nested key ?v visited h' = Returns (h'', Inr ?f)
        \<and> resolving lib text rank h nested h'' \<and> insert sl (resolved lib text rank h nested h') \<subseteq> resolved lib text rank h nested h''"
      if "?v = ?f" "\<And>s. ?v = HStr s \<Longrightarrow> parsePlaceHolder lib s = Inr ([], False)"
      using that h' slok by (cases "?f") (auto simp: resolved_def)
    from h' slok consider "?v = ?f" | "?v = read_slot h sl" unfolding resolving_def by blast
    then show "\<exists>h''. resolveValue lib ord (Suc fuel) nested key ?v visited h' = Returns (h'', Inr ?f)
        \<and> resolving lib text rank h nested h'' \<and> insert sl (resolved lib text rank h nested h') \<subseteq> resolved lib text rank h nested h''"
    proof cases
      case 1
      show ?thesis
      proof (rule finished [OF 1])
        fix s
        assume "?v = HStr s"
        with 1 have f: "?f = HStr s" by simp
        have "scalar (read_slot h sl)" using final_nonstring [OF ok slok] f by (cases "read_slot h sl") auto
        with final_plain [OF ok slok] f show "parsePlaceHolder lib s = Inr ([], False)"
          by (auto simp: plain_def Sprint_def intro: parse_plain)
      qed
    next
      case 2
      show ?thesis
      proof (cases "\<exists>s. read_slot h sl = HStr s \<and> filter is_hole (text s) \<noteq> []")
        case True
        then obtain s where s: "read_slot h sl = HStr s" "filter is_hole (text s) \<noteq> []" by blast
        from resolve_text [OF ok Suc.IH fuel' ord h' key s visited] 2 s(1) show ?thesis by simp
      next
        case False
        show ?thesis
        proof (rule finished)
          show "?v = ?f"
          proof (cases "\<exists>s. read_slot h sl = HStr s")
            case True
            with no_holes [OF ok slok] False 2 show ?thesis by auto
          qed (use 2 final_nonstring [OF ok slok] in auto)
          show "parsePlaceHolder lib s = Inr ([], False)" if "?v = HStr s" for s
            using no_holes(1) [OF ok slok, of s] False 2 that by auto
        qed
      qed
    qed
  qed
qed

section \<open>Resolving all properties\<close>

abbreviation resolve_leaf ::
    "'x go_values \<Rightarrow> (string list \<Rightarrow> string list \<Rightarrow> string list) \<Rightarrow> nat \<Rightarrow> nat \<Rightarrow> string \<Rightarrow> 'x hval \<Rightarrow> 'x heap \<Rightarrow> ('x heap \<times> string option) call" where
  "resolve_leaf lib ord fuel nested \<equiv> \<lambda>key v h.
     map_call (\<lambda>(h, r). (h, case r of Inl e \<Rightarrow> Some e | Inr _ \<Rightarrow> None)) (resolveValue lib ord fuel nested key v [] h)"

text \<open>The visit of the value \<open>v'\<close>, which was \<open>v\<close> at the start, resolves the leaves below it.\<close>

definition visits ::
    "'x go_values \<Rightarrow> (string list \<Rightarrow> string list \<Rightarrow> string list) \<Rightarrow> (string \<Rightarrow> seg list) \<Rightarrow> (slot \<Rightarrow> nat) \<Rightarrow> 'x heap \<Rightarrow> nat \<Rightarrow> nat \<Rightarrow> nat \<Rightarrow>
     bool" where
  "visits lib ord text rank h nested fuel n \<longleftrightarrow>
     (\<forall>key sl v ls v' h'. leaves n h key sl v = Some ls
        \<and> (\<forall>(k, sl) \<in> set ls. proper_key k \<and> find_slot h nested k = Some sl \<and> rank sl + 2 \<le> fuel)
        \<and> resolving lib text rank h nested h'
        \<and> (if scalar v then scalar v' else v' = v) \<and> (as_map h v = None \<and> as_list h v = None \<longrightarrow> v' = read_slot h' sl)
      \<longrightarrow> (\<exists>h''. recursiveVisit n (resolve_leaf lib ord fuel nested) key v' h' = Returns (h'', None)
            \<and> resolving lib text rank h nested h''
            \<and> snd ` set ls \<union> resolved lib text rank h nested h' \<subseteq> resolved lib text rank h nested h''))"

lemma visitsD:
  assumes "visits lib ord text rank h nested fuel n" and "leaves n h key sl v = Some ls"
    and "\<forall>(k, sl) \<in> set ls. proper_key k \<and> find_slot h nested k = Some sl \<and> rank sl + 2 \<le> fuel"
    and "resolving lib text rank h nested h'" and "if scalar v then scalar v' else v' = v" and "v' = read_slot h' sl"
  obtains h'' where "recursiveVisit n (resolve_leaf lib ord fuel nested) key v' h' = Returns (h'', None)"
    and "resolving lib text rank h nested h''" and "snd ` set ls \<union> resolved lib text rank h nested h' \<subseteq> resolved lib text rank h nested h''"
  using assms unfolding visits_def by blast

lemma node_cases:
  obtains (map) r m where "v = HRef r" and "as_map h (HRef r) = Some (r, m)"
  | (list) r xs where "v = HRef r" and "as_map h (HRef r) = None" and "as_list h (HRef r) = Some (r, xs)"
  | (leaf) "as_map h v = None" and "as_list h v = None"
proof (cases "as_map h v")
  case (Some rm)
  then obtain r m where "as_map h v = Some (r, m)" by (cases rm) auto
  with as_map_SomeD [OF this] map show thesis by auto
next
  case None
  show thesis
  proof (cases "as_list h v")
    case (Some rx)
    then obtain r xs where "as_list h v = Some (r, xs)" by (cases rx) auto
    with as_list_SomeD [OF this] None list show thesis by auto
  qed (use None leaf in auto)
qed

lemma resolving_read:
  assumes "resolvable lib text rank h nested" and "resolving lib text rank h nested h'" and "slot_ok h sl"
  shows "if scalar (read_slot h sl) then scalar (read_slot h' sl) else read_slot h' sl = read_slot h sl"
proof -
  have "read_slot h' sl = read_slot h sl \<or> read_slot h' sl = final lib text rank h nested sl"
    using assms(2,3) by (simp add: resolving_def)
  moreover have "scalar (read_slot h sl) \<Longrightarrow> scalar (final lib text rank h nested sl)"
    using final_plain [OF assms(1,3)] by (simp add: plain_def)
  moreover have "\<not> scalar (read_slot h sl) \<Longrightarrow> final lib text rank h nested sl = read_slot h sl"
    using final_nonstring [OF assms(1,3)] by (cases "read_slot h sl") auto
  ultimately show ?thesis by auto
qed

lemma resolving_as_map:
  assumes "resolving lib text rank h nested h'" and "as_map h (HRef r) = Some (r, m)"
  obtains m' where "as_map h' (HRef r) = Some (r, m')" and "map fst m' = map fst m"
    and "\<And>k. entry m' k = read_slot h' (MapSlot r k)" and "\<And>k. entry m k = read_slot h (MapSlot r k)"
proof -
  have r: "r < length h" "h ! r = NMap m" using as_map_SomeD [OF assms(2)] by auto
  have "map shape h' = map shape h" using assms(1) by (simp add: resolving_def)
  with r have "r < length h'" "shape (h' ! r) = shape (h ! r)" by (metis length_map, metis length_map nth_map)
  with r that show thesis by (cases "h' ! r") (auto simp: as_map_def)
qed

lemma resolving_as_list:
  assumes "resolving lib text rank h nested h'" and "as_list h (HRef r) = Some (r, xs)"
  obtains xs' where "as_map h' (HRef r) = None" and "as_list h' (HRef r) = Some (r, xs')" and "length xs' = length xs"
    and "\<And>i. xs' ! i = read_slot h' (ListSlot r i)" and "\<And>i. xs ! i = read_slot h (ListSlot r i)"
proof -
  have r: "r < length h" "h ! r = NList xs" using as_list_SomeD [OF assms(2)] by auto
  have "map shape h' = map shape h" using assms(1) by (simp add: resolving_def)
  with r have "r < length h'" "shape (h' ! r) = shape (h ! r)" by (metis length_map, metis length_map nth_map)
  with r that show thesis by (cases "h' ! r") (auto simp: as_map_def as_list_def)
qed

lemma visit_entries_resolves:
  assumes ok: "resolvable lib text rank h nested" and IH: "visits lib ord text rank h nested fuel n" and m: "as_map h (HRef r) = Some (r, m)"
  shows "those (map (\<lambda>(k, v). leaves n h (if key \<noteq> [] then key @ ''.'' @ k else k) (MapSlot r k) (entry m k)) es) = Some lss \<Longrightarrow>
    (\<forall>(k, sl) \<in> set (concat lss). proper_key k \<and> find_slot h nested k = Some sl \<and> rank sl + 2 \<le> fuel) \<Longrightarrow>
    resolving lib text rank h nested h' \<Longrightarrow>
    \<exists>h''. visit_entries n (resolve_leaf lib ord fuel nested) key r (map fst es) h' = Returns (h'', None)
      \<and> resolving lib text rank h nested h''
      \<and> snd ` set (concat lss) \<union> resolved lib text rank h nested h' \<subseteq> resolved lib text rank h nested h''"
proof (induction es arbitrary: lss h')
  case (Cons e es)
  obtain k v where e: "e = (k, v)" by (cases e)
  let ?key = "if key \<noteq> [] then key @ ''.'' @ k else k"
  from Cons.prems(1) e obtain ls lss' where ls: "leaves n h ?key (MapSlot r k) (entry m k) = Some ls" "lss = ls # lss'"
      "those (map (\<lambda>(k, v). leaves n h (if key \<noteq> [] then key @ ''.'' @ k else k) (MapSlot r k) (entry m k)) es) = Some lss'"
    by (auto split: option.splits)
  obtain m' where m': "as_map h' (HRef r) = Some (r, m')" "entry m' k = read_slot h' (MapSlot r k)" "entry m k = read_slot h (MapSlot r k)"
    using resolving_as_map [OF Cons.prems(3) m] by metis
  have "slot_ok h (MapSlot r k)" using as_map_SomeD [OF m] by simp
  from resolving_read [OF ok Cons.prems(3) this] have val: "if scalar (entry m k) then scalar (entry m' k) else entry m' k = entry m k"
    unfolding m'(2,3) .
  have "\<forall>(k, sl) \<in> set ls. proper_key k \<and> find_slot h nested k = Some sl \<and> rank sl + 2 \<le> fuel" using Cons.prems(2) ls(2) by auto
  from visitsD [OF IH ls(1) this Cons.prems(3) val m'(2)]
  obtain h1 where h1: "recursiveVisit n (resolve_leaf lib ord fuel nested) ?key (entry m' k) h' = Returns (h1, None)"
    "resolving lib text rank h nested h1" "snd ` set ls \<union> resolved lib text rank h nested h' \<subseteq> resolved lib text rank h nested h1" .
  have "\<forall>(k, sl) \<in> set (concat lss'). proper_key k \<and> find_slot h nested k = Some sl \<and> rank sl + 2 \<le> fuel"
    using Cons.prems(2) ls(2) by auto
  from Cons.IH [OF ls(3) this h1(2)] obtain h2 where
    "visit_entries n (resolve_leaf lib ord fuel nested) key r (map fst es) h1 = Returns (h2, None)"
    "resolving lib text rank h nested h2"
    "snd ` set (concat lss') \<union> resolved lib text rank h nested h1 \<subseteq> resolved lib text rank h nested h2" by blast
  moreover from this(3) h1(3) ls(2) have "snd ` set (concat lss) \<union> resolved lib text rank h nested h' \<subseteq> resolved lib text rank h nested h2"
    by (auto simp: image_Un)
  ultimately show ?case using m'(1) h1(1) e by auto
qed simp

lemma visit_items_resolves:
  assumes ok: "resolvable lib text rank h nested" and IH: "visits lib ord text rank h nested fuel n" and xs: "as_list h (HRef r) = Some (r, xs)"
  shows "those (map (\<lambda>i. leaves n h (key @ ''['' @ digits i @ '']'') (ListSlot r i) (xs ! i)) is) = Some lss \<Longrightarrow>
    (\<forall>(k, sl) \<in> set (concat lss). proper_key k \<and> find_slot h nested k = Some sl \<and> rank sl + 2 \<le> fuel) \<Longrightarrow>
    resolving lib text rank h nested h' \<Longrightarrow> set is \<subseteq> {..<length xs} \<Longrightarrow>
    \<exists>h''. visit_items n (resolve_leaf lib ord fuel nested) key r is h' = Returns (h'', None)
      \<and> resolving lib text rank h nested h''
      \<and> snd ` set (concat lss) \<union> resolved lib text rank h nested h' \<subseteq> resolved lib text rank h nested h''"
proof (induction "is" arbitrary: lss h')
  case (Cons i "is")
  let ?key = "key @ ''['' @ digits i @ '']''"
  from Cons.prems(1) obtain ls lss' where ls: "leaves n h ?key (ListSlot r i) (xs ! i) = Some ls" "lss = ls # lss'"
      "those (map (\<lambda>i. leaves n h (key @ ''['' @ digits i @ '']'') (ListSlot r i) (xs ! i)) is) = Some lss'"
    by (auto split: option.splits)
  obtain xs' where xs': "as_list h' (HRef r) = Some (r, xs')" "xs' ! i = read_slot h' (ListSlot r i)" "xs ! i = read_slot h (ListSlot r i)"
    using resolving_as_list [OF Cons.prems(3) xs] by metis
  have "slot_ok h (ListSlot r i)" using as_list_SomeD [OF xs] Cons.prems(4) by simp
  from resolving_read [OF ok Cons.prems(3) this] have val: "if scalar (xs ! i) then scalar (xs' ! i) else xs' ! i = xs ! i"
    unfolding xs'(2,3) .
  have "\<forall>(k, sl) \<in> set ls. proper_key k \<and> find_slot h nested k = Some sl \<and> rank sl + 2 \<le> fuel" using Cons.prems(2) ls(2) by auto
  from visitsD [OF IH ls(1) this Cons.prems(3) val xs'(2)]
  obtain h1 where h1: "recursiveVisit n (resolve_leaf lib ord fuel nested) ?key (xs' ! i) h' = Returns (h1, None)"
    "resolving lib text rank h nested h1" "snd ` set ls \<union> resolved lib text rank h nested h' \<subseteq> resolved lib text rank h nested h1" .
  have "\<forall>(k, sl) \<in> set (concat lss'). proper_key k \<and> find_slot h nested k = Some sl \<and> rank sl + 2 \<le> fuel"
    using Cons.prems(2) ls(2) by auto
  from Cons.IH [OF ls(3) this h1(2)] Cons.prems(4) obtain h2 where
    "visit_items n (resolve_leaf lib ord fuel nested) key r is h1 = Returns (h2, None)"
    "resolving lib text rank h nested h2"
    "snd ` set (concat lss') \<union> resolved lib text rank h nested h1 \<subseteq> resolved lib text rank h nested h2" by auto
  moreover from this(3) h1(3) ls(2) have "snd ` set (concat lss) \<union> resolved lib text rank h nested h' \<subseteq> resolved lib text rank h nested h2"
    by (auto simp: image_Un)
  ultimately show ?case using xs'(1) h1(1) by auto
qed simp

lemma visits_all:
  assumes ok: "resolvable lib text rank h nested" and ord: "\<And>visited ks. mset (ord visited ks) = mset ks"
  shows "visits lib ord text rank h nested fuel n"
proof (induction n)
  case (Suc n)
  show ?case
    unfolding visits_def
  proof (intro allI impI, elim conjE)
    fix key sl v ls v' h'
    assume ls: "leaves (Suc n) h key sl v = Some ls"
      and keys: "\<forall>(k, sl) \<in> set ls. proper_key k \<and> find_slot h nested k = Some sl \<and> rank sl + 2 \<le> fuel"
      and h': "resolving lib text rank h nested h'" and v: "if scalar v then scalar v' else v' = v"
      and atleaf: "as_map h v = None \<and> as_list h v = None \<longrightarrow> v' = read_slot h' sl"
    show "\<exists>h''. recursiveVisit (Suc n) (resolve_leaf lib ord fuel nested) key v' h' = Returns (h'', None)
        \<and> resolving lib text rank h nested h'' \<and> snd ` set ls \<union> resolved lib text rank h nested h' \<subseteq> resolved lib text rank h nested h''"
    proof (cases v h rule: node_cases)
      case (map r m)
      with ls obtain lss where lss: "those (map (\<lambda>(k, v). leaves n h (if key \<noteq> [] then key @ ''.'' @ k else k) (MapSlot r k) (entry m k)) m) = Some lss"
        "ls = concat lss" by auto
      obtain m' where "as_map h' (HRef r) = Some (r, m')" "map fst m' = map fst m" using resolving_as_map [OF h' map(2)] by metis
      with visit_entries_resolves [OF ok Suc map(2) lss(1) _ h'] keys lss(2) v map(1) show ?thesis by auto
    next
      case (list r xs)
      with ls obtain lss where lss: "those (map (\<lambda>i. leaves n h (key @ ''['' @ digits i @ '']'') (ListSlot r i) (xs ! i)) [0..<length xs]) = Some lss"
        "ls = concat lss" by auto
      obtain xs' where "as_map h' (HRef r) = None" "as_list h' (HRef r) = Some (r, xs')" "length xs' = length xs"
        using resolving_as_list [OF h' list(3)] by metis
      with visit_items_resolves [OF ok Suc list(3) lss(1) _ h'] keys lss(2) v list(1) show ?thesis by (auto simp: atLeast0LessThan)
    next
      case leaf
      note 3 = this
      with ls atleaf have "ls = [(key, sl)]" "v' = read_slot h' sl" by auto
      moreover from this keys have "proper_key key" "find_slot h nested key = Some sl" "rank sl + 2 \<le> fuel" by auto
      moreover have "as_map h' v' = None" "as_list h' v' = None"
      proof -
        have l: "length h' = length h" using h' unfolding resolving_def by (metis length_map)
        have "scalar v' \<or> (\<exists>r. v' = HRef r \<and> \<not> r < length h)"
          using v 3 by (cases v) (auto simp: as_map_def as_list_def split: if_splits node.splits)
        then show "as_map h' v' = None" "as_list h' v' = None"
          using l by (auto simp: scalar_no_node) (auto simp: as_map_def as_list_def)
      qed
      ultimately show ?thesis
        using resolves_all [where ord = ord and fuel = fuel, OF ok ord, unfolded resolves_def, rule_format, of h' key sl "[]"] h' by auto
    qed
  qed
qed (simp add: visits_def)

lemma those_nth: "those (map f xs) = Some ys \<Longrightarrow> x \<in> set xs \<Longrightarrow> \<exists>y \<in> set ys. f x = Some y"
  by (induction xs arbitrary: ys) (auto split: option.splits)

lemma leaves_below:
  assumes "leaves (Suc n) h key sl v = Some ls"
  shows "as_map h v = Some (r, m) \<Longrightarrow> entry m k \<noteq> HNil \<Longrightarrow>
      \<exists>key' ls'. leaves n h key' (MapSlot r k) (entry m k) = Some ls' \<and> set ls' \<subseteq> set ls"
    and "as_list h v = Some (r, xs) \<Longrightarrow> i < length xs \<Longrightarrow>
      \<exists>key' ls'. leaves n h key' (ListSlot r i) (xs ! i) = Some ls' \<and> set ls' \<subseteq> set ls"
proof -
  assume m: "as_map h v = Some (r, m)" "entry m k \<noteq> HNil"
  then obtain w where "(k, w) \<in> set m" by (auto simp: entry_def split: option.splits dest: map_of_SomeD)
  moreover from assms m obtain lss where "those (map (\<lambda>(k, v). leaves n h (if key \<noteq> [] then key @ ''.'' @ k else k) (MapSlot r k) (entry m k)) m) = Some lss"
    "ls = concat lss" by auto
  ultimately show "\<exists>key' ls'. leaves n h key' (MapSlot r k) (entry m k) = Some ls' \<and> set ls' \<subseteq> set ls"
    using those_nth by fastforce
next
  assume xs: "as_list h v = Some (r, xs)" "i < length xs"
  then have "as_map h v = None" by (auto simp: as_map_def as_list_def split: hval.splits if_splits node.splits)
  with assms xs obtain lss where "those (map (\<lambda>i. leaves n h (key @ ''['' @ digits i @ '']'') (ListSlot r i) (xs ! i)) [0..<length xs]) = Some lss"
    "ls = concat lss" by auto
  moreover have "i \<in> set [0..<length xs]" using xs(2) by simp
  ultimately show "\<exists>key' ls'. leaves n h key' (ListSlot r i) (xs ! i) = Some ls' \<and> set ls' \<subseteq> set ls"
    using those_nth by fastforce
qed

lemma leaf_here:
  assumes "leaves n h key sl v = Some ls" and "scalar v"
  shows "(key, sl) \<in> set ls"
  using assms by (cases n) (auto simp: scalar_no_node)

lemma slot_is_leaf:
  "leaves n h key sl0 v = Some ls \<Longrightarrow> slot_of h v parts = Some sl \<Longrightarrow> scalar (read_slot h sl) \<Longrightarrow> read_slot h sl \<noteq> HNil \<Longrightarrow>
   sl \<in> snd ` set ls"
proof (induction parts arbitrary: n key sl0 v ls)
  case (Cons p rest)
  obtain name index where p: "p = (name, index)" by (cases p)
  obtain n' where n: "n = Suc n'" using Cons.prems(1) by (cases n) auto
  from Cons.prems(2) p obtain r m where m: "as_map h v = Some (r, m)" by (auto split: option.splits)
  have below: "sl \<in> snd ` set ls"
    if leaf: "leaves k h key' sl' v' = Some ls'" "set ls' \<subseteq> set ls" and v': "if rest = [] then sl = sl' \<and> v' = read_slot h sl else slot_of h v' rest = Some sl"
    for k key' sl' v' ls'
  proof (cases "rest = []")
    case True
    with leaf_here [OF leaf(1)] v' Cons.prems(3) leaf(2) show ?thesis by force
  next
    case False
    with Cons.IH [OF leaf(1) _ Cons.prems(3,4)] v' leaf(2) show ?thesis by auto
  qed
  have nonnil: "entry m name \<noteq> HNil"
  proof
    assume nil: "entry m name = HNil"
    then have "as_list h (entry m name) = None" "\<And>ps. slot_of h (entry m name) ps = None"
      by (simp_all add: as_list_def slot_of_scalar)
    with Cons.prems(2,4) p m nil as_map_SomeD [OF m] show False by (auto split: if_splits)
  qed
  show ?case
  proof (cases "index < 0")
    case True
    obtain key' ls' where "leaves n' h key' (MapSlot r name) (entry m name) = Some ls'" "set ls' \<subseteq> set ls"
      using leaves_below(1) [OF Cons.prems(1) [unfolded n] m nonnil] by blast
    then show ?thesis by (rule below) (use True Cons.prems(2) p m as_map_SomeD [OF m] in auto)
  next
    case False
    with Cons.prems(2) p m obtain r' xs where xs: "as_list h (entry m name) = Some (r', xs)" "\<not> int (length xs) \<le> index"
      by (auto split: option.splits if_splits)
    obtain key1 ls1 where l1: "leaves n' h key1 (MapSlot r name) (entry m name) = Some ls1" "set ls1 \<subseteq> set ls"
      using leaves_below(1) [OF Cons.prems(1) [unfolded n] m nonnil] by blast
    obtain n2 where n2: "n' = Suc n2" using l1(1) by (cases n') auto
    have "nat index < length xs" using xs(2) False by (simp add: nat_less_iff)
    from leaves_below(2) [OF l1(1) [unfolded n2] xs(1) this] obtain key2 ls2
      where "leaves n2 h key2 (ListSlot r' (nat index)) (xs ! nat index) = Some ls2" "set ls2 \<subseteq> set ls" using l1(2) by blast
    then show ?thesis by (rule below) (use False Cons.prems(2) p m xs as_list_SomeD [OF xs(1)] in \<open>auto split: if_splits\<close>)
  qed
qed simp

lemma resolve_visits:
  assumes ok: "resolvable lib text rank h nested" and "well_keyed depth h nested" and ord: "\<And>visited ks. mset (ord visited ks) = mset ks"
    and rank: "\<And>sl. rank sl + 2 \<le> fuel"
  obtains h' where "resolve lib ord depth fuel nested h = Returns (h', None)" and "resolving lib text rank h nested h'"
    and "\<And>key sl. find_slot h nested key = Some sl \<Longrightarrow> read_slot h' sl = final lib text rank h nested sl"
proof -
  obtain ls where ls: "leaves depth h [] (MapSlot nested []) (HRef nested) = Some ls"
    "\<forall>(key, sl) \<in> set ls. proper_key key \<and> find_slot h nested key = Some sl"
    using assms(2) by (auto simp: well_keyed_def list_all_iff split: option.splits)
  have start: "resolving lib text rank h nested h" by (simp add: resolving_def)
  have root: "as_map h (HRef nested) = None \<and> as_list h (HRef nested) = None \<longrightarrow> HRef nested = read_slot h (MapSlot nested [])"
  proof
    assume none: "as_map h (HRef nested) = None \<and> as_list h (HRef nested) = None"
    have "slot_of h (HRef nested) parts = None" for parts using none by (cases parts) auto
    with none ls show "HRef nested = read_slot h (MapSlot nested [])" by (cases depth) (auto simp: find_slot_def)
  qed
  have "\<forall>(k, sl) \<in> set ls. proper_key k \<and> find_slot h nested k = Some sl \<and> rank sl + 2 \<le> fuel" using ls(2) rank by auto
  with visits_all [where ord = ord and fuel = fuel and n = depth, OF ok ord, unfolded visits_def, rule_format,
      of "[]" "MapSlot nested []" "HRef nested" ls h "HRef nested"] ls(1) start root
  obtain h' where h': "recursiveVisit depth (resolve_leaf lib ord fuel nested) [] (HRef nested) h = Returns (h', None)"
    "resolving lib text rank h nested h'" "snd ` set ls \<subseteq> resolved lib text rank h nested h'" by auto
  have "read_slot h' sl = final lib text rank h nested sl" if find: "find_slot h nested key = Some sl" for key sl
  proof (cases "\<exists>s. read_slot h sl = HStr s")
    case True
    then obtain s where "read_slot h sl = HStr s" by blast
    with slot_is_leaf [OF ls(1), of "map returned (key_parts key)" sl] find have "sl \<in> snd ` set ls" by (simp add: find_slot_def)
    with h'(3) have "sl \<in> resolved lib text rank h nested h'" by blast
    then show ?thesis by (simp add: resolved_def)
  next
    case False
    with final_nonstring [OF ok find_slot_ok [OF find]] h'(2) find_slot_ok [OF find] show ?thesis by (auto simp: resolving_def)
  qed
  with that h'(1,2) show thesis by (simp add: resolve_def VisitEach_def)
qed

lemma meaning_cong:
  assumes "\<And>s key d. v = HStr s \<Longrightarrow> Hole key d \<in> set (text s) \<Longrightarrow> get key = get' key"
  shows "meaning lib text get v = meaning lib text get' v"
proof (cases v)
  case (HStr s)
  have "expand lib get (text s) = expand lib get' (text s)" by (rule expand_cong) (rule assms [OF HStr])
  with HStr show ?thesis by (simp add: meaning_def)
qed (simp_all add: meaning_def)


definition sample_heap :: "nat heap" where
  "sample_heap =
     [NMap [(''a'', HRef 1), (''b'', HStr ''${a.url}''), (''l'', HRef 2)],
      NMap [(''host'', HStr ''h''), (''port'', HNum 80), (''url'', HStr ''${a.host}:${a.port}/${p:x}'')],
      NList [HStr ''${a.port}'']]"

definition sample_text :: "string \<Rightarrow> seg list" where
  "sample_text s =
     (if s = ''${a.url}'' then [Hole ''a.url'' None]
      else if s = ''${a.host}:${a.port}/${p:x}'' then [Hole ''a.host'' None, Text '':'', Hole ''a.port'' None, Text ''/'', Hole ''p'' (Some ''x'')]
      else if s = ''${a.port}'' then [Hole ''a.port'' None]
      else [Text s])"

definition sample_rank :: "slot \<Rightarrow> nat" where
  "sample_rank sl =
     (if sl = MapSlot 0 ''b'' then 2 else if sl \<in> {MapSlot 1 ''url'', ListSlot 2 0} then 1 else 0)"


text \<open>C38: A map whose entry refers to the map itself is not noticed: resolving succeeds, and no visit of the properties
  afterwards ever ends.\<close>

theorem self_containing_map:
  "\<exists>h'. resolve whole_numbers (\<lambda>_ ks. ks) 3 2 0 [NMap [(''a'', HRef 1)], NMap [(''b'', HStr ''${a}'')]] = Returns (h', None)
    \<and> (\<forall>fuel app. VisitEach fuel 0 app h' = Runs_forever)"
proof (intro exI conjI allI)
  let ?h = "[NMap [(''a'', HRef 1)], NMap [(''b'', HRef 1)]] :: nat heap"
  show "resolve whole_numbers (\<lambda>_ ks. ks) 3 2 0 [NMap [(''a'', HRef 1)], NMap [(''b'', HStr ''${a}'')]] = Returns (?h, None)"
    by code_simp
  have "recursiveVisit fuel app key (HRef 1) ?h = Runs_forever" for fuel app key
    by (induction fuel arbitrary: key) (simp_all add: as_map_def entry_def)
  then show "VisitEach fuel 0 app ?h = Runs_forever" for fuel app
    by (cases fuel) (simp_all add: VisitEach_def as_map_def entry_def)
qed

end
