(* ===== verification/Config_Load.thy ===== *)
theory Config_Load
  imports Config_Resolve Order
begin

text \<open>
  Loading the configuration, \<^verbatim>\<open>Load\<close> of \<^verbatim>\<open>pkg/appconfig/config.go\<close>, with the groups of providers
  (\<^verbatim>\<open>provider_group.go\<close>), the key formats (\<^verbatim>\<open>map_util.go\<close>) and the provider of environment variables.

  A group owns its providers; what \<^verbatim>\<open>Load\<close> of a provider returns is a field of the provider, since it reads files and services.
  The function that creates the provider of a profile is a field of the group. The merge library
  (\<^verbatim>\<open>dario.cat/mergo\<close>) is the argument \<open>merge\<close>. A function that processes the providers of a group only logs in
  this program and is left out. The fuel of the loop counts its iterations.
\<close>

section \<open>Formats of keys\<close>

fun processKeyFormat :: "(string \<Rightarrow> string) \<Rightarrow> 'x cval \<Rightarrow> 'x cval"
  and format_entries :: "(string \<Rightarrow> string) \<Rightarrow> (string \<times> 'x cval) list \<Rightarrow> (string \<times> 'x cval) list \<Rightarrow> (string \<times> 'x cval) list"
  and format_items :: "(string \<Rightarrow> string) \<Rightarrow> 'x cval list \<Rightarrow> 'x cval list" where
  "processKeyFormat processor (CMap m) = CMap (format_entries processor m [])"
| "processKeyFormat processor (CList xs) = CList (format_items processor xs)"
| "processKeyFormat processor CNil = CNil"
| "processKeyFormat processor (CStr s) = CStr s"
| "processKeyFormat processor (CStrs xs) = CStrs xs"
| "processKeyFormat processor (CBool b) = CBool b"
| "processKeyFormat processor (CNum x) = CNum x"
| "format_entries processor [] result = result"
| "format_entries processor ((k, v) # m) result = format_entries processor m (AList.update (processor k) (processKeyFormat processor v) result)"
| "format_items processor [] = []"
| "format_items processor (v # xs) = processKeyFormat processor v # format_items processor xs"

text \<open>
  The loop of \<^verbatim>\<open>uf\<close> from the last part of the key to the first. \<^verbatim>\<open>errors.Wrap\<close> of a nil error is nil, so
  a negative index gives a nil value and no error.
\<close>

fun uf_loop :: "string list \<Rightarrow> nat \<Rightarrow> 'x cval \<Rightarrow> string + 'x cval" where
  "uf_loop [] indexOccurance n = Inr n"
| "uf_loop (currKey # keys) indexOccurance n =
     (case (strings_Index currKey (CHR ''[''), strings_Index currKey (CHR '']'')) of
        (Some bracketLeft, Some bracketRight) \<Rightarrow>
          if bracketLeft > 0 \<and> bracketRight = length currKey - 1
          then (case strconv_Atoi (take (bracketRight - (bracketLeft + 1)) (drop (bracketLeft + 1) currKey)) of
                  None \<Rightarrow> Inl ''key: has index marker [], but the index is not valid integer.''
                | Some index \<Rightarrow>
                    if index < 0 then Inr CNil
                    else if indexOccurance > 0 then Inl ''key: has multiple index marker []. This is not supported''
                    else uf_loop keys (indexOccurance + 1) (CMap [(take bracketLeft currKey, CList [n])]))
          else uf_loop keys indexOccurance (CMap [(currKey, n)])
      | _ \<Rightarrow> uf_loop keys indexOccurance (CMap [(currKey, n)]))"

definition uf :: "string \<Rightarrow> 'x cval \<Rightarrow> string + 'x cval" where
  "uf k v = uf_loop (rev (strings_Split k (CHR ''.''))) 0 v"

type_synonym 'x merge = "'x cval \<Rightarrow> 'x cval \<Rightarrow> string + 'x cval"

fun unflatten_loop :: "'x merge \<Rightarrow> (string \<times> 'x cval) list \<Rightarrow> 'x cval \<Rightarrow> string + 'x cval" where
  "unflatten_loop merge [] nested = Inr nested"
| "unflatten_loop merge ((k, v) # flat) nested =
     (case uf k v of
        Inl e \<Rightarrow> Inl (''cannot un-flatten due to error in key: '' @ k @ '': '' @ e)
      | Inr temp \<Rightarrow>
         (case merge nested temp of
            Inl e \<Rightarrow> Inl e
          | Inr nested \<Rightarrow> unflatten_loop merge flat nested))"

definition UnFlatten :: "'x merge \<Rightarrow> (string \<times> 'x cval) list \<Rightarrow> string + 'x cval" where
  "UnFlatten merge flat = unflatten_loop merge flat (CMap [])"

text \<open>Environment variables: an underscore becomes a dot unless it follows underscores at the start of the name.\<close>

fun env_key_loop :: "string \<Rightarrow> string \<Rightarrow> string" where
  "env_key_loop runes [] = runes"
| "env_key_loop runes (char # k) =
     env_key_loop (runes @ [if char = CHR ''_'' \<and> runes \<noteq> [] \<and> last runes \<noteq> CHR ''_'' then CHR ''.'' else char]) k"

fun env_settings :: "'x go_values \<Rightarrow> string list \<Rightarrow> (string \<times> 'x cval) list \<Rightarrow> (string \<times> 'x cval) list call" where
  "env_settings lib [] flat = Returns flat"
| "env_settings lib (e # es) flat =
     (case strings_SplitN2 e (CHR ''='') of
        (k, None) \<Rightarrow> Panics
      | (k, Some v) \<Rightarrow> env_settings lib es (AList.update (env_key_loop [] k) (ParseString lib v) flat))"

definition env_Load :: "'x go_values \<Rightarrow> 'x merge \<Rightarrow> string list \<Rightarrow> (string + 'x cval) call" where
  "env_Load lib merge environ = map_call (UnFlatten merge) (env_settings lib environ [])"

section \<open>Profiles\<close>

definition PropertyKeyActiveProfiles :: string where
  "PropertyKeyActiveProfiles = ''application.profiles.active''"

definition PropertyKeyAdditionalProfiles :: string where
  "PropertyKeyAdditionalProfiles = ''application.profiles.additional''"

definition tree_value :: "'x cval \<Rightarrow> string \<Rightarrow> ('x heap \<times> 'x hval) call" where
  "tree_value src key =
     (case alloc src [] of
        (h, HRef r) \<Rightarrow> map_call (Pair h) (config_value h r key)
      | (h, _) \<Rightarrow> Returns (h, HNil))"

fun append_strings :: "string list \<Rightarrow> 'x hval list \<Rightarrow> string list option" where
  "append_strings profiles [] = Some profiles"
| "append_strings profiles (HStr s # xs) = append_strings (profiles @ [s]) xs"
| "append_strings profiles (_ # xs) = None"

definition mergeAdditionalProfiles :: "string list \<Rightarrow> 'x cval \<Rightarrow> (string + string list) call" where
  "mergeAdditionalProfiles profiles src =
     and_then (tree_value src PropertyKeyAdditionalProfiles) (\<lambda>(h, raw).
       case raw of
         HNil \<Rightarrow> Returns (Inr profiles)
       | HStr v \<Rightarrow> Returns (Inr (profiles @ [v]))
       | HStrs v \<Rightarrow> Returns (Inr (profiles @ v))
       | _ \<Rightarrow>
          (case as_list h raw of
             None \<Rightarrow> Returns (Inl (''invalid type at key path '' @ PropertyKeyAdditionalProfiles))
           | Some (_, v) \<Rightarrow>
              (case append_strings profiles v of
                 None \<Rightarrow> Returns (Inl (''invalid type at key path '' @ PropertyKeyAdditionalProfiles))
               | Some ps \<Rightarrow> Returns (Inr ps))))"

text \<open>A configuration as the groups see it: a heap with the root of the properties.\<close>

type_synonym 'x conf = "'x heap \<times> nat"

definition active_profiles :: "'x heap \<Rightarrow> 'x hval \<Rightarrow> string list" where
  "active_profiles h v =
     (case as_list h v of
        None \<Rightarrow> []
      | Some (_, xs) \<Rightarrow> filter (\<lambda>p. p \<noteq> []) (map (\<lambda>p. case p of HStr s \<Rightarrow> strings_TrimSpace s | _ \<Rightarrow> []) xs))"

definition resolveProfiles :: "'x conf \<Rightarrow> string list call" where
  "resolveProfiles conf =
     (case conf of (h, root) \<Rightarrow>
       and_then (config_value h root PropertyKeyActiveProfiles) (\<lambda>active.
       and_then (config_value h root PropertyKeyAdditionalProfiles) (\<lambda>additional.
         Returns (active_profiles h active
           @ (case additional of HStrs ps \<Rightarrow> filter (\<lambda>p. p \<noteq> []) (map strings_TrimSpace ps) | _ \<Rightarrow> [])
           @ [[]]))))"

section \<open>Providers and groups\<close>

record 'x provider =
  Loaded :: bool
  Settings :: "'x cval option"
  prov_Precedence :: int
  load_result :: "string + 'x cval option"

definition provider_Reset :: "'x provider \<Rightarrow> 'x provider" where
  "provider_Reset p = p\<lparr>Loaded := False, Settings := None\<rparr>"

definition provider_Reorder :: "int \<Rightarrow> 'x provider \<Rightarrow> 'x provider" where
  "provider_Reorder order p = p\<lparr>prov_Precedence := order\<rparr>"

definition provider_Load :: "'x provider \<Rightarrow> 'x provider \<times> string option" where
  "provider_Load p =
     (case load_result p of
        Inl e \<Rightarrow> (p\<lparr>Loaded := False\<rparr>, Some e)
      | Inr settings \<Rightarrow> (p\<lparr>Loaded := True, Settings := settings\<rparr>, None))"

text \<open>
  A provider is found in its group by a name: those of a static group are named by their position at the start, those of a dynamic
  group by their key. \<open>ResolvedProviders\<close> is empty where the slice of the code is nil.
\<close>

record 'x dynamic_group =
  grp_Precedence :: int
  ProviderKeys :: "string list"
  ProviderLookup :: "(string \<times> 'x provider) list"
  ResolvedProviders :: "string list"

type_synonym 'x create_func = "string \<Rightarrow> int \<Rightarrow> 'x conf \<Rightarrow> 'x provider option"

datatype 'x group =
    StaticProviderGroup int "(string \<times> 'x provider) list"
  | DynamicProviderGroup "'x dynamic_group"
  | ProfileBasedProviderGroup "'x dynamic_group" "string \<Rightarrow> string" "'x create_func"

definition NewStaticProviderGroup :: "int \<Rightarrow> 'x provider list \<Rightarrow> 'x group" where
  "NewStaticProviderGroup order providers = StaticProviderGroup order (zip (map digits [0..<length providers]) providers)"

definition NewDynamicProviderGroup :: "int \<Rightarrow> 'x dynamic_group" where
  "NewDynamicProviderGroup order = \<lparr>grp_Precedence = order, ProviderKeys = [], ProviderLookup = [], ResolvedProviders = []\<rparr>"

definition NewProfileBasedProviderGroup :: "int \<Rightarrow> (string \<Rightarrow> string) \<Rightarrow> 'x create_func \<Rightarrow> 'x group" where
  "NewProfileBasedProviderGroup order keyFunc createFunc = ProfileBasedProviderGroup (NewDynamicProviderGroup order) keyFunc createFunc"

fun group_Order :: "'x group \<Rightarrow> int" where
  "group_Order (StaticProviderGroup order ps) = order"
| "group_Order (DynamicProviderGroup g) = grp_Precedence g"
| "group_Order (ProfileBasedProviderGroup g keyFunc createFunc) = grp_Precedence g"

definition reset_all :: "(string \<times> 'x provider) list \<Rightarrow> (string \<times> 'x provider) list" where
  "reset_all ps = map (\<lambda>(n, p). (n, provider_Reset p)) ps"

definition dynamic_Reset :: "'x dynamic_group \<Rightarrow> 'x dynamic_group" where
  "dynamic_Reset g = g\<lparr>ProviderLookup := reset_all (ProviderLookup g), ResolvedProviders := []\<rparr>"

fun group_Reset :: "'x group \<Rightarrow> 'x group" where
  "group_Reset (StaticProviderGroup order ps) = StaticProviderGroup order (reset_all ps)"
| "group_Reset (DynamicProviderGroup g) = DynamicProviderGroup (dynamic_Reset g)"
| "group_Reset (ProfileBasedProviderGroup g keyFunc createFunc) = ProfileBasedProviderGroup (dynamic_Reset g) keyFunc createFunc"

text \<open>The providers by descending keys, each with the next smaller order.\<close>

fun reorder_loop :: "string list \<Rightarrow> int \<Rightarrow> (string \<times> 'x provider) list \<Rightarrow> string list \<Rightarrow> (string \<times> 'x provider) list \<times> string list" where
  "reorder_loop [] order lookup providers = (lookup, providers)"
| "reorder_loop (key # keys) order lookup providers =
     (case map_of lookup key of
        None \<Rightarrow> reorder_loop keys order lookup providers
      | Some p \<Rightarrow> reorder_loop keys (order - 1) (AList.update key (provider_Reorder order p) lookup) (providers @ [key]))"

definition dynamic_Providers :: "'x dynamic_group \<Rightarrow> 'x dynamic_group \<times> string list" where
  "dynamic_Providers g =
     (if ResolvedProviders g \<noteq> [] then (g, ResolvedProviders g)
      else (case reorder_loop (rev (ProviderKeys g)) (grp_Precedence g) (ProviderLookup g) [] of
              (lookup, providers) \<Rightarrow> (g\<lparr>ProviderLookup := lookup, ResolvedProviders := providers\<rparr>, providers)))"

fun create_loop ::
    "(string \<Rightarrow> string) \<Rightarrow> 'x create_func \<Rightarrow> int \<Rightarrow> 'x conf \<Rightarrow> string list \<Rightarrow> (string \<times> 'x provider) list \<Rightarrow> string list \<Rightarrow>
     (string \<times> 'x provider) list \<times> string list" where
  "create_loop keyFunc createFunc precedence conf [] lookup keys = (lookup, keys)"
| "create_loop keyFunc createFunc precedence conf (pf # profiles) lookup keys =
     (let name = keyFunc pf;
          lookup' = (if map_of lookup name \<noteq> None then lookup
                     else (case createFunc name precedence conf of None \<Rightarrow> lookup | Some p \<Rightarrow> AList.update name p lookup))
      in create_loop keyFunc createFunc precedence conf profiles lookup' (keys @ [name]))"

definition profile_Providers ::
    "(string \<Rightarrow> string) \<Rightarrow> 'x create_func \<Rightarrow> 'x conf \<Rightarrow> 'x dynamic_group \<Rightarrow> ('x dynamic_group \<times> string list) call" where
  "profile_Providers keyFunc createFunc conf g =
     and_then (resolveProfiles conf) (\<lambda>profiles.
       case create_loop keyFunc createFunc (grp_Precedence g) conf profiles (ProviderLookup g) [] of
         (lookup, keys) \<Rightarrow>
           Returns (dynamic_Providers
             (if length (ProviderLookup g) \<noteq> length lookup
              then g\<lparr>ProviderKeys := keys, ProviderLookup := filter (\<lambda>(k, p). k \<in> set keys) lookup, ResolvedProviders := []\<rparr>
              else g\<lparr>ProviderKeys := keys, ProviderLookup := lookup\<rparr>)))"

fun group_Providers :: "'x conf \<Rightarrow> 'x group \<Rightarrow> ('x group \<times> string list) call" where
  "group_Providers conf (StaticProviderGroup order ps) = Returns (StaticProviderGroup order ps, map fst ps)"
| "group_Providers conf (DynamicProviderGroup g) =
     (case dynamic_Providers g of (g, names) \<Rightarrow> Returns (DynamicProviderGroup g, names))"
| "group_Providers conf (ProfileBasedProviderGroup g keyFunc createFunc) =
     map_call (\<lambda>(g, names). (ProfileBasedProviderGroup g keyFunc createFunc, names)) (profile_Providers keyFunc createFunc conf g)"

fun provider_table :: "'x group \<Rightarrow> (string \<times> 'x provider) list" where
  "provider_table (StaticProviderGroup order ps) = ps"
| "provider_table (DynamicProviderGroup g) = ProviderLookup g"
| "provider_table (ProfileBasedProviderGroup g keyFunc createFunc) = ProviderLookup g"

fun put_table :: "(string \<times> 'x provider) list \<Rightarrow> 'x group \<Rightarrow> 'x group" where
  "put_table ps (StaticProviderGroup order _) = StaticProviderGroup order ps"
| "put_table ps (DynamicProviderGroup g) = DynamicProviderGroup (g\<lparr>ProviderLookup := ps\<rparr>)"
| "put_table ps (ProfileBasedProviderGroup g keyFunc createFunc) = ProfileBasedProviderGroup (g\<lparr>ProviderLookup := ps\<rparr>) keyFunc createFunc"

text \<open>The slice that a group returned is sorted in place, so the group keeps the new order.\<close>

fun keep_order :: "string list \<Rightarrow> 'x group \<Rightarrow> 'x group" where
  "keep_order names (StaticProviderGroup order ps) =
     StaticProviderGroup order (map (\<lambda>n. (n, the (map_of ps n))) names)"
| "keep_order names (DynamicProviderGroup g) = DynamicProviderGroup (g\<lparr>ResolvedProviders := names\<rparr>)"
| "keep_order names (ProfileBasedProviderGroup g keyFunc createFunc) =
     ProfileBasedProviderGroup (g\<lparr>ResolvedProviders := names\<rparr>) keyFunc createFunc"

definition provider_obj :: "(string \<times> 'x provider) list \<Rightarrow> string \<Rightarrow> ordered_obj" where
  "provider_obj ps name = \<lparr>PriorityOrder = None, OrderValue = map_option prov_Precedence (map_of ps name)\<rparr>"

section \<open>Load\<close>

text \<open>Loading the providers of a group that are not loaded; the flag tells whether there was one.\<close>

fun load_providers ::
    "string list \<Rightarrow> (string \<times> 'x provider) list \<Rightarrow> bool \<Rightarrow> (string \<times> 'x provider) list \<times> bool \<times> string option" where
  "load_providers [] ps hasNew = (ps, hasNew, None)"
| "load_providers (name # names) ps hasNew =
     (case map_of ps name of
        None \<Rightarrow> load_providers names ps hasNew
      | Some p \<Rightarrow>
          if Loaded p then load_providers names ps hasNew
          else (case provider_Load p of
                  (p, Some e) \<Rightarrow> (AList.update name p ps, hasNew, Some (''Failed to load properties: '' @ e))
                | (p, None) \<Rightarrow> load_providers names (AList.update name p ps) True))"

text \<open>One round over the groups: \<open>providers\<close> are the providers with the group they belong to, as they are after loading.\<close>

fun load_groups ::
    "'x conf \<Rightarrow> 'x group list \<Rightarrow> 'x group list \<Rightarrow> 'x provider list \<Rightarrow> bool \<Rightarrow> ('x group list \<times> 'x provider list \<times> bool \<times> string option) call" where
  "load_groups conf past [] providers hasNew = Returns (past, providers, hasNew, None)"
| "load_groups conf past (g # gs) providers hasNew =
     and_then (group_Providers conf g) (\<lambda>(g, names).
       let names = SortStable (provider_obj (provider_table g)) OrderedFirstCompareReverse names;
           g = keep_order names g
       in case load_providers names (provider_table g) hasNew of
            (ps, hasNew, Some e) \<Rightarrow> Returns (past @ put_table ps g # gs, providers, hasNew, Some e)
          | (ps, hasNew, None) \<Rightarrow>
              load_groups conf (past @ [put_table ps g]) gs (providers @ List.map_filter (map_of ps) names) hasNew)"

fun merge_loop :: "'x merge \<Rightarrow> 'x provider list \<Rightarrow> 'x cval \<Rightarrow> string list \<Rightarrow> (string + 'x cval \<times> string list) call" where
  "merge_loop merge [] merged additional = Returns (Inr (merged, additional))"
| "merge_loop merge (p # ps) merged additional =
     (case Settings p of
        None \<Rightarrow> merge_loop merge ps merged additional
      | Some settings \<Rightarrow>
          let formatted = processKeyFormat NormalizeKey settings
          in (case merge merged formatted of
                Inl e \<Rightarrow> Returns (Inl (''Failed to merge properties from property sources: '' @ e))
              | Inr merged \<Rightarrow>
                  and_then (mergeAdditionalProfiles additional formatted) (\<lambda>r.
                    case r of Inl e \<Rightarrow> Returns (Inl e) | Inr additional \<Rightarrow> merge_loop merge ps merged additional)))"

definition merge_providers :: "'x merge \<Rightarrow> 'x provider list \<Rightarrow> (string + 'x conf) call" where
  "merge_providers merge providers =
     and_then (merge_loop merge providers (CMap []) []) (\<lambda>r.
       case r of
         Inl e \<Rightarrow> Returns (Inl e)
       | Inr (merged, additional) \<Rightarrow>
          (case alloc merged [] of
             (h, HRef root) \<Rightarrow>
               and_then (setValue h root PropertyKeyAdditionalProfiles (HStrs additional) True) (\<lambda>(h, e).
                 case e of Some err \<Rightarrow> Returns (Inl err) | None \<Rightarrow> Returns (Inr (h, root)))
           | _ \<Rightarrow> Panics))"

fun load_loop ::
    "'x merge \<Rightarrow> nat \<Rightarrow> bool \<Rightarrow> 'x group list \<Rightarrow> 'x conf \<Rightarrow> ('x group list \<times> (string + 'x conf \<times> 'x provider list)) call" where
  "load_loop merge 0 isFirstIter groups props = Runs_forever"
| "load_loop merge (Suc fuel) isFirstIter groups props =
     and_then (load_groups props [] groups [] isFirstIter) (\<lambda>(groups, providers, hasNew, err).
       case err of
         Some e \<Rightarrow> Returns (groups, Inl e)
       | None \<Rightarrow>
           if \<not> hasNew then Returns (groups, Inr (props, providers))
           else and_then (merge_providers merge providers) (\<lambda>r.
             case r of
               Inl e \<Rightarrow> Returns (groups, Inl e)
             | Inr props \<Rightarrow> load_loop merge fuel False groups props))"

record 'x config =
  cfg_properties :: "'x conf"
  cfg_groups :: "'x group list"
  cfg_providers :: "'x provider list"
  cfg_profiles :: "string list"
  isLoaded :: bool

definition group_obj :: "'x group \<Rightarrow> ordered_obj" where
  "group_obj g = \<lparr>PriorityOrder = None, OrderValue = Some (group_Order g)\<rparr>"

definition config_Load ::
    "'x go_values \<Rightarrow> 'x merge \<Rightarrow> (string list \<Rightarrow> string list \<Rightarrow> string list) \<Rightarrow> nat \<Rightarrow> nat \<Rightarrow> nat \<Rightarrow> bool \<Rightarrow> 'x config \<Rightarrow>
     ('x config \<times> string option) call" where
  "config_Load lib merge ord iterations depth fuel force c =
     (let gs = SortStable group_obj OrderedFirstCompareReverse (cfg_groups c);
          gs = (if force then map group_Reset gs else gs);
          c = c\<lparr>cfg_groups := gs, cfg_profiles := (if force then [] else cfg_profiles c)\<rparr>
      in and_then (load_loop merge iterations True gs ([NMap []], 0)) (\<lambda>(gs, r).
           let c = c\<lparr>cfg_groups := gs\<rparr>
           in case r of
                Inl e \<Rightarrow> Returns (c\<lparr>isLoaded := False\<rparr>, Some e)
              | Inr ((h, root), ps) \<Rightarrow>
                  and_then (resolve lib ord depth fuel root h) (\<lambda>(h, e).
                    case e of
                      Some err \<Rightarrow> Returns (c\<lparr>isLoaded := False\<rparr>, Some err)
                    | None \<Rightarrow>
                        and_then (resolveProfiles (h, root)) (\<lambda>pfs.
                          Returns (c\<lparr>cfg_properties := (h, root), cfg_profiles := remdups (filter (\<lambda>p. p \<noteq> []) pfs), cfg_providers := rev ps, isLoaded := True\<rparr>,
                                   None)))))"

definition config_Value :: "'x config \<Rightarrow> string \<Rightarrow> 'x hval call" where
  "config_Value c key = (if \<not> isLoaded c then Returns HNil else config_value (fst (cfg_properties c)) (snd (cfg_properties c)) key)"

definition HasProfile :: "'x config \<Rightarrow> string \<Rightarrow> bool" where
  "HasProfile c profile \<longleftrightarrow> profile \<in> set (cfg_profiles c)"

section \<open>Merging\<close>

text \<open>A merge in which the second argument overrides the first and maps are merged entry by entry.\<close>

fun deep_merge :: "'x cval \<Rightarrow> 'x cval \<Rightarrow> 'x cval"
  and merge_entries :: "(string \<times> 'x cval) list \<Rightarrow> (string \<times> 'x cval) list \<Rightarrow> (string \<times> 'x cval) list" where
  "deep_merge (CMap dst) (CMap src) = CMap (merge_entries dst src)"
| "deep_merge dst src = src"
| "merge_entries dst [] = dst"
| "merge_entries dst ((k, v) # src) =
     merge_entries (AList.update k (case map_of dst k of None \<Rightarrow> v | Some w \<Rightarrow> deep_merge w v) dst) src"

definition override_merge :: "'x merge" where
  "override_merge dst src = Inr (deep_merge dst src)"

section \<open>Profiles that alternate\<close>

text \<open>
  Three files: the main one activates the profile \<open>A\<close>, the file of \<open>A\<close> activates the profile \<open>B\<close> instead, and
  the file of \<open>B\<close> says nothing of profiles.
\<close>

definition activates :: "string list \<Rightarrow> nat cval" where
  "activates ps = CMap [(''application'', CMap [(''profiles'', CMap [(''active'', CList (map CStr ps))])])]"

definition file_key :: "string \<Rightarrow> string" where
  "file_key profile = (if profile = [] then ''application'' else ''application-'' @ profile)"

definition three_files :: "nat create_func" where
  "three_files name order conf =
     (if name = ''application'' then Some \<lparr>Loaded = False, Settings = None, prov_Precedence = order, load_result = Inr (Some (activates [''A'']))\<rparr>
      else if name = ''application-A'' then Some \<lparr>Loaded = False, Settings = None, prov_Precedence = order, load_result = Inr (Some (activates [''B'']))\<rparr>
      else if name = ''application-B'' then Some \<lparr>Loaded = False, Settings = None, prov_Precedence = order, load_result = Inr (Some (CMap []))\<rparr>
      else None)"

definition three_files_group :: "nat group" where
  "three_files_group = NewProfileBasedProviderGroup 0 file_key three_files"

definition read_file :: "nat cval \<Rightarrow> int \<Rightarrow> nat provider" where
  "read_file settings order = \<lparr>Loaded = True, Settings = Some settings, prov_Precedence = order, load_result = Inr (Some settings)\<rparr>"

definition main_file :: "nat provider" where
  "main_file = read_file (activates [''A'']) 0"

definition files_with :: "(string \<times> nat provider) list \<Rightarrow> nat dynamic_group" where
  "files_with files =
     \<lparr>grp_Precedence = 0, ProviderKeys = map fst files @ [''application''], ProviderLookup = (''application'', main_file) # files,
      ResolvedProviders = ''application'' # map fst files\<rparr>"

abbreviation group_with :: "(string \<times> nat provider) list \<Rightarrow> nat group" where
  "group_with files \<equiv> ProfileBasedProviderGroup (files_with files) file_key three_files"

definition active_props :: "string \<Rightarrow> nat conf" where
  "active_props profile =
     ([NList [HStr profile], NMap [(''active'', HRef 0), (''additional'', HStrs [])], NMap [(''profiles'', HRef 1)], NMap [(''application'', HRef 2)]], 3)"

abbreviation "file_A \<equiv> read_file (activates [''B'']) (- 1)"
abbreviation "file_B \<equiv> read_file (CMap []) (- 1)"

text \<open>One round over a single group of files.\<close>

definition load_files ::
    "nat conf \<Rightarrow> nat dynamic_group \<Rightarrow> bool \<Rightarrow> (nat dynamic_group \<times> nat provider list \<times> bool \<times> string option) call" where
  "load_files conf g b =
     and_then (profile_Providers file_key three_files conf g) (\<lambda>(g1, names).
       let names' = SortStable (provider_obj (ProviderLookup g1)) OrderedFirstCompareReverse names
       in case load_providers names' (ProviderLookup g1) b of
            (ps, b', Some e) \<Rightarrow> Returns (g1\<lparr>ProviderLookup := ps, ResolvedProviders := names'\<rparr>, [], b', Some e)
          | (ps, b', None) \<Rightarrow>
              Returns (g1\<lparr>ProviderLookup := ps, ResolvedProviders := names'\<rparr>, List.map_filter (map_of ps) names', b', None))"

lemma load_groups_files:
  "load_groups conf [] [ProfileBasedProviderGroup g file_key three_files] [] b =
     map_call (\<lambda>(g, r). ([ProfileBasedProviderGroup g file_key three_files], r)) (load_files conf g b)"
  by (cases "profile_Providers file_key three_files conf g") (auto simp: load_files_def Let_def split: prod.split option.split)

lemma rounds:
  "load_files ([NMap []], 0) (NewDynamicProviderGroup 0) True = Returns (files_with [], [main_file], True, None)"
  "load_files (active_props ''A'') (files_with []) False = Returns (files_with [(''application-A'', file_A)], [main_file, file_A], True, None)"
  "load_files (active_props ''B'') (files_with [(''application-A'', file_A)]) False =
     Returns (files_with [(''application-B'', file_B)], [main_file, file_B], True, None)"
  "load_files (active_props ''A'') (files_with [(''application-B'', file_B)]) False =
     Returns (files_with [(''application-A'', file_A)], [main_file, file_A], True, None)"
  by code_simp+

lemma merged_rounds:
  "merge_providers override_merge [main_file] = Returns (Inr (active_props ''A''))"
  "merge_providers override_merge [main_file, file_A] = Returns (Inr (active_props ''B''))"
  "merge_providers override_merge [main_file, file_B] = Returns (Inr (active_props ''A''))"
  by code_simp+

lemma alternating:
  "load_loop override_merge n False [group_with [(''application-A'', file_A)]] (active_props ''B'') = Runs_forever"
  "load_loop override_merge n False [group_with [(''application-B'', file_B)]] (active_props ''A'') = Runs_forever"
  by (induction n) (simp_all add: load_groups_files rounds merged_rounds del: load_groups.simps)

text \<open>C39: Loading may never end: if the file of an active profile activates another one in its place, and that one says
  nothing, the two profiles take turns, their files are read again and again, and no number of rounds is enough.\<close>

theorem load_never_ends:
  "config_Load lib override_merge ord iterations depth fuel force
     \<lparr>cfg_properties = ([], 0), cfg_groups = [three_files_group], cfg_providers = [], cfg_profiles = [], isLoaded = False\<rparr> = Runs_forever"
proof -
  have "load_loop override_merge iterations True [three_files_group] ([NMap []], 0) = Runs_forever"
  proof (cases iterations)
    case (Suc n)
    have "load_loop override_merge n False [group_with []] (active_props ''A'') = Runs_forever"
      by (cases n) (simp_all add: load_groups_files rounds merged_rounds alternating del: load_groups.simps)
    with Suc show ?thesis
      by (simp add: three_files_group_def NewProfileBasedProviderGroup_def load_groups_files rounds merged_rounds del: load_groups.simps)
  qed simp
  moreover have "SortStable group_obj OrderedFirstCompareReverse [three_files_group] = [three_files_group]"
    by (simp add: SortStable_def SliceStable_def)
  moreover have "group_Reset three_files_group = three_files_group"
    by (simp add: three_files_group_def NewProfileBasedProviderGroup_def NewDynamicProviderGroup_def dynamic_Reset_def reset_all_def)
  ultimately show ?thesis by (simp add: config_Load_def Let_def)
qed

section \<open>Static groups\<close>

lemma insertion_loop_id: "sorted_wrt (\<lambda>a b. \<not> lt b a) (rev acc @ xs) \<Longrightarrow> insertion_loop lt acc xs = rev xs @ acc"
proof (induction xs arbitrary: acc)
  case (Cons x xs)
  have "shift_back lt x acc = x # acc" using Cons.prems by (cases acc) (auto simp: sorted_wrt_append)
  with Cons show ?case by simp
qed simp

lemma SortStable_id:
  "sorted_wrt (\<lambda>a b. \<not> cmp (view b) (view a)) xs \<Longrightarrow> SortStable view cmp xs = xs"
  using insertion_loop_id [of "\<lambda>a b. cmp (view a) (view b)" "[]" xs] by (simp add: SortStable_def SliceStable_def)

definition after_load :: "'x provider \<Rightarrow> 'x provider" where
  "after_load p = (if Loaded p then p else fst (provider_Load p))"

definition loads :: "'x provider \<Rightarrow> bool" where
  "loads p \<longleftrightarrow> Loaded p \<or> (\<exists>settings. load_result p = Inr settings)"

text \<open>The providers of a static group, from low to high precedence, after they were loaded.\<close>

definition by_precedence :: "(string \<times> 'x provider) list \<Rightarrow> string list" where
  "by_precedence ps = SortStable (provider_obj ps) OrderedFirstCompareReverse (map fst ps)"

definition loaded_table :: "(string \<times> 'x provider) list \<Rightarrow> (string \<times> 'x provider) list" where
  "loaded_table ps = map (\<lambda>n. (n, after_load (the (map_of ps n)))) (by_precedence ps)"

lemma set_by_precedence: "set (by_precedence ps) = fst ` set ps" and distinct_by_precedence: "distinct (by_precedence ps) \<longleftrightarrow> distinct (map fst ps)"
  and length_by_precedence: "length (by_precedence ps) = length ps"
  using ordered_first_rev.permutes [of "provider_obj ps" "map fst ps"]
  by (metis by_precedence_def set_map set_mset_mset, metis by_precedence_def mset_eq_imp_distinct_iff, metis by_precedence_def length_map size_mset)

lemma map_of_names: "map_of (map (\<lambda>n. (n, f n)) ns) n = (if n \<in> set ns then Some (f n) else None)"
  by (induction ns) auto

lemma after_load_simps: "loads p \<Longrightarrow> Loaded (after_load p)" "prov_Precedence (after_load p) = prov_Precedence p"
  "loads (after_load p) \<longleftrightarrow> loads p" "loads p \<Longrightarrow> after_load (after_load p) = after_load p"
  by (auto simp: after_load_def loads_def provider_Load_def split: sum.splits)

lemma update_name:
  "distinct ns \<Longrightarrow> n \<in> set ns \<Longrightarrow> AList.update n p (map (\<lambda>n. (n, f n)) ns) = map (\<lambda>m. (m, if m = n then p else f m)) ns"
  by (induction ns) auto

lemma load_all:
  assumes "distinct ns"
  shows "set names \<subseteq> set ns \<Longrightarrow> distinct names \<Longrightarrow> (\<And>n. n \<in> set names \<Longrightarrow> loads (f n)) \<Longrightarrow>
    load_providers names (map (\<lambda>n. (n, f n)) ns) b =
      (map (\<lambda>n. (n, if n \<in> set names then after_load (f n) else f n)) ns, b \<or> (\<exists>n \<in> set names. \<not> Loaded (f n)), None)"
proof (induction names arbitrary: f b)
  case (Cons n names)
  then have n: "map_of (map (\<lambda>n. (n, f n)) ns) n = Some (f n)" by (simp add: map_of_names)
  show ?case
  proof (cases "Loaded (f n)")
    case True
    with Cons n show ?thesis by (auto simp: after_load_def)
  next
    case False
    define f' where "f' m = (if m = n then after_load (f n) else f m)" for m
    have "provider_Load (f n) = (after_load (f n), None)" using False Cons.prems(3) [of n] by (auto simp: after_load_def loads_def provider_Load_def)
    moreover have "AList.update n (after_load (f n)) (map (\<lambda>n. (n, f n)) ns) = map (\<lambda>n. (n, f' n)) ns"
      using update_name [OF assms, of n] Cons.prems(1) by (simp add: f'_def)
    moreover have "load_providers names (map (\<lambda>n. (n, f' n)) ns) True =
        (map (\<lambda>m. (m, if m \<in> set names then after_load (f' m) else f' m)) ns, True, None)"
    proof -
      have "loads (f' m)" if "m \<in> set names" for m using that Cons.prems(2,3) by (auto simp: f'_def)
      with Cons.IH [of f' True] Cons.prems(1,2) show ?thesis by simp
    qed
    moreover have "(if m \<in> set names then after_load (f' m) else f' m) = (if m \<in> set (n # names) then after_load (f m) else f m)" for m
      using Cons.prems(2) by (auto simp: f'_def)
    moreover have "\<exists>m \<in> set (n # names). \<not> Loaded (f m)" using False by simp
    ultimately show ?thesis using n False by (simp del: list.set set_simps)
  qed
qed simp

lemma map_filter_names: "List.map_filter (map_of (map (\<lambda>n. (n, f n)) ns)) ns = map f ns"
proof -
  have "List.map_filter (map_of (map (\<lambda>n. (n, f n)) ns)) ns' = map f ns'" if "set ns' \<subseteq> set ns" for ns'
    using that by (induction ns') (auto simp: map_of_names List.map_filter_simps)
  then show ?thesis by simp
qed

lemma load_static_group:
  assumes "distinct (map fst ps)" and "\<And>n p. (n, p) \<in> set ps \<Longrightarrow> loads p"
  shows "load_groups conf past (StaticProviderGroup order ps # gs) providers b =
    load_groups conf (past @ [StaticProviderGroup order (loaded_table ps)]) gs (providers @ map snd (loaded_table ps))
      (b \<or> (\<exists>(n, p) \<in> set ps. \<not> Loaded p))"
proof -
  let ?names = "by_precedence ps" and ?f = "\<lambda>n. the (map_of ps n)"
  have dist: "distinct ?names" using assms(1) by (simp add: distinct_by_precedence)
  have f: "?f n = p" if "(n, p) \<in> set ps" for n p using that assms(1) by simp
  have "loads (?f n)" if "n \<in> set ?names" for n
    using that assms(2) f by (force simp: set_by_precedence)
  from load_all [where names = ?names and f = ?f and b = b, OF dist order_refl dist this]
  have "load_providers ?names (map (\<lambda>n. (n, ?f n)) ?names) b =
      (map (\<lambda>n. (n, if n \<in> set ?names then after_load (?f n) else ?f n)) ?names, b \<or> (\<exists>n \<in> set ?names. \<not> Loaded (?f n)), None)" .
  moreover have "map (\<lambda>n. (n, if n \<in> set ?names then after_load (?f n) else ?f n)) ?names = loaded_table ps"
    by (auto simp: loaded_table_def)
  moreover have "(\<exists>n \<in> set ?names. \<not> Loaded (?f n)) \<longleftrightarrow> (\<exists>(n, p) \<in> set ps. \<not> Loaded p)"
    using f by (force simp: set_by_precedence)
  moreover have "List.map_filter (map_of (loaded_table ps)) ?names = map snd (loaded_table ps)"
    unfolding loaded_table_def by (subst map_filter_names) (simp add: comp_def)
  ultimately show ?thesis by (simp add: Let_def flip: by_precedence_def)
qed

definition static_ok :: "'x group \<Rightarrow> bool" where
  "static_ok g \<longleftrightarrow> (case g of StaticProviderGroup order ps \<Rightarrow> distinct (map fst ps) \<and> list_all (\<lambda>(n, p). loads p) ps | _ \<Rightarrow> False)"

lemma static_okE:
  assumes "static_ok g"
  obtains order ps where "g = StaticProviderGroup order ps" and "distinct (map fst ps)" and "\<And>n p. (n, p) \<in> set ps \<Longrightarrow> loads p"
proof (cases g)
  case (StaticProviderGroup order ps)
  with assms have "distinct (map fst ps)" "\<forall>(n, p) \<in> set ps. loads p" by (auto simp: static_ok_def list_all_iff)
  with that [OF StaticProviderGroup] show thesis by blast
qed (use assms in \<open>simp_all add: static_ok_def\<close>)

fun loaded_group :: "'x group \<Rightarrow> 'x group" where
  "loaded_group (StaticProviderGroup order ps) = StaticProviderGroup order (loaded_table ps)"
| "loaded_group g = g"

definition all_loaded :: "'x group list \<Rightarrow> bool" where
  "all_loaded gs \<longleftrightarrow> (\<forall>g \<in> set gs. \<forall>(n, p) \<in> set (provider_table g). Loaded p)"

definition providers_of :: "'x group list \<Rightarrow> 'x provider list" where
  "providers_of gs = concat (map (\<lambda>g. map snd (provider_table g)) gs)"

lemma load_static_groups:
  "list_all static_ok gs \<Longrightarrow> load_groups conf past gs providers b =
     Returns (past @ map loaded_group gs, providers @ providers_of (map loaded_group gs), b \<or> \<not> all_loaded gs, None)"
proof (induction gs arbitrary: past providers b)
  case (Cons g gs)
  then obtain order ps where g: "g = StaticProviderGroup order ps" "distinct (map fst ps)" "\<And>n p. (n, p) \<in> set ps \<Longrightarrow> loads p"
    by (auto elim: static_okE)
  from load_static_group [where conf = conf and past = past and order = order and gs = gs and providers = providers and b = b, OF g(2,3)] Cons g(1) show ?case
    by (auto simp: providers_of_def all_loaded_def)
qed (simp add: providers_of_def all_loaded_def)

lemma by_precedence_loaded: "distinct (map fst ps) \<Longrightarrow> by_precedence (loaded_table ps) = by_precedence ps"
proof -
  assume dist: "distinct (map fst ps)"
  let ?ns = "by_precedence ps"
  have obj: "provider_obj (loaded_table ps) n = provider_obj ps n" if "n \<in> set ?ns" for n
    using that dist by (force simp: provider_obj_def loaded_table_def map_of_names after_load_simps set_by_precedence)
  have "sorted_wrt (\<lambda>a b. \<not> OrderedFirstCompareReverse (provider_obj ps b) (provider_obj ps a)) ?ns"
    unfolding by_precedence_def by (rule ordered_first_rev.sorts)
  then have "sorted_wrt (\<lambda>a b. \<not> OrderedFirstCompareReverse (provider_obj (loaded_table ps) b) (provider_obj (loaded_table ps) a)) ?ns"
    by (rule sorted_wrt_mono_rel [rotated]) (simp add: obj)
  moreover have "map fst (loaded_table ps) = ?ns" by (simp add: loaded_table_def comp_def)
  ultimately show ?thesis unfolding by_precedence_def [of "loaded_table ps"] by (simp add: SortStable_id)
qed

lemma loaded_again:
  assumes "static_ok g"
  shows "static_ok (loaded_group g)" and "loaded_group (loaded_group g) = loaded_group g" and "all_loaded [loaded_group g]"
proof -
  obtain order ps where g: "g = StaticProviderGroup order ps" "distinct (map fst ps)" "\<And>n p. (n, p) \<in> set ps \<Longrightarrow> loads p"
    using static_okE [OF assms] by blast
  have l: "loads (the (map_of ps n))" if "n \<in> set (by_precedence ps)" for n using that g(2,3) by (force simp: set_by_precedence)
  then show "static_ok (loaded_group g)" "all_loaded [loaded_group g]"
    using g distinct_by_precedence [of ps]
    by (auto simp: static_ok_def list_all_iff loaded_table_def comp_def after_load_simps all_loaded_def)
  have "loaded_table (loaded_table ps) = loaded_table ps"
    unfolding loaded_table_def [of "loaded_table ps"] by_precedence_loaded [OF g(2)]
    by (auto simp: loaded_table_def map_of_names after_load_simps l)
  with g(1) show "loaded_group (loaded_group g) = loaded_group g" by simp
qed



end
