(* ===== verification/Spec2Isabelle.thy ===== *)
theory Spec2Isabelle
  imports Access Sets Tenant_Access Csrf Lock_Runs Config_Load
begin

text \<open>
  Verification of go-lanai, a framework for Go microservices. The development models the parts of the framework
  that decide who may do what (errors, matchers, access rules, tenants, logins, sessions, CSRF tokens), the
  distributed locks, and the configuration of an application; all paths below are under \<^verbatim>\<open>src/pkg\<close>.

  \<^bold>\<open>Conventions.\<close> A Go function is a HOL function with the same name where HOL allows it; a method carries
  the name of its type. A struct is a \<^verbatim>\<open>record\<close>, a dynamic type that the code switches over is a
  \<^verbatim>\<open>datatype\<close>. State is passed explicitly. \<^verbatim>\<open>(value, error)\<close> is a sum with \<open>Inl\<close> the error, or a pair where
  both parts matter. Calls that may panic or not return give \<open>Panics\<close> or \<open>Runs_forever\<close> (\<open>call\<close> in \<open>Prelude\<close>), or
  \<open>None\<close> where only a panic is possible. Times and durations are integers in nanoseconds, each reading of the
  clock is an argument. Strings are lists of bytes; codes, masks and counters are machine words. The order in which
  Go iterates over a map is an argument or the order of a list, so that the theorems hold for every order. Log
  statements have no counterpart.

  Code that is not part of the repository is an argument: the Redis client (\<open>redis\<close>, \<open>session_redis\<close>), the Consul
  client (\<open>consul\<close>), the TOTP library, the account store and the password encoder, glob and regular expression
  matching, number parsing and printing, the random source. What the code relies on is a named hypothesis that states
  the documented behaviour (\<open>redis_docs\<close>, \<open>session_docs\<close>, \<open>consul_docs\<close>, \<open>totp_docs\<close> and similar), and every theorem with such a
  hypothesis has a witness with a concrete instance (\<open>mem_redis\<close>, \<open>mem_client\<close>, \<open>mem_consul\<close>, \<open>whole_numbers\<close>).

  \<^bold>\<open>Foundations.\<close>

  \<^item> \<open>Prelude\<close>: calls, Go's stable sort, list lemmas; the locale \<open>strict_weak_order\<close> is what a sort needs of a comparator.
  \<^item> \<open>Go_Strings\<close>: the functions of Go's \<^verbatim>\<open>strings\<close>, \<^verbatim>\<open>unicode\<close> (for ASCII) and \<^verbatim>\<open>strconv\<close> packages that the code calls.
  \<^item> \<open>Order\<close>: \<^verbatim>\<open>utils/order/ordered.go\<close>. Five comparators are strict weak orders (interpretations of
    \<open>stable_compare\<close>), so \<^verbatim>\<open>SortStable\<close> with them is a stable sort.
  \<^item> \<open>Errors\<close>, \<open>Security_Errors\<close>: \<^verbatim>\<open>utils/error\<close> and \<^verbatim>\<open>security/errors.go\<close>. An error belongs to its
    category, type and sub type and to no other; the binary form restores code, mask and message.
  \<^item> \<open>Matchers\<close>: \<^verbatim>\<open>utils/matcher\<close> and \<^verbatim>\<open>web/matcher\<close>, with the meaning of their combinators.
  \<^item> \<open>Sets\<close>: \<^verbatim>\<open>utils/sets.go\<close>. The locale \<open>go_set\<close> is the contract of a set and is interpreted for the three set types.

  \<^bold>\<open>Access control.\<close>

  \<^item> \<open>Security_Context\<close>: authentications and permissions of \<^verbatim>\<open>security/context.go\<close>.
  \<^item> \<open>Permission_Expr\<close>: the tokenizer and the two-stack parser of \<^verbatim>\<open>security/access/permissions.go\<close>. The parser accepts
    the grammar of Boolean expressions and its matcher means what the grammar says. The reverse does not hold: some
    malformed expressions are accepted.
  \<^item> \<open>Access\<close>: the other files of \<^verbatim>\<open>security/access\<close>, up to the middleware. The first matching rule in the order
    of the rules decides.

  \<^bold>\<open>Tenants.\<close>

  \<^item> \<open>Tenancy\<close>: \<^verbatim>\<open>tenancy\<close> with accessor, modifier and loader over a sorted set of Redis.
  \<^item> \<open>Tenant_Hierarchy\<close>: the specification, a finite acyclic map from tenants to parents. The modifier refines it, every
    sequence of its operations keeps it, and the lookups compute children, ancestors and descendants. The locale
    \<open>tenant_reads\<close> is the contract between the accessor and its users, and is interpreted for the accessor over Redis.
  \<^item> \<open>Tenant_Access\<close>: the tenant checks of \<^verbatim>\<open>security/context.go\<close> on top of it, the loader, and a run of
    two concurrent modifications after which a lookup does not end.

  \<^bold>\<open>Logins.\<close>

  \<^item> \<open>Account\<close>: \<^verbatim>\<open>security/account.go\<close>, \<^verbatim>\<open>account_default.go\<close>.
  \<^item> \<open>Otp\<close>: \<^verbatim>\<open>security/passwd/totp.go\<close>, \<^verbatim>\<open>otp_store.go\<close>. The locale \<open>otp_storage\<close> is the contract of a store, interpreted
    for the store in memory. Attempts and refreshes are bounded; an issued passcode verifies in its period.
  \<^item> \<open>Passwd\<close>, \<open>Passwd_Login\<close>: the authenticators, decision makers and post-processors of \<^verbatim>\<open>security/passwd\<close>, and exactly when
    a login is granted and with which permissions.
  \<^item> \<open>Lockout\<close>: sequences of logins: an account is locked after the configured failures and unlocks after its lockout time.
  \<^item> \<open>Mfa\<close>: the passcode step, and a login with both factors through the passcode manager.
  \<^item> \<open>Composite\<close>: \<^verbatim>\<open>security/authenticate.go\<close>, \<^verbatim>\<open>error_handling.go\<close>: nested composites behave as their flattened
    and sorted members, and the first answer counts.

  \<^bold>\<open>Sessions.\<close>

  \<^item> \<open>Session\<close>: sessions and their Redis store, \<^verbatim>\<open>security/session\<close>: idle and absolute timeouts.
  \<^item> \<open>Session_Control\<close>: middleware and handlers of that package: the limit on concurrent sessions, the change of the
    session id at login, the types of stored fields.
  \<^item> \<open>Csrf\<close>: \<^verbatim>\<open>security/csrf\<close>: which requests pass.

  \<^bold>\<open>Distributed locks.\<close>

  \<^item> \<open>Consul_Lock\<close>: \<^verbatim>\<open>dsync/consul\<close>. Goroutines, callers and the world interleave as an inductive step relation; a
    goroutine is a program counter that names a point of the source.
  \<^item> \<open>Lock_Safety\<close>: its invariants, by induction over the steps.
  \<^item> \<open>Lock_Runs\<close>: what the locks guarantee: a monitored lock is held in Consul, the channel of a lost lock, wake-ups, the end of
    a released goroutine. Three runs show what they do not.

  \<^bold>\<open>Configuration.\<close>

  \<^item> \<open>Placeholder\<close>: scanning and replacing placeholders, \<^verbatim>\<open>appconfig/config.go\<close>, and \<^verbatim>\<open>ParseString\<close> of \<^verbatim>\<open>utils/string.go\<close>.
  \<^item> \<open>Config_Store\<close>: keys and nested properties, \<^verbatim>\<open>appconfig/map_util.go\<close> and \<^verbatim>\<open>config.go\<close>, on an explicit heap, because
    properties may share maps. A write changes what the keys of its location read and nothing else.
  \<^item> \<open>Config_Resolve\<close>: resolving placeholders, \<^verbatim>\<open>resolve\<close> and \<^verbatim>\<open>resolveValue\<close>. The result solves the equations that the values
    with placeholders state; a map that refers to itself goes unnoticed.
  \<^item> \<open>Config_Load\<close>: groups of providers (\<^verbatim>\<open>provider_group.go\<close>), key formats, environment variables and \<^verbatim>\<open>Load\<close>. With static groups
    loading settles in two rounds and merges by precedence; with profiles that replace each other it never ends.

  \<^bold>\<open>Bounds and fuel.\<close> Loops over data are structural or have a termination proof. Loops that follow links which
  others may change are partial functions into option, where \<open>None\<close> is a loop that does not end: the walks along tenants,
  shown to return as long as the hierarchy is acyclic, and the scans of Redis, shown to return for a cursor that
  comes to its end, as the documentation promises. Fuel appears in the configuration, where running out of it is \<open>Runs_forever\<close>. The visit of all properties has the depth of the
  recursion as fuel, resolving a placeholder the length of a chain of references, and loading the number of rounds; the theorems
  say how much is enough, or that no amount is.

  \<^bold>\<open>Not modelled.\<close> The web framework (\<^verbatim>\<open>web\<close>), the wiring of packages (\<^verbatim>\<open>fx\<close> modules, \<^verbatim>\<open>security/config\<close>) and test
  helpers are registration of functions by reflection. Data access (\<^verbatim>\<open>data\<close>), messaging (\<^verbatim>\<open>kafka\<close>), HTTP clients, tracing, certificates
  and service discovery pass data to third-party libraries. SAML and the identity providers are dominated by XML signatures.
  OAuth2, logout, form login, basic authentication and request caches are HTTP handlers around the modelled parts and were
  left out for their size. JSON and text encoders, rendering of pages and log output are left out. The Redis locks are the same state machine
  over a library for which only the client is known.
\<close>

end
